(* ===== verification/Bionic_Prelude.thy ===== *)
theory Bionic_Prelude
  imports Main "HOL-Library.Word" "HOL-Library.Monad_Syntax"
begin

text \<open>
  Shared vocabulary of the development: the machine integers of the LP64 build of the program,
  C arrays with explicit bounds, C strings, and the generic lemmas that the components use.

  Throughout the development a value of type \<open>'a option\<close> that stands for the run of a piece of
  C code reads as follows: \<open>Some x\<close> means that the code returns \<open>x\<close>; \<open>None\<close> means that it does
  not return (it dereferences an address that is not mapped, reads or writes outside an array,
  divides by zero, fails an \<open>assert\<close>, calls \<open>abort\<close>, or runs for ever). A theorem of the form
  \<open>f x = Some y\<close> therefore claims termination and memory safety together with the result.
\<close>

unbundle bit_operations_syntax

section \<open>Machine integers\<close>

type_synonym u8 = "8 word"
type_synonym u16 = "16 word"
type_synonym u32 = "32 word"
type_synonym u64 = "64 word"

named_theorems array_simps "reads and writes of bounded C arrays"
named_theorems run_intros "introduction rules for runs that return"

section \<open>Runs\<close>

text \<open>An \<open>assert\<close> of the source: the run stops when the condition fails.\<close>

definition c_assert :: "bool \<Rightarrow> unit option" where
  "c_assert b = (if b then Some () else None)"

lemma c_assert_simps [simp]:
  "c_assert True = Some ()" "c_assert False = None"
  by (simp_all add: c_assert_def)

lemma c_assert_eq_Some [simp]: "c_assert b = Some u \<longleftrightarrow> b"
  by (simp add: c_assert_def)

lemma bind_eq_Some_conv' [run_intros]: "f = Some x \<Longrightarrow> g x = Some y \<Longrightarrow> Option.bind f g = Some y"
  by simp

section \<open>C arrays\<close>

text \<open>
  \<open>arr_get\<close> and \<open>arr_set\<close> are the read and the write of an element of an array. Outside the
  bounds of the array the behaviour of C is undefined and the run does not return.
\<close>

definition arr_get :: "'a list \<Rightarrow> nat \<Rightarrow> 'a option" where
  "arr_get xs i = (if i < length xs then Some (xs ! i) else None)"

definition arr_set :: "'a list \<Rightarrow> nat \<Rightarrow> 'a \<Rightarrow> 'a list option" where
  "arr_set xs i v = (if i < length xs then Some (xs[i := v]) else None)"

lemma arr_get_Some_iff [array_simps]: "arr_get xs i = Some x \<longleftrightarrow> i < length xs \<and> xs ! i = x"
  by (auto simp: arr_get_def)

lemma arr_set_Some_iff [array_simps]:
  "arr_set xs i v = Some ys \<longleftrightarrow> i < length xs \<and> ys = xs[i := v]"
  by (auto simp: arr_set_def)

lemma arr_get_append1 [array_simps]: "i < length xs \<Longrightarrow> arr_get (xs @ ys) i = Some (xs ! i)"
  by (simp add: arr_get_def nth_append)

lemma arr_get_append_length [simp]: "arr_get (xs @ y # ys) (length xs) = Some y"
  by (simp add: arr_get_def)

lemma arr_set_append_length [simp]:
  "arr_set (xs @ y # ys) (length xs) v = Some (xs @ v # ys)"
  by (simp add: arr_set_def list_update_append)

section \<open>C strings\<close>

text \<open>
  A C string is modelled by the list of its characters before the terminating NUL; in a buffer
  it is followed by \<open>NUL\<close>. \<open>c_string s\<close> says that \<open>s\<close> is such a list.
\<close>

abbreviation NUL :: char where
  "NUL \<equiv> CHR 0x00"

definition c_string :: "string \<Rightarrow> bool" where
  "c_string s \<longleftrightarrow> NUL \<notin> set s"

lemma c_string_simps [simp]:
  "c_string []"
  "c_string (c # s) \<longleftrightarrow> c \<noteq> NUL \<and> c_string s"
  "c_string (s @ t) \<longleftrightarrow> c_string s \<and> c_string t"
  by (auto simp: c_string_def)

lemma c_string_take [simp]: "c_string s \<Longrightarrow> c_string (take n s)"
  by (auto simp: c_string_def dest: in_set_takeD)

lemma c_string_drop [simp]: "c_string s \<Longrightarrow> c_string (drop n s)"
  by (auto simp: c_string_def dest: in_set_dropD)

lemma c_string_nth: "c_string s \<Longrightarrow> i < length s \<Longrightarrow> s ! i \<noteq> NUL"
  by (metis c_string_def nth_mem)

text \<open>\<open>c_str buf\<close> is the C string that starts at the beginning of the buffer \<open>buf\<close>.\<close>

definition c_str :: "char list \<Rightarrow> string" where
  "c_str buf = takeWhile (\<lambda>c. c \<noteq> NUL) buf"

lemma c_str_append_NUL [simp]: "c_string s \<Longrightarrow> c_str (s @ NUL # r) = s"
  by (induction s) (auto simp: c_str_def)

lemma c_string_c_str [simp]: "c_string (c_str buf)"
  by (auto simp: c_str_def c_string_def dest: set_takeWhileD)

text \<open>\<open>strrchr\<close> followed by \<open>bname ? bname + 1 : name\<close>: the part after the last slash.\<close>

definition base_name :: "string \<Rightarrow> string" where
  "base_name s = rev (takeWhile (\<lambda>c. c \<noteq> CHR ''/'') (rev s))"

lemma base_name_no_slash: "CHR ''/'' \<notin> set (base_name s)"
  by (auto simp: base_name_def dest: set_takeWhileD)

lemma base_name_id: "CHR ''/'' \<notin> set s \<Longrightarrow> base_name s = s"
proof -
  assume "CHR ''/'' \<notin> set s"
  then have "takeWhile (\<lambda>c. c \<noteq> CHR ''/'') (rev s) = rev s"
    by (auto simp: takeWhile_eq_all_conv)
  then show ?thesis by (simp only: base_name_def rev_rev_ident)
qed

lemma base_name_suffix: "\<exists>p. s = p @ base_name s"
proof -
  have "rev s = takeWhile (\<lambda>c. c \<noteq> CHR ''/'') (rev s) @ dropWhile (\<lambda>c. c \<noteq> CHR ''/'') (rev s)"
    by simp
  then have "s = rev (dropWhile (\<lambda>c. c \<noteq> CHR ''/'') (rev s)) @ base_name s"
    by (metis base_name_def rev_append rev_rev_ident)
  then show ?thesis by blast
qed

lemma base_name_idem [simp]: "base_name (base_name s) = base_name s"
  by (rule base_name_id) (rule base_name_no_slash)

lemma c_string_base_name [simp]: "c_string s \<Longrightarrow> c_string (base_name s)"
  by (metis base_name_suffix c_string_simps(3))

lemma length_base_name_le: "length (base_name s) \<le> length s"
  by (metis base_name_suffix le_add2 length_append)

end
