(* ===== verification/Linker_Environ.thy ===== *)
theory Linker_Environ
  imports Bionic_Prelude "HOL-Library.Sublist"
begin

text \<open>
  The environment block of \<open>linker/linker_environ.c\<close>. The global \<open>apkenv__envp\<close> is an array of
  pointers to C strings that ends with a NULL pointer and is edited in place; it is modelled by
  the list of the pointers, and the strings they point to by a function \<open>strs\<close> from addresses
  to C strings. Every access to the array or to a string is bounds checked (\<open>arr_get\<close>,
  \<open>arr_set\<close>), so the results below say that the code stays inside the block.
\<close>

section \<open>Model\<close>

text \<open>Pointer to an environment string: 0 is NULL.\<close>

type_synonym env_block = "u64 list"

definition MAX_ENV_LEN :: nat where
  "MAX_ENV_LEN = 32 * 4096"

text \<open>The do-while loop of \<open>apkenv__is_valid_definition\<close>: \<open>pos\<close> and \<open>first_equal_pos\<close>.\<close>

function valid_scan :: "char list \<Rightarrow> nat \<Rightarrow> int \<Rightarrow> (nat \<times> int) option" where
  "valid_scan str pos first_equal_pos = do {
     c \<leftarrow> arr_get str pos;
     if c = NUL then Some (pos, first_equal_pos)
     else let fe = (if c = CHR ''='' \<and> first_equal_pos < 0 then int pos else first_equal_pos)
          in if pos + 1 < MAX_ENV_LEN then valid_scan str (pos + 1) fe else Some (pos + 1, fe)
   }"
  by pat_completeness auto
termination
  by (relation "measure (\<lambda>(str, pos, _). length str - pos)") (auto simp: array_simps)

definition apkenv__is_valid_definition :: "char list option \<Rightarrow> bool option" where
  "apkenv__is_valid_definition str = (case str of
      None \<Rightarrow> Some False
    | Some str \<Rightarrow> do {
        (pos, first_equal_pos) \<leftarrow> valid_scan str 0 (-1);
        if pos \<ge> MAX_ENV_LEN then Some False
        else if first_equal_pos < 1 then Some False
        else Some True
      })"

text \<open>
  The loop of \<open>apkenv_env_match\<close>, then its result: the address after the equal sign, here the
  rest of the string from there.
\<close>

function env_match_cnt :: "char list \<Rightarrow> char list \<Rightarrow> nat \<Rightarrow> nat option" where
  "env_match_cnt envstr name cnt = do {
     e \<leftarrow> arr_get envstr cnt;
     n \<leftarrow> arr_get name cnt;
     if e = n \<and> n \<noteq> NUL then env_match_cnt envstr name (cnt + 1) else Some cnt
   }"
  by pat_completeness auto
termination
  by (relation "measure (\<lambda>(envstr, name, cnt). length envstr - cnt)") (auto simp: array_simps)

definition apkenv_env_match :: "char list \<Rightarrow> char list \<Rightarrow> char list option option" where
  "apkenv_env_match envstr name = do {
     cnt \<leftarrow> env_match_cnt envstr name 0;
     n \<leftarrow> arr_get name cnt;
     e \<leftarrow> arr_get envstr cnt;
     if n = NUL \<and> e = CHR ''='' then Some (Some (drop (cnt + 1) envstr)) else Some None
   }"

text \<open>
  The loop that both \<open>apkenv_linker_env_init\<close> and \<open>apkenv_linker_env_unset\<close> run over the block:
  \<open>readp\<close> visits every entry up to the NULL, an entry for which \<open>drop_it\<close> holds is skipped, any
  other is stored at \<open>writep\<close>; the block is then closed with a NULL at \<open>writep\<close>.
\<close>

function env_compact :: "(u64 \<Rightarrow> bool option) \<Rightarrow> env_block \<Rightarrow> nat \<Rightarrow> nat \<Rightarrow> env_block option" where
  "env_compact drop_it envp readp writep = do {
     p \<leftarrow> arr_get envp readp;
     if p = 0 then arr_set envp writep 0
     else do {
       b \<leftarrow> drop_it p;
       if b then env_compact drop_it envp (readp + 1) writep
       else do {
         envp' \<leftarrow> arr_set envp writep p;
         env_compact drop_it envp' (readp + 1) (writep + 1)
       }
     }
   }"
  by pat_completeness auto
termination
  by (relation "measure (\<lambda>(_, envp, r, _). length envp - r)") (auto simp: array_simps)

declare valid_scan.simps [simp del] env_match_cnt.simps [simp del] env_compact.simps [simp del]

text \<open>
  \<open>apkenv_linker_env_init\<close>. Its parameter is a pointer to \<^verbatim>\<open>unsigned\<close>, so on LP64 it walks the
  block of 8-byte pointers in 4-byte halves; the result is counted in these halves.
\<close>

definition unsigned_view :: "env_block \<Rightarrow> u32 list" where
  "unsigned_view vecs = concat (map (\<lambda>p. [ucast p, ucast (drop_bit 32 p)]) vecs)"

function env_skip :: "u32 list \<Rightarrow> nat \<Rightarrow> nat option" where
  "env_skip vecs i = do {
     v \<leftarrow> arr_get vecs i;
     if v \<noteq> 0 then env_skip vecs (i + 1) else Some i
   }"
  by pat_completeness auto
termination
  by (relation "measure (\<lambda>(vecs, i). length vecs - i)") (auto simp: array_simps)

declare env_skip.simps [simp del]

definition apkenv_linker_env_init ::
  "(u64 \<Rightarrow> char list) \<Rightarrow> env_block \<Rightarrow> (env_block \<times> nat) option" where
  "apkenv_linker_env_init strs vecs = do {
     i \<leftarrow> env_skip (unsigned_view vecs) 0;
     envp \<leftarrow> env_compact (\<lambda>p. map_option Not (apkenv__is_valid_definition (Some (strs p))))
               vecs 0 0;
     Some (envp, i + 1)
   }"

text \<open>\<open>apkenv_linker_env_get\<close>: \<open>None\<close> in the result is the NULL the source returns.\<close>

function env_get_loop ::
  "(u64 \<Rightarrow> char list) \<Rightarrow> env_block \<Rightarrow> char list \<Rightarrow> nat \<Rightarrow> char list option option" where
  "env_get_loop strs envp name readp = do {
     p \<leftarrow> arr_get envp readp;
     if p = 0 then Some None
     else do {
       val \<leftarrow> apkenv_env_match (strs p) name;
       case val of
         None \<Rightarrow> env_get_loop strs envp name (readp + 1)
       | Some val \<Rightarrow> do {
           c \<leftarrow> arr_get val 0;
           Some (if c = NUL then None else Some val)
         }
     }
   }"
  by pat_completeness auto
termination
  by (relation "measure (\<lambda>(_, envp, _, r). length envp - r)") (auto simp: array_simps)

declare env_get_loop.simps [simp del]

definition apkenv_linker_env_get ::
  "(u64 \<Rightarrow> char list) \<Rightarrow> env_block \<Rightarrow> char list option \<Rightarrow> char list option option" where
  "apkenv_linker_env_get strs envp name = (case name of
      None \<Rightarrow> Some None
    | Some name \<Rightarrow> do {
        c \<leftarrow> arr_get name 0;
        if c = NUL then Some None else env_get_loop strs envp name 0
      })"

definition apkenv_linker_env_unset ::
  "(u64 \<Rightarrow> char list) \<Rightarrow> char list option \<Rightarrow> env_block \<Rightarrow> env_block option" where
  "apkenv_linker_env_unset strs name envp = (case name of
      None \<Rightarrow> Some envp
    | Some name \<Rightarrow> do {
        c \<leftarrow> arr_get name 0;
        if c = NUL then Some envp
        else env_compact
               (\<lambda>p. map_option (\<lambda>m. m \<noteq> None) (apkenv_env_match (strs p) name)) envp 0 0
      })"

definition unsec_vars :: "string list" where
  "unsec_vars = [
    ''GCONV_PATH'', ''GETCONF_DIR'', ''HOSTALIASES'', ''LD_AUDIT'', ''LD_DEBUG'',
    ''LD_DEBUG_OUTPUT'', ''LD_DYNAMIC_WEAK'', ''LD_LIBRARY_PATH'', ''LD_ORIGIN_PATH'',
    ''LD_PRELOAD'', ''LD_PROFILE'', ''LD_SHOW_AUXV'', ''LD_USE_LOAD_BIAS'', ''LOCALDOMAIN'',
    ''LOCPATH'', ''MALLOC_TRACE'', ''MALLOC_CHECK_'', ''NIS_PATH'', ''NLSPATH'',
    ''RESOLV_HOST_CONF'', ''RES_OPTIONS'', ''TMPDIR'', ''TZDIR'', ''LD_AOUT_LIBRARY_PATH'',
    ''LD_AOUT_PRELOAD'']"

fun env_unset_all :: "(u64 \<Rightarrow> char list) \<Rightarrow> string list \<Rightarrow> env_block \<Rightarrow> env_block option" where
  "env_unset_all strs [] envp = Some envp"
| "env_unset_all strs (v # vs) envp = do {
     envp \<leftarrow> apkenv_linker_env_unset strs (Some (v @ [NUL])) envp;
     env_unset_all strs vs envp
   }"

definition apkenv_linker_env_secure :: "(u64 \<Rightarrow> char list) \<Rightarrow> env_block \<Rightarrow> env_block option" where
  "apkenv_linker_env_secure strs envp = env_unset_all strs unsec_vars envp"

section \<open>Well-formed blocks and their abstract view\<close>

text \<open>
  \<open>env_ptrs envp\<close> are the pointers before the NULL. A block is well formed when it has a NULL
  and each of its pointers leads to a NUL-terminated string.
\<close>

definition env_ptrs :: "env_block \<Rightarrow> u64 list" where
  "env_ptrs envp = takeWhile (\<lambda>p. p \<noteq> 0) envp"

definition wf_env :: "(u64 \<Rightarrow> char list) \<Rightarrow> env_block \<Rightarrow> bool" where
  "wf_env strs envp \<longleftrightarrow> 0 \<in> set envp \<and> (\<forall>p \<in> set (env_ptrs envp). NUL \<in> set (strs p))"

definition env_defs :: "(u64 \<Rightarrow> char list) \<Rightarrow> env_block \<Rightarrow> string list" where
  "env_defs strs envp = map (\<lambda>p. c_str (strs p)) (env_ptrs envp)"

text \<open>What the environment means: the value of the first definition of a name.\<close>

definition env_defines :: "string \<Rightarrow> string \<Rightarrow> bool" where
  "env_defines name d \<longleftrightarrow> prefix (name @ ''='') d"

fun env_lookup :: "string list \<Rightarrow> string \<Rightarrow> string option" where
  "env_lookup [] name = None"
| "env_lookup (d # ds) name =
     (if env_defines name d then Some (drop (length name + 1) d) else env_lookup ds name)"

section \<open>Scanning one definition\<close>

lemma c_str_split: "NUL \<in> set buf \<Longrightarrow> \<exists>r. buf = c_str buf @ NUL # r"
proof -
  assume "NUL \<in> set buf"
  then have "dropWhile (\<lambda>c. c \<noteq> NUL) buf \<noteq> []" by (simp add: dropWhile_eq_Nil_conv)
  then obtain x r where x: "dropWhile (\<lambda>c. c \<noteq> NUL) buf = x # r" by (meson neq_Nil_conv)
  then have "x = NUL" using hd_dropWhile [of "\<lambda>c. c \<noteq> NUL" buf] by simp
  with x have "takeWhile (\<lambda>c. c \<noteq> NUL) buf @ NUL # r = buf"
    using takeWhile_dropWhile_id [of "\<lambda>c. c \<noteq> NUL" buf] by simp
  then show ?thesis unfolding c_str_def by metis
qed

lemma valid_scan_step:
  assumes "c \<noteq> NUL"
  shows "valid_scan (p @ (c # s) @ NUL # r) (length p) fe =
    (let fe' = (if c = CHR ''='' \<and> fe < 0 then int (length p) else fe)
     in if length (p @ [c]) < MAX_ENV_LEN
        then valid_scan ((p @ [c]) @ s @ NUL # r) (length (p @ [c])) fe'
        else Some (length (p @ [c]), fe'))"
  by (subst valid_scan.simps) (simp add: assms Let_def)

lemma valid_scan_small:
  assumes "c_string s" and "length p + length s < MAX_ENV_LEN"
  shows "valid_scan (p @ s @ NUL # r) (length p) fe = Some (length p + length s,
     if fe < 0 \<and> CHR ''='' \<in> set s then int (length p + length (takeWhile (\<lambda>c. c \<noteq> CHR ''='') s))
     else fe)"
  using assms
proof (induction s arbitrary: p fe)
  case Nil
  then show ?case by (simp add: valid_scan.simps)
next
  case (Cons c s)
  then have "valid_scan ((p @ [c]) @ s @ NUL # r) (length (p @ [c])) fe' =
      Some (length (p @ [c]) + length s,
       if fe' < 0 \<and> CHR ''='' \<in> set s
       then int (length (p @ [c]) + length (takeWhile (\<lambda>c. c \<noteq> CHR ''='') s)) else fe')" for fe'
    by (intro Cons.IH) auto
  with Cons.prems show ?case by (subst valid_scan_step) (auto simp: Let_def)
qed

lemma valid_scan_large:
  assumes "c_string s" and "length p < MAX_ENV_LEN" and "MAX_ENV_LEN \<le> length p + length s"
  shows "\<exists>x. valid_scan (p @ s @ NUL # r) (length p) fe = Some (MAX_ENV_LEN, x)"
  using assms
proof (induction s arbitrary: p fe)
  case Nil
  then show ?case by simp
next
  case (Cons c s)
  show ?case
  proof (cases "length (p @ [c]) < MAX_ENV_LEN")
    case True
    with Cons.prems have
      "\<exists>x. valid_scan ((p @ [c]) @ s @ NUL # r) (length (p @ [c])) fe' = Some (MAX_ENV_LEN, x)" for fe'
      by (intro Cons.IH) auto
    with True Cons.prems show ?thesis by (subst valid_scan_step) (auto simp: Let_def)
  next
    case False
    with Cons.prems have "length (p @ [c]) = MAX_ENV_LEN" by simp
    with False Cons.prems show ?thesis by (subst valid_scan_step) (auto simp: Let_def)
  qed
qed

lemma takeWhile_neq_length_0: "length (takeWhile (\<lambda>c. c \<noteq> x) s) = 0 \<longleftrightarrow> s = [] \<or> hd s = x"
  by (cases s) auto

lemma is_valid_definition_eq:
  assumes "NUL \<in> set buf"
  shows "apkenv__is_valid_definition (Some buf) =
    Some (length (c_str buf) < MAX_ENV_LEN \<and> CHR ''='' \<in> set (c_str buf)
      \<and> hd (c_str buf) \<noteq> CHR ''='')"
proof -
  let ?s = "c_str buf"
  obtain r where buf: "buf = ?s @ NUL # r" using c_str_split [OF assms] by blast
  show ?thesis
  proof (cases "length ?s < MAX_ENV_LEN")
    case True
    then have "valid_scan (?s @ NUL # r) 0 (-1) = Some (length ?s,
        if CHR ''='' \<in> set ?s then int (length (takeWhile (\<lambda>c. c \<noteq> CHR ''='') ?s)) else -1)"
      using valid_scan_small [of ?s "[]" r "-1"] by simp
    with True buf takeWhile_neq_length_0 [of "CHR ''=''" ?s] show ?thesis
      by (auto simp: apkenv__is_valid_definition_def)
  next
    case False
    then obtain x where "valid_scan (?s @ NUL # r) 0 (-1) = Some (MAX_ENV_LEN, x)"
      using valid_scan_large [of ?s "[]" r "-1"] by (auto simp: MAX_ENV_LEN_def)
    with False buf show ?thesis by (simp add: apkenv__is_valid_definition_def)
  qed
qed

section \<open>Matching a name\<close>

lemma env_match_cnt_eq:
  assumes "c_string s" and "c_string n" and "length p = length q"
  shows "env_match_cnt (p @ s @ NUL # r) (q @ n @ NUL # r') (length q) =
    Some (length q + length (longest_common_prefix s n))"
  using assms
proof (induction s arbitrary: n p q)
  case Nil
  have "arr_get (p @ [] @ NUL # r) (length q) = Some NUL"
    using Nil.prems(3) arr_get_append_length [of p NUL r] by simp
  with Nil.prems show ?case by (cases n) (subst env_match_cnt.simps; auto)+
next
  case (Cons x xs)
  have get: "arr_get (p @ (x # xs) @ NUL # r) (length q) = Some x"
    using Cons.prems(3) arr_get_append_length [of p x "xs @ NUL # r"] by simp
  show ?case
  proof (cases n)
    case Nil
    with get Cons.prems show ?thesis by (subst env_match_cnt.simps) simp
  next
    case (Cons y ys)
    have "env_match_cnt ((p @ [x]) @ xs @ NUL # r) ((q @ [y]) @ ys @ NUL # r') (length (q @ [y]))
        = Some (length (q @ [y]) + length (longest_common_prefix xs ys))"
      using Cons.prems Cons by (intro Cons.IH) auto
    with get Cons Cons.prems show ?thesis by (subst env_match_cnt.simps) auto
  qed
qed

lemma longest_common_prefix_full:
  "length (longest_common_prefix s n) = length n \<longleftrightarrow> prefix n s"
  by (induction s n rule: longest_common_prefix.induct) auto

lemma env_match_eq:
  assumes "c_string s" and "c_string n"
  shows "apkenv_env_match (s @ NUL # r) (n @ NUL # r') =
    Some (if env_defines n s then Some (drop (length n + 1) s @ NUL # r) else None)"
proof -
  let ?l = "longest_common_prefix s n"
  have cnt: "env_match_cnt (s @ NUL # r) (n @ NUL # r') 0 = Some (length ?l)"
    using env_match_cnt_eq [of s n "[]" "[]" r r'] assms by simp
  have ls: "length ?l \<le> length s" and ln: "length ?l \<le> length n"
    by (simp_all add: prefix_length_le longest_common_prefix_prefix1 longest_common_prefix_prefix2)
  have gn: "arr_get (n @ NUL # r') (length ?l) = Some ((n @ [NUL]) ! length ?l)"
    and gs: "arr_get (s @ NUL # r) (length ?l) = Some ((s @ [NUL]) ! length ?l)"
    using ls ln by (auto simp: arr_get_def nth_append)
  have at_end: "(n @ [NUL]) ! length ?l = NUL \<longleftrightarrow> prefix n s"
    using ln c_string_nth [OF assms(2), of "length ?l"] longest_common_prefix_full [of s n]
    by (auto simp: nth_append)
  have len: "prefix n s \<Longrightarrow> length ?l = length n"
    by (simp add: longest_common_prefix_full)
  have eq_sign: "prefix n s \<Longrightarrow> (s @ [NUL]) ! length n = CHR ''='' \<longleftrightarrow> env_defines n s"
    by (auto simp: env_defines_def prefix_def nth_append neq_Nil_conv)
  show ?thesis
  proof (cases "env_defines n s")
    case True
    then have "prefix n s" by (auto simp: env_defines_def dest: append_prefixD)
    moreover from True obtain t where "s = n @ CHR ''='' # t"
      by (auto simp: env_defines_def prefix_def)
    ultimately show ?thesis
      using True cnt gn gs at_end len eq_sign by (simp add: apkenv_env_match_def)
  next
    case False
    then show ?thesis
      using cnt gn gs at_end len eq_sign by (auto simp: apkenv_env_match_def)
  qed
qed

section \<open>Editing the block in place\<close>

text \<open>
  The in-place loop with its two pointers computes a \<open>filter\<close>: with the entries already kept in
  \<open>ks\<close>, the stale ones between the pointers in \<open>mid\<close> and those still to be read in \<open>ps\<close>.
\<close>

lemma env_compact_eq:
  assumes "0 \<notin> set ps" and "\<And>p. p \<in> set ps \<Longrightarrow> drop_it p = Some (d p)"
  shows "env_compact drop_it (ks @ mid @ ps @ 0 # rest) (length ks + length mid) (length ks) =
    (let fs = filter (\<lambda>p. \<not> d p) ps
     in Some (ks @ fs @ 0 # drop (length fs + 1) (mid @ ps @ 0 # rest)))"
  using assms
proof (induction ps arbitrary: ks mid)
  case Nil
  have r: "arr_get (ks @ mid @ 0 # rest) (length ks + length mid) = Some 0"
    using arr_get_append_length [of "ks @ mid" 0 rest] by simp
  obtain x t where "mid @ 0 # rest = x # t" by (cases mid) auto
  moreover have "arr_set (ks @ x # t) (length ks) 0 = Some (ks @ 0 # t)"
    by (rule arr_set_append_length)
  ultimately show ?case using r by (subst env_compact.simps) (simp add: Let_def)
next
  case (Cons p ps)
  have r: "arr_get (ks @ mid @ (p # ps) @ 0 # rest) (length ks + length mid) = Some p"
    using arr_get_append_length [of "ks @ mid" p "ps @ 0 # rest"] by simp
  have p: "p \<noteq> 0" "drop_it p = Some (d p)" using Cons.prems by auto
  have IH: "env_compact drop_it (ks' @ mid' @ ps @ 0 # rest) (length ks' + length mid') (length ks') =
    (let fs = filter (\<lambda>p. \<not> d p) ps
     in Some (ks' @ fs @ 0 # drop (length fs + 1) (mid' @ ps @ 0 # rest)))" for ks' mid'
    using Cons.prems by (intro Cons.IH) auto
  show ?case
  proof (cases "d p")
    case True
    with r p IH [of ks "mid @ [p]"] show ?thesis
      by (subst env_compact.simps) (simp add: Let_def)
  next
    case False
    obtain x t where t: "mid @ [p] = x # t" by (cases mid) auto
    then have lt: "length mid = length t" by (metis length_append_singleton length_Cons nat.inject)
    have "arr_set (ks @ mid @ (p # ps) @ 0 # rest) (length ks) p = Some (ks @ p # t @ ps @ 0 # rest)"
      using arr_set_append_length [of ks x "t @ ps @ 0 # rest" p] t
      by (metis append.assoc append_Cons append_Nil)
    then have "env_compact drop_it (ks @ mid @ (p # ps) @ 0 # rest) (length ks + length mid) (length ks)
      = env_compact drop_it ((ks @ [p]) @ t @ ps @ 0 # rest) (length (ks @ [p]) + length t) (length (ks @ [p]))"
      using r p False lt by (subst env_compact.simps) simp
    also have "\<dots> = (let fs = filter (\<lambda>p. \<not> d p) ps
     in Some ((ks @ [p]) @ fs @ 0 # drop (length fs + 1) (t @ ps @ 0 # rest)))"
      by (rule IH)
    also have "t @ ps @ 0 # rest = tl (mid @ (p # ps) @ 0 # rest)"
      using t by (metis append.assoc append_Cons append_Nil list.sel(3))
    finally show ?thesis using False by (simp add: Let_def drop_Suc del: drop_append)
  qed
qed

lemma env_ptrs_append_NULL [simp]: "0 \<notin> set ps \<Longrightarrow> env_ptrs (ps @ 0 # rest) = ps"
  by (induction ps) (auto simp: env_ptrs_def)

lemma env_block_split: "0 \<in> set envp \<Longrightarrow> \<exists>rest. envp = env_ptrs envp @ 0 # rest"
proof (induction envp)
  case (Cons p envp)
  then show ?case by (cases "p = 0") (auto simp: env_ptrs_def)
qed simp

lemma env_ptrs_nonzero [simp]: "0 \<notin> set (env_ptrs envp)"
  by (auto simp: env_ptrs_def dest: set_takeWhileD)

text \<open>The same result seen from a well-formed block.\<close>

lemma env_compact_block:
  assumes "wf_env strs envp" and "\<And>p. p \<in> set (env_ptrs envp) \<Longrightarrow> drop_it p = Some (d p)"
  shows "\<exists>envp'. env_compact drop_it envp 0 0 = Some envp' \<and> wf_env strs envp'
    \<and> env_ptrs envp' = filter (\<lambda>p. \<not> d p) (env_ptrs envp) \<and> length envp' = length envp"
proof -
  let ?ps = "env_ptrs envp" and ?fs = "filter (\<lambda>p. \<not> d p) (env_ptrs envp)"
  obtain rest where e: "envp = ?ps @ 0 # rest"
    using assms(1) env_block_split by (auto simp: wf_env_def)
  have "env_compact drop_it (?ps @ 0 # rest) 0 0
      = Some (?fs @ 0 # drop (length ?fs + 1) (?ps @ 0 # rest))"
    using env_compact_eq [of ?ps drop_it d "[]" "[]" rest] assms(2) by (simp add: Let_def)
  then have "env_compact drop_it envp 0 0 = Some (?fs @ 0 # drop (length ?fs + 1) envp)"
    using e by metis
  moreover have "env_ptrs (?fs @ 0 # drop (length ?fs + 1) envp) = ?fs"
    by simp
  moreover have "length (?fs @ 0 # drop (length ?fs + 1) envp) = length envp"
  proof -
    have "length envp = length (?ps @ 0 # rest)" using e by (rule arg_cong)
    moreover have "length ?fs \<le> length ?ps + length rest"
      by (rule trans_le_add1) (rule length_filter_le)
    ultimately show ?thesis by simp
  qed
  ultimately show ?thesis using assms(1) by (auto simp: wf_env_def)
qed

lemma env_defs_filter:
  assumes "env_ptrs envp' = filter (\<lambda>p. P (c_str (strs p))) (env_ptrs envp)"
  shows "env_defs strs envp' = filter P (env_defs strs envp)"
  by (simp add: env_defs_def assms filter_map comp_def)

lemma env_match_block:
  assumes "wf_env strs envp" and "p \<in> set (env_ptrs envp)" and "c_string n"
  shows "\<exists>r. strs p = c_str (strs p) @ NUL # r \<and> apkenv_env_match (strs p) (n @ NUL # r') =
    Some (if env_defines n (c_str (strs p))
          then Some (drop (length n + 1) (c_str (strs p)) @ NUL # r) else None)"
proof -
  from assms obtain r where "strs p = c_str (strs p) @ NUL # r"
    using c_str_split by (auto simp: wf_env_def)
  then show ?thesis using env_match_eq [of "c_str (strs p)" n r r'] assms(3)
    by (metis c_string_c_str)
qed

lemma env_unset_eq:
  assumes "wf_env strs envp" and "c_string n" and "n \<noteq> []"
  shows "\<exists>envp'. apkenv_linker_env_unset strs (Some (n @ NUL # r)) envp = Some envp'
    \<and> wf_env strs envp' \<and> length envp' = length envp
    \<and> env_defs strs envp' = filter (\<lambda>d. \<not> env_defines n d) (env_defs strs envp)"
proof -
  let ?d = "\<lambda>p. env_defines n (c_str (strs p))"
  have "map_option (\<lambda>m. m \<noteq> None) (apkenv_env_match (strs p) (n @ NUL # r)) = Some (?d p)"
    if "p \<in> set (env_ptrs envp)" for p
    using env_match_block [OF assms(1) that assms(2), of r] by auto
  then obtain envp' where
    "env_compact (\<lambda>p. map_option (\<lambda>m. m \<noteq> None) (apkenv_env_match (strs p) (n @ NUL # r))) envp 0 0
      = Some envp'" "wf_env strs envp'" "env_ptrs envp' = filter (\<lambda>p. \<not> ?d p) (env_ptrs envp)"
    "length envp' = length envp"
    using env_compact_block [OF assms(1),
        of "\<lambda>p. map_option (\<lambda>m. m \<noteq> None) (apkenv_env_match (strs p) (n @ NUL # r))" ?d]
    by auto
  moreover from this have "env_defs strs envp' = filter (\<lambda>d. \<not> env_defines n d) (env_defs strs envp)"
    by (intro env_defs_filter) simp
  moreover obtain c where "arr_get (n @ NUL # r) 0 = Some c" "c \<noteq> NUL"
    using assms(2,3) by (cases n) (auto simp: arr_get_def)
  ultimately show ?thesis
    by (intro exI [of _ envp']) (simp add: apkenv_linker_env_unset_def)
qed

section \<open>Reading the block\<close>

lemma env_get_loop_eq:
  assumes "envp = qs @ ps @ 0 # rest" and "0 \<notin> set ps" and "c_string n"
    and "\<And>p. p \<in> set ps \<Longrightarrow> NUL \<in> set (strs p)"
  shows "\<exists>res. env_get_loop strs envp (n @ NUL # r') (length qs) = Some res
    \<and> map_option c_str res =
      (case env_lookup (map (\<lambda>p. c_str (strs p)) ps) n of
         None \<Rightarrow> None | Some v \<Rightarrow> if v = [] then None else Some v)"
  using assms
proof (induction ps arbitrary: qs)
  case Nil
  then show ?case by (subst env_get_loop.simps) simp
next
  case (Cons p ps)
  have get: "arr_get envp (length qs) = Some p" using Cons.prems(1) by simp
  from Cons.prems(4) [of p] obtain r where sp: "strs p = c_str (strs p) @ NUL # r"
    using c_str_split by auto
  have match: "apkenv_env_match (strs p) (n @ NUL # r') =
      Some (if env_defines n (c_str (strs p))
            then Some (drop (length n + 1) (c_str (strs p)) @ NUL # r) else None)"
    using env_match_eq [of "c_str (strs p)" n r r'] Cons.prems(3) sp by (metis c_string_c_str)
  show ?case
  proof (cases "env_defines n (c_str (strs p))")
    case True
    let ?v = "drop (length n + 1) (c_str (strs p))"
    have cv: "c_string ?v" by simp
    then have "arr_get (?v @ NUL # r) 0 = Some (if ?v = [] then NUL else hd ?v)"
      and "?v \<noteq> [] \<Longrightarrow> hd ?v \<noteq> NUL"
      by (cases ?v; simp add: arr_get_def del: c_string_drop)+
    moreover have "c_str (?v @ NUL # r) = ?v" using cv by (rule c_str_append_NUL)
    ultimately show ?thesis
      using True get match Cons.prems(2) by (subst env_get_loop.simps) auto
  next
    case False
    have "\<exists>res. env_get_loop strs envp (n @ NUL # r') (length (qs @ [p])) = Some res
      \<and> map_option c_str res =
      (case env_lookup (map (\<lambda>p. c_str (strs p)) ps) n of
         None \<Rightarrow> None | Some v \<Rightarrow> if v = [] then None else Some v)"
      using Cons.prems by (intro Cons.IH) auto
    with False get match Cons.prems(2) show ?thesis
      by (subst env_get_loop.simps) simp
  qed
qed

lemma env_get_eq:
  assumes "wf_env strs envp" and "c_string n" and "n \<noteq> []"
  shows "\<exists>res. apkenv_linker_env_get strs envp (Some (n @ NUL # r)) = Some res
    \<and> map_option c_str res =
      (case env_lookup (env_defs strs envp) n of
         None \<Rightarrow> None | Some v \<Rightarrow> if v = [] then None else Some v)"
proof -
  obtain rest where e: "envp = env_ptrs envp @ 0 # rest"
    using assms(1) env_block_split by (auto simp: wf_env_def)
  have "\<exists>c. arr_get (n @ NUL # r) 0 = Some c \<and> c \<noteq> NUL"
    using assms(2,3) by (cases n) (auto simp: arr_get_def)
  moreover have "\<exists>res. env_get_loop strs envp (n @ NUL # r) (length ([] :: u64 list)) = Some res
    \<and> map_option c_str res =
      (case env_lookup (map (\<lambda>p. c_str (strs p)) (env_ptrs envp)) n of
         None \<Rightarrow> None | Some v \<Rightarrow> if v = [] then None else Some v)"
    using assms(1,2) e by (intro env_get_loop_eq) (auto simp: wf_env_def)
  ultimately show ?thesis by (auto simp: apkenv_linker_env_get_def env_defs_def)
qed

section \<open>The contract of an environment\<close>

text \<open>
  What the linker relies on: removing a variable removes all its definitions and disturbs no
  other variable. \<open>secure_names\<close> then holds of any environment that keeps the contract.
\<close>

locale env_store =
  fixes get :: "'e \<Rightarrow> string \<Rightarrow> string option"
    and unset :: "string \<Rightarrow> 'e \<Rightarrow> 'e option"
    and invar :: "'e \<Rightarrow> bool"
    and name_ok :: "string \<Rightarrow> bool"
  assumes unset_returns: "invar e \<Longrightarrow> name_ok n \<Longrightarrow> \<exists>e'. unset n e = Some e' \<and> invar e'"
    and get_unset_same: "invar e \<Longrightarrow> name_ok n \<Longrightarrow> unset n e = Some e' \<Longrightarrow> get e' n = None"
    and get_unset_other: "invar e \<Longrightarrow> name_ok n \<Longrightarrow> name_ok k \<Longrightarrow> k \<noteq> n \<Longrightarrow>
      unset n e = Some e' \<Longrightarrow> get e' k = get e k"
begin

fun unset_all :: "string list \<Rightarrow> 'e \<Rightarrow> 'e option" where
  "unset_all [] e = Some e"
| "unset_all (v # vs) e = do { e \<leftarrow> unset v e; unset_all vs e }"

lemma unset_all_spec:
  assumes "invar e" and "\<forall>v \<in> set vs. name_ok v"
  shows "\<exists>e'. unset_all vs e = Some e' \<and> invar e'
    \<and> (\<forall>k. name_ok k \<longrightarrow> get e' k = (if k \<in> set vs then None else get e k))"
  using assms
proof (induction vs arbitrary: e)
  case Nil
  then show ?case by simp
next
  case (Cons v vs)
  then obtain e1 where e1: "unset v e = Some e1" "invar e1"
    using unset_returns by (meson list.set_intros(1))
  with Cons obtain e' where e': "unset_all vs e1 = Some e'" "invar e'"
    "\<forall>k. name_ok k \<longrightarrow> get e' k = (if k \<in> set vs then None else get e1 k)"
    by (metis list.set_intros(2))
  have "get e1 k = (if k = v then None else get e k)" if "name_ok k" for k
    using that e1(1) Cons.prems get_unset_same [of e v e1] get_unset_other [of e v k e1] by auto
  with e1 e' show ?case by auto
qed

end

definition env_name :: "string \<Rightarrow> bool" where
  "env_name n \<longleftrightarrow> c_string n \<and> n \<noteq> [] \<and> CHR ''='' \<notin> set n"

lemma env_lookup_filter_same: "env_lookup (filter (\<lambda>d. \<not> env_defines n d) ds) n = None"
  by (induction ds) auto

lemma env_defines_unique:
  assumes "env_defines n d" and "env_defines k d" and "CHR ''='' \<notin> set n" and "CHR ''='' \<notin> set k"
  shows "n = k"
proof -
  have "takeWhile (\<lambda>c. c \<noteq> CHR ''='') (x @ CHR ''='' # t) = x" if "CHR ''='' \<notin> set x" for x t
    using that by (induction x) auto
  with assms show ?thesis by (auto simp: env_defines_def prefix_def) metis
qed

lemma env_lookup_filter_other:
  assumes "k \<noteq> n" and "CHR ''='' \<notin> set n" and "CHR ''='' \<notin> set k"
  shows "env_lookup (filter (\<lambda>d. \<not> env_defines n d) ds) k = env_lookup ds k"
  using assms env_defines_unique by (induction ds) auto

interpretation env: env_store
  "\<lambda>envp n. env_lookup (env_defs strs envp) n"
  "\<lambda>n envp. apkenv_linker_env_unset strs (Some (n @ [NUL])) envp"
  "wf_env strs" env_name
  for strs
proof unfold_locales
  fix e n assume "wf_env strs e" "env_name n"
  then show "\<exists>e'. apkenv_linker_env_unset strs (Some (n @ [NUL])) e = Some e' \<and> wf_env strs e'"
    using env_unset_eq [of strs e n "[]"] by (auto simp: env_name_def)
next
  fix e n e'
  assume "wf_env strs e" "env_name n" "apkenv_linker_env_unset strs (Some (n @ [NUL])) e = Some e'"
  then show "env_lookup (env_defs strs e') n = None"
    using env_unset_eq [of strs e n "[]"] env_lookup_filter_same by (auto simp: env_name_def)
next
  fix e n k e'
  assume "wf_env strs e" "env_name n" "env_name k" "k \<noteq> n"
    "apkenv_linker_env_unset strs (Some (n @ [NUL])) e = Some e'"
  then show "env_lookup (env_defs strs e') k = env_lookup (env_defs strs e) k"
    using env_unset_eq [of strs e n "[]"] env_lookup_filter_other by (auto simp: env_name_def)
qed

lemma env_unset_all_eq: "env_unset_all strs vs e = env.unset_all strs vs e"
  by (induction vs arbitrary: e) (auto intro: Option.bind_cong)

lemma unsec_vars_names: "\<forall>v \<in> set unsec_vars. env_name v"
  by (simp add: unsec_vars_def env_name_def)

lemma env_get_of_lookup_eq:
  assumes "wf_env strs e" and "wf_env strs e'" and "env_name k"
    and "env_lookup (env_defs strs e') k = env_lookup (env_defs strs e) k"
  shows "map_option (map_option c_str) (apkenv_linker_env_get strs e' (Some (k @ [NUL])))
       = map_option (map_option c_str) (apkenv_linker_env_get strs e (Some (k @ [NUL])))"
  using assms env_get_eq [of strs e k "[]"] env_get_eq [of strs e' k "[]"]
  by (auto simp: env_name_def)

section \<open>Properties\<close>

text \<open>
  C17. Securing the environment of a set-user-id program: the code stays inside the block and
  returns, afterwards \<open>apkenv_linker_env_get\<close> finds none of the 25 unsafe variables, and every
  other variable reads as before.
\<close>

theorem env_secure_correct:
  assumes "wf_env strs envp"
  shows "\<exists>envp'. apkenv_linker_env_secure strs envp = Some envp' \<and> wf_env strs envp'
    \<and> (\<forall>v \<in> set unsec_vars. apkenv_linker_env_get strs envp' (Some (v @ [NUL])) = Some None)
    \<and> (\<forall>k. env_name k \<and> k \<notin> set unsec_vars \<longrightarrow>
         map_option (map_option c_str) (apkenv_linker_env_get strs envp' (Some (k @ [NUL])))
       = map_option (map_option c_str) (apkenv_linker_env_get strs envp (Some (k @ [NUL]))))"
proof -
  obtain e' where e': "apkenv_linker_env_secure strs envp = Some e'" "wf_env strs e'"
    and get: "\<And>k. env_name k \<Longrightarrow> env_lookup (env_defs strs e') k =
      (if k \<in> set unsec_vars then None else env_lookup (env_defs strs envp) k)"
    using env.unset_all_spec [OF assms unsec_vars_names]
    by (auto simp: apkenv_linker_env_secure_def env_unset_all_eq)
  have "apkenv_linker_env_get strs e' (Some (v @ [NUL])) = Some None" if "v \<in> set unsec_vars" for v
    using that unsec_vars_names get [of v] env_get_eq [OF e'(2), of v "[]"] by (auto simp: env_name_def)
  moreover have "map_option (map_option c_str) (apkenv_linker_env_get strs e' (Some (k @ [NUL])))
     = map_option (map_option c_str) (apkenv_linker_env_get strs envp (Some (k @ [NUL])))"
    if "env_name k" "k \<notin> set unsec_vars" for k
    using that get [of k] by (intro env_get_of_lookup_eq assms e'(2)) auto
  ultimately show ?thesis using e' by blast
qed

theorem env_secure_correct_witness:
  "\<exists>envp'. apkenv_linker_env_secure
      (\<lambda>p. if p = 1 then ''LD_PRELOAD=x'' @ [NUL] else ''HOME=/r'' @ [NUL]) [1, 2, 0] = Some envp'"
proof -
  let ?strs = "\<lambda>p :: u64. if p = 1 then ''LD_PRELOAD=x'' @ [NUL] else ''HOME=/r'' @ [NUL]"
  have "wf_env ?strs [1, 2, 0]" by (simp add: wf_env_def env_ptrs_def)
  from env_secure_correct [OF this] show ?thesis by blast
qed

lemma env_skip_eq:
  assumes "0 \<notin> set p" shows "env_skip (q @ p @ 0 # r) (length q) = Some (length q + length p)"
  using assms
proof (induction p arbitrary: q)
  case Nil
  then show ?case by (subst env_skip.simps) simp
next
  case (Cons x p)
  then have "env_skip ((q @ [x]) @ p @ 0 # r) (length (q @ [x])) = Some (length (q @ [x]) + length p)"
    by (intro Cons.IH) simp
  with Cons.prems show ?case by (subst env_skip.simps) simp
qed

lemma length_unsigned_view: "length (unsigned_view ps) = 2 * length ps"
  by (induction ps) (simp_all add: unsigned_view_def)

text \<open>
  C18. \<open>apkenv_linker_env_init\<close> keeps exactly the valid definitions, in order: those shorter
  than \<open>MAX_ENV_LEN\<close> with an equal sign that is not the first character. The position it returns
  is one half-word short of the auxiliary vector when no half of a pointer is zero: the block of
  \<open>n\<close> pointers and its NULL take \<open>2 * (n + 1)\<close> halves, and the result is \<open>2 * n + 1\<close>.
\<close>

theorem env_init_correct:
  assumes "wf_env strs envp"
    and "\<forall>p \<in> set (env_ptrs envp). (ucast p :: u32) \<noteq> 0 \<and> (ucast (drop_bit 32 p) :: u32) \<noteq> 0"
  shows "\<exists>envp'. apkenv_linker_env_init strs envp = Some (envp', 2 * length (env_ptrs envp) + 1)
    \<and> wf_env strs envp'
    \<and> env_defs strs envp' = filter (\<lambda>d. length d < MAX_ENV_LEN \<and> CHR ''='' \<in> set d \<and> hd d \<noteq> CHR ''='')
        (env_defs strs envp)"
proof -
  let ?ok = "\<lambda>d. length d < MAX_ENV_LEN \<and> CHR ''='' \<in> set d \<and> hd d \<noteq> CHR ''=''"
  let ?drop = "\<lambda>p. map_option Not (apkenv__is_valid_definition (Some (strs p)))"
  have "?drop p = Some (\<not> ?ok (c_str (strs p)))" if "p \<in> set (env_ptrs envp)" for p
    using that assms(1) by (simp add: wf_env_def is_valid_definition_eq)
  then obtain envp' where envp': "env_compact ?drop envp 0 0 = Some envp'" "wf_env strs envp'"
    "env_ptrs envp' = filter (\<lambda>p. \<not> \<not> ?ok (c_str (strs p))) (env_ptrs envp)"
    using env_compact_block [OF assms(1), of ?drop "\<lambda>p. \<not> ?ok (c_str (strs p))"] by blast
  obtain rest where e: "envp = env_ptrs envp @ 0 # rest"
    using assms(1) env_block_split by (auto simp: wf_env_def)
  let ?v = "unsigned_view (env_ptrs envp)"
  have "unsigned_view (env_ptrs envp @ 0 # rest) = [] @ ?v @ 0 # 0 # unsigned_view rest"
    by (simp add: unsigned_view_def)
  moreover have "0 \<notin> set ?v" using assms(2) by (auto simp: unsigned_view_def)
  ultimately have "env_skip (unsigned_view (env_ptrs envp @ 0 # rest)) 0 = Some (length ?v)"
    using env_skip_eq [of ?v "[]"] by simp
  then have "env_skip (unsigned_view envp) 0 = Some (2 * length (env_ptrs envp))"
    using e length_unsigned_view by metis
  moreover have "env_defs strs envp' = filter ?ok (env_defs strs envp)"
    using envp'(3) by (intro env_defs_filter) (simp only: not_not)
  ultimately show ?thesis using envp'(1,2) by (simp add: apkenv_linker_env_init_def)
qed

theorem env_init_correct_witness:
  "\<exists>envp'. apkenv_linker_env_init
      (\<lambda>p. if p = 0x700000001 then ''A=b'' @ [NUL] else ''=x'' @ [NUL]) [0x700000001, 0x700000002, 0]
    = Some (envp', 5)"
proof -
  let ?strs = "\<lambda>p :: u64. if p = 0x700000001 then ''A=b'' @ [NUL] else ''=x'' @ [NUL]"
  let ?e = "[0x700000001, 0x700000002, 0] :: u64 list"
  have "wf_env ?strs ?e" by (simp add: wf_env_def env_ptrs_def)
  moreover have "\<forall>p \<in> set (env_ptrs ?e). (ucast p :: u32) \<noteq> 0 \<and> (ucast (drop_bit 32 p) :: u32) \<noteq> 0"
    by (simp add: env_ptrs_def)
  ultimately show ?thesis
    using env_init_correct [of ?strs ?e] by (auto simp: env_ptrs_def)
qed

end
