(* ===== verification/C_Memory.thy ===== *)
theory C_Memory
  imports Bionic_Prelude
begin

text \<open>
  The address space of the process: a byte for every 64-bit address and a protection for every
  mapped page. A load or a store at an address whose page is not mapped, or whose protection does
  not allow the access, is a fault, so it does not return. The page size is the 4096 that
  \<open>linker/linker.h\<close> fixes. Multi-byte values are little endian, as on x86_64 and aarch64.
\<close>

record memory =
  byte_at :: "u64 \<Rightarrow> u8"
  prot_at :: "u64 \<Rightarrow> u32 option"

definition PAGE_SIZE :: u64 where "PAGE_SIZE = 4096"
definition PAGE_MASK :: u64 where "PAGE_MASK = 4095"

definition PROT_READ :: u32 where "PROT_READ = 1"
definition PROT_WRITE :: u32 where "PROT_WRITE = 2"
definition PROT_EXEC :: u32 where "PROT_EXEC = 4"

definition page_of :: "u64 \<Rightarrow> u64" where
  "page_of a = a AND NOT PAGE_MASK"

definition can :: "u32 \<Rightarrow> memory \<Rightarrow> u64 \<Rightarrow> bool" where
  "can right m a = (case prot_at m (page_of a) of None \<Rightarrow> False | Some p \<Rightarrow> p AND right \<noteq> 0)"

section \<open>Loads and stores\<close>

definition load8 :: "memory \<Rightarrow> u64 \<Rightarrow> u8 option" where
  "load8 m a = (if can PROT_READ m a then Some (byte_at m a) else None)"

definition store8 :: "memory \<Rightarrow> u64 \<Rightarrow> u8 \<Rightarrow> memory option" where
  "store8 m a v = (if can PROT_WRITE m a then Some (m\<lparr>byte_at := (byte_at m)(a := v)\<rparr>) else None)"

fun load_bytes :: "memory \<Rightarrow> u64 \<Rightarrow> nat \<Rightarrow> u8 list option" where
  "load_bytes m a 0 = Some []"
| "load_bytes m a (Suc n) = do { b \<leftarrow> load8 m a; bs \<leftarrow> load_bytes m (a + 1) n; Some (b # bs) }"

fun store_bytes :: "memory \<Rightarrow> u64 \<Rightarrow> u8 list \<Rightarrow> memory option" where
  "store_bytes m a [] = Some m"
| "store_bytes m a (b # bs) = do { m \<leftarrow> store8 m a b; store_bytes m (a + 1) bs }"

fun le_word :: "u8 list \<Rightarrow> 'a::len word" where
  "le_word [] = 0"
| "le_word (b # bs) = ucast b OR push_bit 8 (le_word bs)"

fun to_le :: "nat \<Rightarrow> 'a::len word \<Rightarrow> u8 list" where
  "to_le 0 w = []"
| "to_le (Suc n) w = ucast w # to_le n (drop_bit 8 w)"

definition load16 :: "memory \<Rightarrow> u64 \<Rightarrow> u16 option" where
  "load16 m a = map_option le_word (load_bytes m a 2)"
definition load32 :: "memory \<Rightarrow> u64 \<Rightarrow> u32 option" where
  "load32 m a = map_option le_word (load_bytes m a 4)"
definition load64 :: "memory \<Rightarrow> u64 \<Rightarrow> u64 option" where
  "load64 m a = map_option le_word (load_bytes m a 8)"
definition store64 :: "memory \<Rightarrow> u64 \<Rightarrow> u64 \<Rightarrow> memory option" where
  "store64 m a v = store_bytes m a (to_le 8 v)"

text \<open>A pointer to a C string compared with a string that the caller holds: \<^verbatim>\<open>!strcmp(a, s)\<close>.\<close>

fun mem_streq :: "memory \<Rightarrow> u64 \<Rightarrow> string \<Rightarrow> bool option" where
  "mem_streq m a [] = do { b \<leftarrow> load8 m a; Some (b = 0) }"
| "mem_streq m a (c # s) =
     do { b \<leftarrow> load8 m a; if b = of_char c then mem_streq m (a + 1) s else Some False }"

text \<open>The C string at an address.\<close>

partial_function (option) mem_str :: "memory \<Rightarrow> u64 \<Rightarrow> string option" where
  "mem_str m a = do {
     b \<leftarrow> load8 m a;
     if b = 0 then Some [] else do { s \<leftarrow> mem_str m (a + 1); Some (char_of (unat b) # s) }
   }"

section \<open>Mapping and protecting pages\<close>

text \<open>\<open>pages a n\<close>: the base addresses of the pages that \<open>n\<close> bytes from page \<open>a\<close> on touch.\<close>

definition pages :: "u64 \<Rightarrow> nat \<Rightarrow> u64 list" where
  "pages a n = map (\<lambda>i. a + of_nat (4096 * i)) [0..<(n + 4095) div 4096]"

text \<open>
  \<open>mprotect\<close> as the kernel does it: an address that is not on a page boundary is refused
  (EINVAL); the pages are protected in order up to the first one that is not mapped (ENOMEM).
  \<open>munmap\<close> removes the pages. \<open>mmap_at\<close> is the effect of a successful \<open>mmap\<close> with its bytes.
\<close>

definition set_prot :: "u64 list \<Rightarrow> u32 option \<Rightarrow> memory \<Rightarrow> memory" where
  "set_prot ps p m = m\<lparr>prot_at := (\<lambda>q. if q \<in> set ps then p else prot_at m q)\<rparr>"

definition mprotect :: "memory \<Rightarrow> u64 \<Rightarrow> u64 \<Rightarrow> u32 \<Rightarrow> memory \<times> int" where
  "mprotect m a len prot =
     (if a AND PAGE_MASK \<noteq> 0 then (m, -1)
      else let ps = pages a (unat len); ok = takeWhile (\<lambda>q. prot_at m q \<noteq> None) ps
           in (set_prot ok (Some prot) m, if length ok = length ps then 0 else -1))"

definition munmap :: "memory \<Rightarrow> u64 \<Rightarrow> u64 \<Rightarrow> memory" where
  "munmap m a len = set_prot (pages (page_of a) (unat len)) None m"

definition mmap_at :: "memory \<Rightarrow> u64 \<Rightarrow> u64 \<Rightarrow> u32 \<Rightarrow> (nat \<Rightarrow> u8) \<Rightarrow> memory" where
  "mmap_at m a len prot content =
     (let ps = pages a (unat len)
      in set_prot ps (Some prot)
           (m\<lparr>byte_at := (\<lambda>x. if page_of x \<in> set ps then content (unat (x - a)) else byte_at m x)\<rparr>))"

section \<open>Laws\<close>

lemma page_of_idem [simp]: "page_of (page_of a) = page_of a"
  by (simp add: page_of_def and.assoc)

lemma load8_Some_iff: "load8 m a = Some v \<longleftrightarrow> can PROT_READ m a \<and> v = byte_at m a"
  by (auto simp: load8_def)

lemma store8_Some_iff:
  "store8 m a v = Some m' \<longleftrightarrow> can PROT_WRITE m a \<and> m' = m\<lparr>byte_at := (byte_at m)(a := v)\<rparr>"
  by (auto simp: store8_def)

lemma can_byte_at [simp]: "can r (m\<lparr>byte_at := f\<rparr>) a = can r m a"
  by (simp add: can_def)

lemma bit_le_word:
  "bit (le_word bs :: 'a::len word) i \<longleftrightarrow>
     i < LENGTH('a) \<and> i div 8 < length bs \<and> bit (bs ! (i div 8)) (i mod 8)"
proof (induction bs arbitrary: i)
  case Nil
  then show ?case by simp
next
  case (Cons b bs)
  show ?case
  proof (cases "i < 8")
    case True
    then show ?thesis by (auto simp: bit_simps)
  next
    case False
    then have i: "i div 8 = Suc ((i - 8) div 8)" "i mod 8 = (i - 8) mod 8"
      by (auto simp: le_div_geq le_mod_geq)
    have "\<not> bit b i" using False by (auto dest: bit_imp_le_length)
    with False Cons [of "i - 8"] i show ?thesis by (auto simp: bit_simps)
  qed
qed

lemma length_to_le [simp]: "length (to_le n w) = n"
  by (induction n arbitrary: w) simp_all

lemma nth_to_le: "k < n \<Longrightarrow> to_le n w ! k = ucast (drop_bit (8 * k) w)"
proof (induction n arbitrary: w k)
  case (Suc n)
  then show ?case by (cases k) (simp_all add: drop_bit_drop_bit add.commute)
qed simp

text \<open>Decoding what was encoded.\<close>

lemma le_word_to_le:
  assumes "LENGTH('a) \<le> 8 * n"
  shows "le_word (to_le n w) = (w :: 'a::len word)"
proof (rule bit_word_eqI)
  fix i assume i: "i < LENGTH('a)"
  then have "i div 8 < n" using assms by (simp add: less_mult_imp_div_less mult.commute)
  moreover have "8 * (i div 8) + i mod 8 = i" by simp
  ultimately show "bit (le_word (to_le n w) :: 'a word) i \<longleftrightarrow> bit w i"
    using i by (simp add: bit_le_word nth_to_le bit_simps)
qed

text \<open>What a sequence of byte stores changes, and that it needs the right to write.\<close>

definition in_bytes :: "u64 \<Rightarrow> nat \<Rightarrow> u64 \<Rightarrow> bool" where
  "in_bytes a n x \<longleftrightarrow> unat (x - a) < n"

lemma unat_diff_next:
  assumes "x \<noteq> (a :: u64)" shows "unat (x - a) = Suc (unat (x - (a + 1)))"
proof -
  have "x - a \<noteq> 0" using assms by simp
  then have "unat (x - a - 1) = unat (x - a) - 1" and "0 < unat (x - a)"
    by (simp_all add: unat_minus_one unat_gt_0)
  then show ?thesis by (simp add: diff_diff_eq)
qed

lemma in_bytes_Suc:
  assumes "Suc n \<le> 2 ^ 64"
  shows "in_bytes a (Suc n) x \<longleftrightarrow> x = a \<or> in_bytes (a + 1) n x"
proof (cases "x = a")
  case True
  then show ?thesis by (simp add: in_bytes_def)
next
  case False
  with unat_diff_next [of x a] show ?thesis by (simp add: in_bytes_def)
qed

lemma not_in_bytes_next:
  assumes "n < 2 ^ 64" shows "\<not> in_bytes (a + 1) n a"
proof -
  have "a - (a + 1) = - 1" by simp
  then have "unat (a - (a + 1)) = 2 ^ 64 - 1"
    by (simp add: unsigned_minus_1_eq_mask mask_eq_exp_minus_1)
  with assms show ?thesis by (simp add: in_bytes_def)
qed

lemma store_bytes_eq:
  assumes "length bs < 2 ^ 64" and "\<And>x. in_bytes a (length bs) x \<Longrightarrow> can PROT_WRITE m x"
  shows "store_bytes m a bs = Some (m\<lparr>byte_at := (\<lambda>x. if in_bytes a (length bs) x
    then bs ! unat (x - a) else byte_at m x)\<rparr>)"
  using assms
proof (induction bs arbitrary: a m)
  case Nil
  then show ?case by (simp add: in_bytes_def)
next
  case (Cons b bs)
  let ?m = "m\<lparr>byte_at := (byte_at m)(a := b)\<rparr>"
  have suc: "in_bytes a (Suc (length bs)) x \<longleftrightarrow> x = a \<or> in_bytes (a + 1) (length bs) x" for x
    using Cons.prems(1) by (intro in_bytes_Suc) simp
  have "store8 m a b = Some ?m"
    using Cons.prems(2) [of a] by (simp add: store8_def in_bytes_def)
  moreover have "store_bytes ?m (a + 1) bs = Some (?m\<lparr>byte_at := (\<lambda>x. if in_bytes (a + 1) (length bs) x
    then bs ! unat (x - (a + 1)) else byte_at ?m x)\<rparr>)"
    using Cons.prems suc by (intro Cons.IH) auto
  moreover have "(b # bs) ! unat (x - a) = (if x = a then b else bs ! unat (x - (a + 1)))" for x
  proof (cases "x = a")
    case False
    with unat_diff_next [of x a] show ?thesis by simp
  qed simp
  moreover have "\<not> in_bytes (a + 1) (length bs) a"
    using Cons.prems(1) by (intro not_in_bytes_next) simp
  ultimately show ?case using suc by (auto simp: fun_eq_iff)
qed

lemma load_bytes_eq:
  assumes "n < 2 ^ 64" and "\<And>x. in_bytes a n x \<Longrightarrow> can PROT_READ m x"
  shows "load_bytes m a n = Some (map (\<lambda>i. byte_at m (a + of_nat i)) [0..<n])"
  using assms
proof (induction n arbitrary: a)
  case 0
  then show ?case by simp
next
  case (Suc n)
  have suc: "in_bytes a (Suc n) x \<longleftrightarrow> x = a \<or> in_bytes (a + 1) n x" for x
    using Suc.prems(1) by (intro in_bytes_Suc) simp
  have "load_bytes m (a + 1) n = Some (map (\<lambda>i. byte_at m (a + 1 + of_nat i)) [0..<n])"
    using Suc.prems suc by (intro Suc.IH) auto
  moreover have "load8 m a = Some (byte_at m a)" using Suc.prems(2) suc by (simp add: load8_def)
  moreover have "map (\<lambda>i. byte_at m (a + of_nat i)) [0..<Suc n]
      = byte_at m a # map (\<lambda>i. byte_at m (a + 1 + of_nat i)) [0..<n]"
    by (simp add: upt_conv_Cons map_Suc_upt [symmetric] comp_def add.assoc del: upt_Suc)
  ultimately show ?case by simp
qed

text \<open>Reading back a 64-bit store, and reading past it.\<close>

definition word_ok :: "u32 \<Rightarrow> memory \<Rightarrow> u64 \<Rightarrow> bool" where
  "word_ok right m a \<longleftrightarrow> (\<forall>i < 8. can right m (a + of_nat i))"

lemma word_ok_list: "word_ok right m a \<longleftrightarrow> list_all (\<lambda>i. can right m (a + i)) [0, 1, 2, 3, 4, 5, 6, 7]"
proof -
  have "word_ok right m a \<longleftrightarrow> list_all (\<lambda>i. can right m (a + of_nat i)) [0..<8]"
    by (auto simp: word_ok_def list_all_iff)
  also have "[0..<8] = [0, 1, 2, 3, 4, 5, 6, 7 :: nat]" by (simp add: upt_rec)
  finally show ?thesis by simp
qed

lemma in_bytes_iff_offset: "n < 2 ^ 64 \<Longrightarrow> in_bytes a n x \<longleftrightarrow> (\<exists>i < n. x = a + of_nat i)"
proof
  assume "in_bytes a n x"
  then show "\<exists>i < n. x = a + of_nat i"
    by (intro exI [of _ "unat (x - a)"]) (simp add: in_bytes_def)
next
  assume n: "n < 2 ^ 64" and "\<exists>i < n. x = a + of_nat i"
  then obtain i where "i < n" "x = a + of_nat i" by blast
  with n show "in_bytes a n x" by (simp add: in_bytes_def unat_of_nat take_bit_nat_eq_self)
qed

lemma word_ok_in_bytes: "word_ok right m a \<Longrightarrow> in_bytes a 8 x \<Longrightarrow> can right m x"
  using in_bytes_iff_offset [of 8 a x] by (auto simp: word_ok_def)

definition put64 :: "u64 \<Rightarrow> u64 \<Rightarrow> memory \<Rightarrow> memory" where
  "put64 a v m = m\<lparr>byte_at := (\<lambda>x. if in_bytes a 8 x then to_le 8 v ! unat (x - a) else byte_at m x)\<rparr>"

lemma store64_eq: "word_ok PROT_WRITE m a \<Longrightarrow> store64 m a v = Some (put64 a v m)"
  using store_bytes_eq [of "to_le 8 v" a m] word_ok_in_bytes [of PROT_WRITE m a]
  by (simp add: store64_def put64_def)

lemma can_put64 [simp]: "can r (put64 a v m) x = can r m x"
  by (simp add: put64_def)

lemma word_ok_put64 [simp]: "word_ok r (put64 a v m) x = word_ok r m x"
  by (simp add: word_ok_def)

lemma prot_at_put64 [simp]: "prot_at (put64 a v m) = prot_at m"
  by (simp add: put64_def)

lemma load64_eq:
  "word_ok PROT_READ m a \<Longrightarrow> load64 m a = Some (le_word (map (\<lambda>i. byte_at m (a + of_nat i)) [0..<8]))"
  using load_bytes_eq [of 8 a m] word_ok_in_bytes [of PROT_READ m a] by (simp add: load64_def)

lemma load64_put64_same:
  assumes "word_ok PROT_READ m a" shows "load64 (put64 a v m) a = Some v"
proof -
  have "map (\<lambda>i. byte_at (put64 a v m) (a + of_nat i)) [0..<8] = to_le 8 v"
    by (rule nth_equalityI)
      (simp_all add: put64_def in_bytes_def unat_of_nat take_bit_nat_eq_self del: upt.simps)
  moreover have "le_word (to_le 8 v) = v" by (rule le_word_to_le) simp
  ultimately show ?thesis
    using load64_eq [of "put64 a v m" a] assms by (simp only: word_ok_put64)
qed

definition disjoint_words :: "u64 \<Rightarrow> u64 \<Rightarrow> bool" where
  "disjoint_words a b \<longleftrightarrow> 8 \<le> unat (b - a) \<and> 8 \<le> unat (a - b)"

lemma disjoint_words_word: "disjoint_words a b \<longleftrightarrow> 8 \<le> b - a \<and> 8 \<le> a - b"
  by (simp add: disjoint_words_def word_le_nat_alt)

lemma disjoint_words_sym: "disjoint_words a b = disjoint_words b a"
  by (auto simp: disjoint_words_def)

lemma disjoint_words_bytes:
  assumes "disjoint_words a b" and "in_bytes b 8 x" shows "\<not> in_bytes a 8 x"
proof
  assume "in_bytes a 8 x"
  with assms(2) have xa: "unat (x - a) < 8" and xb: "unat (x - b) < 8" by (simp_all add: in_bytes_def)
  show False
  proof (cases "unat (x - b) \<le> unat (x - a)")
    case True
    then have "unat ((x - a) - (x - b)) = unat (x - a) - unat (x - b)"
      by (intro unat_sub) (simp add: word_le_nat_alt)
    moreover have "(x - a) - (x - b) = b - a" by simp
    ultimately show False using xa assms(1) by (auto simp: disjoint_words_def)
  next
    case False
    then have "unat ((x - b) - (x - a)) = unat (x - b) - unat (x - a)"
      by (intro unat_sub) (simp add: word_le_nat_alt)
    moreover have "(x - b) - (x - a) = a - b" by simp
    ultimately show False using xb assms(1) by (auto simp: disjoint_words_def)
  qed
qed

lemma load_bytes_cong:
  assumes "n < 2 ^ 64" and "prot_at m' = prot_at m"
    and "\<And>x. in_bytes a n x \<Longrightarrow> byte_at m' x = byte_at m x"
  shows "load_bytes m' a n = load_bytes m a n"
  using assms
proof (induction n arbitrary: a)
  case (Suc n)
  have suc: "in_bytes a (Suc n) x \<longleftrightarrow> x = a \<or> in_bytes (a + 1) n x" for x
    using Suc.prems(1) by (intro in_bytes_Suc) simp
  then have "load_bytes m' (a + 1) n = load_bytes m (a + 1) n"
    using Suc.prems by (intro Suc.IH) auto
  moreover have "load8 m' a = load8 m a"
    using Suc.prems(2,3) suc by (simp add: load8_def can_def)
  ultimately show ?case by simp
qed simp

lemma load64_put64_other:
  assumes "disjoint_words a b" shows "load64 (put64 a v m) b = load64 m b"
  using load_bytes_cong [of 8 "put64 a v m" m b] disjoint_words_bytes [OF assms]
  by (auto simp: load64_def put64_def)

section \<open>Strings in memory\<close>

lemma of_char_char_of_unat [simp]: "of_char (char_of (unat (b :: u8))) = b"
proof -
  have "(of_char (char_of (unat b)) :: nat) = unat b mod 256" by (rule of_char_of)
  also have "\<dots> = unat b" using unsigned_less [of b, where 'a = nat] by simp
  finally have "(word_of_nat (of_char (char_of (unat b))) :: u8) = b" by (simp del: of_char_of)
  then show ?thesis by (simp only: of_nat_of_char)
qed

lemma char_of_unat_of_char [simp]: "char_of (unat (of_char c :: u8)) = c"
proof -
  have "unat (of_char c :: u8) = take_bit 8 (of_char c :: nat)"
    by (subst of_nat_of_char [symmetric]) (simp only: unat_of_nat len_bit0 take_bit_eq_mod, simp)
  then show ?thesis by (simp add: char_of_take_bit_eq)
qed

lemma of_char_nonzero: "c \<noteq> NUL \<Longrightarrow> (of_char c :: u8) \<noteq> 0"
proof
  assume "c \<noteq> NUL" and "(of_char c :: u8) = 0"
  then have "c = char_of (0 :: nat)" using char_of_unat_of_char [of c] by simp
  also have "\<dots> = NUL" by (simp add: char_of_def)
  finally show False using \<open>c \<noteq> NUL\<close> by simp
qed

lemma mem_streq_mem_str:
  "mem_str m a = Some s \<Longrightarrow> c_string t \<Longrightarrow> mem_streq m a t = Some (s = t)"
proof (induction t arbitrary: a s)
  case Nil
  from Nil.prems(1) show ?case
    by (subst (asm) mem_str.simps) (auto split: if_splits bind_splits)
next
  case (Cons c t)
  obtain b where b: "load8 m a = Some b" using Cons.prems(1)
    by (subst (asm) mem_str.simps) (auto split: bind_splits)
  show ?case
  proof (cases "b = 0")
    case True
    moreover have "(of_char c :: u8) \<noteq> 0" using Cons.prems(2) by (simp add: of_char_nonzero)
    ultimately show ?thesis using b Cons.prems(1)
      by (subst (asm) mem_str.simps) auto
  next
    case False
    then obtain s' where s': "mem_str m (a + 1) = Some s'" "s = char_of (unat b) # s'"
      using Cons.prems(1) b by (subst (asm) mem_str.simps) (auto split: bind_splits)
    have "b = of_char c \<longleftrightarrow> char_of (unat b) = c"
      by (metis char_of_unat_of_char of_char_char_of_unat)
    with Cons.IH [OF s'(1)] Cons.prems(2) b s' show ?thesis by auto
  qed
qed

lemma mem_str_bytes:
  "load_bytes m a (Suc (length s)) = Some (map of_char s @ [0]) \<Longrightarrow> c_string s \<Longrightarrow> mem_str m a = Some s"
proof (induction s arbitrary: a)
  case Nil
  then show ?case by (subst mem_str.simps) (auto split: bind_splits)
next
  case (Cons c s)
  from Cons.prems(1) have "load8 m a = Some (of_char c)"
    and "load_bytes m (a + 1) (Suc (length s)) = Some (map of_char s @ [0])"
    by (auto split: bind_splits)
  moreover have "(of_char c :: u8) \<noteq> 0"
    using Cons.prems(2) by (simp add: of_char_nonzero)
  ultimately show ?case using Cons.IH [of "a + 1"] Cons.prems(2)
    by (subst mem_str.simps) simp
qed

text \<open>An address space of one page that starts with the given bytes.\<close>

definition image :: "u64 \<Rightarrow> u8 list \<Rightarrow> memory" where
  "image base bs = \<lparr>byte_at = (\<lambda>a. let i = unat (a - base) in if i < length bs then bs ! i else 0),
     prot_at = (\<lambda>p. if p = base then Some (PROT_READ OR PROT_WRITE) else None)\<rparr>"

end
