(* ===== verification/Strlcpy.thy ===== *)
theory Strlcpy
  imports Bionic_Prelude
begin

text \<open>
  The bounded string copy of \<open>linker/strlcpy.c\<close>, which the linker uses for the names of
  libraries, for the search path and for error messages. The two pointers \<open>d\<close> and \<open>s\<close> of the
  source always advance together, so one index \<open>i\<close> stands for both.
\<close>

text \<open>The loop \<^verbatim>\<open>while (--n != 0) { if ((*d++ = *s++) == '\0') break; }\<close>.\<close>

fun strlcpy_copy :: "char list \<Rightarrow> nat \<Rightarrow> nat \<Rightarrow> char list \<Rightarrow> (char list \<times> nat \<times> nat) option" where
  "strlcpy_copy src i n dst =
     (if n - 1 \<noteq> 0 then do {
        c \<leftarrow> arr_get src i;
        dst' \<leftarrow> arr_set dst i c;
        if c = NUL then Some (dst', i + 1, n - 1) else strlcpy_copy src (i + 1) (n - 1) dst'
      } else Some (dst, i, n - 1))"

text \<open>The loop \<^verbatim>\<open>while (*s++) ;\<close>.\<close>

function strlcpy_skip :: "char list \<Rightarrow> nat \<Rightarrow> nat option" where
  "strlcpy_skip src i = do {
     c \<leftarrow> arr_get src i;
     if c = NUL then Some (i + 1) else strlcpy_skip src (i + 1)
   }"
  by pat_completeness auto
termination
  by (relation "measure (\<lambda>(src, i). length src - i)") (auto simp: array_simps)

declare strlcpy_copy.simps [simp del] strlcpy_skip.simps [simp del]

definition apkenv_strlcpy :: "char list \<Rightarrow> char list \<Rightarrow> nat \<Rightarrow> (char list \<times> nat) option" where
  "apkenv_strlcpy dst src siz = do {
     (dst, i, n) \<leftarrow> (if siz \<noteq> 0 then strlcpy_copy src 0 siz dst else Some (dst, 0, siz));
     if n = 0 then do {
       dst \<leftarrow> (if siz \<noteq> 0 then arr_set dst i NUL else Some dst);
       i \<leftarrow> strlcpy_skip src i;
       Some (dst, i - 1)
     } else Some (dst, i - 1)
   }"

lemma strlcpy_skip_eq:
  assumes "c_string s"
  shows "strlcpy_skip (p @ s @ NUL # r) (length p) = Some (length p + length s + 1)"
  using assms
proof (induction s arbitrary: p)
  case Nil
  then show ?case by (subst strlcpy_skip.simps) simp
next
  case (Cons c s)
  then have "strlcpy_skip ((p @ [c]) @ s @ NUL # r) (length (p @ [c]))
      = Some (length (p @ [c]) + length s + 1)"
    by (intro Cons.IH) simp
  with Cons.prems show ?case by (subst strlcpy_skip.simps) simp
qed

text \<open>
  What the copy loop leaves: it has copied \<open>k = min (length s) (n - 1)\<close> characters from the
  position where it stands, and the NUL as well when there was room for it.
\<close>

lemma strlcpy_copy_eq:
  assumes "c_string s" and "length q + length d = siz'" and "n \<le> length d" and "0 < n"
    and "length q = length p"
  shows "strlcpy_copy (p @ s @ NUL # r) (length p) n (q @ d) =
    (if length s < n - 1
     then Some (q @ s @ NUL # drop (length s + 1) d, length p + length s + 1, n - 1 - length s)
     else Some (q @ take (n - 1) s @ drop (n - 1) d, length p + (n - 1), 0))"
  using assms
proof (induction s arbitrary: p q d n)
  case Nil
  then obtain x d' where d: "d = x # d'" by (cases d) auto
  have "arr_set (q @ x # d') (length p) NUL = Some (q @ NUL # d')"
    using Nil.prems(5) arr_set_append_length [of q x d' NUL] by simp
  with d Nil.prems(4) show ?case
    by (subst strlcpy_copy.simps) simp
next
  case (Cons c s)
  then obtain x d' where d: "d = x # d'" by (cases d) auto
  show ?case
  proof (cases "n - 1 = 0")
    case True
    then show ?thesis by (subst strlcpy_copy.simps) simp
  next
    case False
    then obtain m where n: "n = Suc (Suc m)" by (cases n; cases "n - 1") auto
    have IH: "strlcpy_copy ((p @ [c]) @ s @ NUL # r) (length (p @ [c])) (n - 1) ((q @ [c]) @ d') =
      (if length s < n - 1 - 1
       then Some ((q @ [c]) @ s @ NUL # drop (length s + 1) d', length (p @ [c]) + length s + 1,
          n - 1 - 1 - length s)
       else Some ((q @ [c]) @ take (n - 1 - 1) s @ drop (n - 1 - 1) d',
          length (p @ [c]) + (n - 1 - 1), 0))"
      using Cons.prems d n by (intro Cons.IH) auto
    have "arr_set (q @ x # d') (length p) c = Some (q @ c # d')"
      using Cons.prems(5) arr_set_append_length [of q x d' c] by simp
    with Cons.prems IH d n show ?thesis
      by (subst strlcpy_copy.simps) (auto simp: numeral_2_eq_2)
  qed
qed

lemma apkenv_strlcpy_spec:
  assumes "c_string s" and "siz \<le> length dst"
  shows "apkenv_strlcpy dst (s @ NUL # r) siz =
    (if siz = 0 then Some (dst, length s)
     else let k = min (length s) (siz - 1)
          in Some (take k s @ NUL # drop (k + 1) dst, length s))"
proof (cases "siz = 0")
  case True
  with assms show ?thesis
    using strlcpy_skip_eq [of s "[]" r] by (simp add: apkenv_strlcpy_def)
next
  case False
  have copy: "strlcpy_copy (s @ NUL # r) 0 siz dst =
    (if length s < siz - 1
     then Some (s @ NUL # drop (length s + 1) dst, length s + 1, siz - 1 - length s)
     else Some (take (siz - 1) s @ drop (siz - 1) dst, siz - 1, 0))"
    using strlcpy_copy_eq [of s "[]" dst "length dst" siz "[]" r] assms False by simp
  show ?thesis
  proof (cases "length s < siz - 1")
    case True
    then have "siz - Suc (length s) \<noteq> 0" by simp
    with True copy False show ?thesis by (simp add: apkenv_strlcpy_def Let_def)
  next
    case short: False
    let ?a = "take (siz - 1) s" and ?b = "drop (siz - 1) s"
    obtain x d' where d': "drop (siz - 1) dst = x # d'"
      using False assms(2) by (cases "drop (siz - 1) dst") auto
    then have rest: "drop siz dst = d'"
      using False by (metis Suc_pred' drop_Suc list.sel(3) neq0_conv tl_drop)
    have "strlcpy_skip (?a @ ?b @ NUL # r) (length ?a) = Some (length ?a + length ?b + 1)"
      using assms(1) by (intro strlcpy_skip_eq) simp
    then have skip: "strlcpy_skip (s @ NUL # r) (siz - 1) = Some (length s + 1)"
      using short by (auto simp: min_def simp flip: append_assoc split: if_splits)
    have "arr_set (?a @ x # d') (length ?a) NUL = Some (?a @ NUL # d')"
      by (rule arr_set_append_length)
    then have set: "arr_set (?a @ x # d') (siz - 1) NUL = Some (?a @ NUL # d')"
      using short by (auto simp: min_def split: if_splits)
    from short copy skip set d' rest False show ?thesis
      by (simp add: apkenv_strlcpy_def Let_def min_def)
  qed
qed

section \<open>Property\<close>

text \<open>
  C19. For a destination of at least \<open>siz\<close> bytes and any terminated source, \<open>apkenv_strlcpy\<close> ends
  without reading or writing outside the two arrays, returns the length of the source, and leaves
  the destination with the longest prefix of the source that fits together with a NUL. So the copy
  is complete exactly when the returned length is below \<open>siz\<close>.
\<close>

theorem strlcpy_correct:
  assumes "c_string s" and "siz \<le> length dst"
  shows "\<exists>dst'. apkenv_strlcpy dst (s @ NUL # r) siz = Some (dst', length s)
    \<and> length dst' = length dst \<and> drop siz dst' = drop siz dst
    \<and> (0 < siz \<longrightarrow> c_str dst' = take (siz - 1) s) \<and> (length s < siz \<longrightarrow> c_str dst' = s)"
proof (cases "siz = 0")
  case True
  with apkenv_strlcpy_spec [OF assms] show ?thesis by simp
next
  case False
  define k where "k = min (length s) (siz - 1)"
  have k: "take k s = take (siz - 1) s" "k < siz" "length (take k s) = k"
    using False by (auto simp: k_def min_def)
  let ?d = "take k s @ NUL # drop (k + 1) dst"
  have "apkenv_strlcpy dst (s @ NUL # r) siz = Some (?d, length s)"
    using apkenv_strlcpy_spec [OF assms, of r] False by (simp add: k_def Let_def)
  moreover have "length ?d = length dst" using k(2,3) assms(2) by simp
  moreover have "drop siz ?d = drop siz dst" using k(2,3) by (auto simp: drop_Cons')
  moreover have "c_str ?d = take (siz - 1) s" using assms(1) k(1) by simp
  ultimately show ?thesis by auto
qed

theorem strlcpy_correct_witness:
  "\<exists>dst'. apkenv_strlcpy ''xxxx'' (''libc'' @ NUL # []) 4 = Some (dst', 4) \<and> c_str dst' = ''lib''"
  using strlcpy_correct [of "''libc''" 4 "''xxxx''" "[]"] by auto

end
