(* ===== verification/Linker_State.thy ===== *)
theory Linker_State
  imports C_Memory Strlcpy
begin

text \<open>
  The data of the linker: \<open>struct soinfo\<close> and the flags of \<open>linker/linker.h\<close>, the static
  variables at the head of \<open>linker/linker.c\<close>, and the errors that the \<open>DL_ERR\<close> macro reports.
  The model is the LP64 build with relocations of the RELA form (x86_64 and aarch64).

  The array \<open>apkenv_sopool\<close> and the static object \<open>apkenv_libdl_info\<close> are the only soinfo
  objects there are. A pointer to one of them is a \<open>soref\<close>; where the program stores such a
  pointer in the memory of a library, the model stores its address \<open>so_ptr\<close>.
\<close>

section \<open>Constants\<close>

definition SO_MAX :: nat where "SO_MAX = 128"
definition SOINFO_NAME_LEN :: nat where "SOINFO_NAME_LEN = 128"

definition FLAG_LINKED :: u32 where "FLAG_LINKED = 0x00000001"
definition FLAG_ERROR :: u32 where "FLAG_ERROR = 0x00000002"
definition FLAG_EXE :: u32 where "FLAG_EXE = 0x00000004"
definition FLAG_LINKER :: u32 where "FLAG_LINKER = 0x00000010"
definition FLAG_GNU_HASH :: u32 where "FLAG_GNU_HASH = 0x00000040"

lemmas flag_defs = FLAG_LINKED_def FLAG_ERROR_def FLAG_EXE_def FLAG_LINKER_def FLAG_GNU_HASH_def

text \<open>The size of \<open>struct soinfo\<close> on LP64.\<close>

definition SOINFO_SIZE :: nat where "SOINFO_SIZE = 592"

section \<open>Types\<close>

datatype soref = Libdl | Pool nat

text \<open>A node of the debugger's list: inside a soinfo, or one of the system linker's own.\<close>

datatype lmref = SoMap soref | SysMap nat

record link_map =
  l_addr :: u64
  l_name :: string
  l_ld :: u64
  l_next :: "lmref option"
  l_prev :: "lmref option"

record soinfo =
  so_name :: string
  so_phdr :: u64
  so_phnum :: u64
  so_entry :: u64
  so_base :: u64
  so_size :: u64
  so_dynamic :: u64
  so_wrprotect_start :: u32
  so_wrprotect_end :: u32
  so_next :: "soref option"
  so_flags :: u32
  so_strtab :: u64
  so_symtab :: u64
  so_nbucket :: u64
  so_nchain :: u64
  so_bucket :: u64
  so_chain :: u64
  so_plt_got :: u64
  so_plt_rela :: u64
  so_plt_rela_count :: u64
  so_rela :: u64
  so_rela_count :: u64
  so_gnu_maskwords :: u32
  so_gnu_shift2 :: u32
  so_gnu_bloom_filter :: u64
  so_relr :: u64
  so_relr_count :: u64
  so_preinit_array :: u64
  so_preinit_array_count :: u64
  so_init_array :: u64
  so_init_array_count :: u64
  so_fini_array :: u64
  so_fini_array_count :: u64
  so_init_func :: u64
  so_fini_func :: u64
  so_refcount :: u64
  so_linkmap :: link_map
  so_constructors_called :: bool
  so_gnu_relro_start :: u64
  so_gnu_relro_len :: u32
  so_fullpath :: string

definition zero_soinfo :: soinfo where
  "zero_soinfo = \<lparr>so_name = [], so_phdr = 0, so_phnum = 0, so_entry = 0, so_base = 0, so_size = 0,
     so_dynamic = 0, so_wrprotect_start = 0, so_wrprotect_end = 0, so_next = None, so_flags = 0,
     so_strtab = 0, so_symtab = 0, so_nbucket = 0, so_nchain = 0, so_bucket = 0, so_chain = 0,
     so_plt_got = 0, so_plt_rela = 0, so_plt_rela_count = 0, so_rela = 0, so_rela_count = 0,
     so_gnu_maskwords = 0, so_gnu_shift2 = 0, so_gnu_bloom_filter = 0, so_relr = 0,
     so_relr_count = 0, so_preinit_array = 0, so_preinit_array_count = 0, so_init_array = 0,
     so_init_array_count = 0, so_fini_array = 0, so_fini_array_count = 0, so_init_func = 0,
     so_fini_func = 0, so_refcount = 0,
     so_linkmap = \<lparr>l_addr = 0, l_name = [], l_ld = 0, l_next = None, l_prev = None\<rparr>,
     so_constructors_called = False, so_gnu_relro_start = 0, so_gnu_relro_len = 0,
     so_fullpath = []\<rparr>"

text \<open>One constructor for each use of \<open>DL_ERR\<close> that the model covers.\<close>

datatype dl_error =
    LibraryNameTooLong string
  | TooManyLibraries string
  | NotInSolist string
  | BadNeededPointer string
  | NotElf string
  | NoLoadableSegments string
  | LseekFailed
  | CallocFailed
  | ReadFailed
  | MapRequestedFailed string
  | MapFailed string
  | MapSegmentFailed string
  | ExtendSegmentFailed string
  | InvalidGnuRelro string
  | SegmentsTooLarge string
  | LibraryNotFound string
  | FailedPreviously string
  | RecursiveLink string
  | RelroUndoFailed string
  | NeededUnloadFailed string
  | CannotLocateSymbol string string
  | UnknownWeakReloc u32
  | OddRelative
  | UnknownReloc u32
  | MultipleDynamic string
  | MissingDynamic
  | InvalidMaskwords string
  | UnsupportedRel string
  | UnsupportedRelsz string
  | MissingTables
  | PreloadFailed string
  | RelroProtectFailed string
  | RelocOutOfRange
  | CopyRelocUnsupported string

datatype rt_state = RT_CONSISTENT | RT_ADD | RT_DELETE

record linker =
  so :: "soref \<Rightarrow> soinfo"
  socount :: nat
  freelist :: "soref option"
  solist :: "soref option"
  sonext :: "soref option"
  somain :: "soref option"
  preloads :: "soref list"
  ldpaths :: "string list"
  sopaths :: "string list"
  lib_override_map :: "(string \<times> string) list"
  mem :: memory
  err :: "dl_error option"
  last_library_used :: string
  sys_map :: "nat \<Rightarrow> link_map"
  r_debug_head :: "lmref option"
  r_debug_tail :: "lmref option"
  r_map :: "lmref option"
  r_state :: rt_state
  trace :: "u64 list"
  sopool_addr :: u64
  libdl_addr :: u64

section \<open>Small operations\<close>

definition dl_err :: "dl_error \<Rightarrow> linker \<Rightarrow> linker" where
  "dl_err e st = st\<lparr>err := Some e\<rparr>"

definition upd_so :: "soref \<Rightarrow> (soinfo \<Rightarrow> soinfo) \<Rightarrow> linker \<Rightarrow> linker" where
  "upd_so r f st = st\<lparr>so := (so st)(r := f (so st r))\<rparr>"

definition has_flag :: "u32 \<Rightarrow> soinfo \<Rightarrow> bool" where
  "has_flag f si \<longleftrightarrow> so_flags si AND f \<noteq> 0"

fun so_ptr :: "linker \<Rightarrow> soref \<Rightarrow> u64" where
  "so_ptr st Libdl = libdl_addr st"
| "so_ptr st (Pool i) = sopool_addr st + of_nat (SOINFO_SIZE * i)"

text \<open>The object an address points to: \<open>None\<close> when it is not the start of a soinfo.\<close>

definition so_at :: "linker \<Rightarrow> u64 \<Rightarrow> soref option" where
  "so_at st p =
     (if p = libdl_addr st then Some Libdl
      else let off = unat (p - sopool_addr st)
           in if off mod SOINFO_SIZE = 0 \<and> off div SOINFO_SIZE < SO_MAX
              then Some (Pool (off div SOINFO_SIZE)) else None)"

text \<open>\<open>apkenv_validate_soinfo\<close> compares pointers only.\<close>

definition apkenv_validate_soinfo :: "linker \<Rightarrow> u64 \<Rightarrow> bool" where
  "apkenv_validate_soinfo st p \<longleftrightarrow>
     (p \<ge> sopool_addr st \<and> p < sopool_addr st + of_nat (SOINFO_SIZE * SO_MAX)) \<or> p = libdl_addr st"

text \<open>The static objects lie in the address space without wrap-around or overlap.\<close>

definition static_layout :: "linker \<Rightarrow> bool" where
  "static_layout st \<longleftrightarrow> unat (sopool_addr st) + SOINFO_SIZE * SO_MAX < 2 ^ 64
     \<and> \<not> (sopool_addr st \<le> libdl_addr st
          \<and> libdl_addr st < sopool_addr st + of_nat (SOINFO_SIZE * SO_MAX))
     \<and> 0 < sopool_addr st \<and> 0 < libdl_addr st"

lemma so_upd_so [simp]: "so (upd_so r f st) = (so st)(r := f (so st r))"
  by (simp add: upd_so_def)

lemma upd_so_fields [simp]:
  "socount (upd_so r f st) = socount st" "freelist (upd_so r f st) = freelist st"
  "solist (upd_so r f st) = solist st" "sonext (upd_so r f st) = sonext st"
  "somain (upd_so r f st) = somain st" "preloads (upd_so r f st) = preloads st"
  "ldpaths (upd_so r f st) = ldpaths st" "sopaths (upd_so r f st) = sopaths st"
  "lib_override_map (upd_so r f st) = lib_override_map st" "mem (upd_so r f st) = mem st"
  "err (upd_so r f st) = err st" "last_library_used (upd_so r f st) = last_library_used st"
  "trace (upd_so r f st) = trace st" "sopool_addr (upd_so r f st) = sopool_addr st"
  "libdl_addr (upd_so r f st) = libdl_addr st"
  by (simp_all add: upd_so_def)

lemma dl_err_fields [simp]:
  "so (dl_err e st) = so st" "socount (dl_err e st) = socount st"
  "freelist (dl_err e st) = freelist st" "solist (dl_err e st) = solist st"
  "sonext (dl_err e st) = sonext st" "somain (dl_err e st) = somain st"
  "preloads (dl_err e st) = preloads st" "mem (dl_err e st) = mem st"
  "err (dl_err e st) = Some e" "trace (dl_err e st) = trace st"
  "sopool_addr (dl_err e st) = sopool_addr st" "libdl_addr (dl_err e st) = libdl_addr st"
  by (simp_all add: dl_err_def)

lemma so_ptr_cong:
  "sopool_addr st' = sopool_addr st \<Longrightarrow> libdl_addr st' = libdl_addr st \<Longrightarrow> so_ptr st' r = so_ptr st r"
  by (cases r) simp_all

lemma so_ptr_offset:
  assumes "static_layout st" and "i < SO_MAX"
  shows "unat (so_ptr st (Pool i)) = unat (sopool_addr st) + SOINFO_SIZE * i"
proof -
  have "unat (sopool_addr st) + SOINFO_SIZE * i < 2 ^ 64"
    using assms by (simp add: static_layout_def SOINFO_SIZE_def SO_MAX_def)
  then show ?thesis
    by (simp add: unat_word_ariths unat_of_nat take_bit_nat_eq_self del: of_nat_mult)
qed

lemma pool_end:
  assumes "static_layout st"
  shows "unat (sopool_addr st + of_nat (SOINFO_SIZE * SO_MAX)) = unat (sopool_addr st) + SOINFO_SIZE * SO_MAX"
  using assms
  by (simp add: unat_word_ariths unat_of_nat take_bit_nat_eq_self static_layout_def
      SOINFO_SIZE_def SO_MAX_def)

lemma so_ptr_in_pool:
  assumes "static_layout st" and "i < SO_MAX"
  shows "sopool_addr st \<le> so_ptr st (Pool i)"
    and "so_ptr st (Pool i) < sopool_addr st + of_nat (SOINFO_SIZE * SO_MAX)"
  using assms so_ptr_offset [OF assms] pool_end [OF assms(1)]
  by (simp_all add: word_le_nat_alt word_less_nat_alt SOINFO_SIZE_def SO_MAX_def del: so_ptr.simps)

lemma so_ptr_nonzero:
  assumes "static_layout st" and "case r of Libdl \<Rightarrow> True | Pool i \<Rightarrow> i < SO_MAX"
  shows "so_ptr st r \<noteq> 0"
proof (cases r)
  case Libdl
  with assms(1) show ?thesis by (auto simp: static_layout_def)
next
  case (Pool i)
  with assms have "sopool_addr st \<le> so_ptr st r" "0 < sopool_addr st"
    by (auto simp: static_layout_def intro: so_ptr_in_pool(1) simp del: so_ptr.simps)
  then show ?thesis by (simp add: word_le_0_iff)
qed

text \<open>An address that was made from an object leads back to it and passes the check.\<close>

lemma so_at_so_ptr:
  assumes "static_layout st" and "case r of Libdl \<Rightarrow> True | Pool i \<Rightarrow> i < SO_MAX"
  shows "so_at st (so_ptr st r) = Some r \<and> apkenv_validate_soinfo st (so_ptr st r)"
proof (cases r)
  case Libdl
  then show ?thesis by (simp add: so_at_def apkenv_validate_soinfo_def)
next
  case (Pool i)
  then have i: "i < SO_MAX" using assms(2) by simp
  note b = so_ptr_in_pool [OF assms(1) i]
  have "so_ptr st (Pool i) \<noteq> libdl_addr st" using b assms(1) by (auto simp: static_layout_def)
  moreover have "unat (so_ptr st (Pool i) - sopool_addr st) = SOINFO_SIZE * i"
    using b(1) so_ptr_offset [OF assms(1) i] by (simp add: unat_sub del: so_ptr.simps)
  moreover have "SOINFO_SIZE * i mod SOINFO_SIZE = 0" "SOINFO_SIZE * i div SOINFO_SIZE = i"
    by (simp_all add: SOINFO_SIZE_def)
  ultimately show ?thesis
    using Pool i b by (simp add: so_at_def apkenv_validate_soinfo_def del: so_ptr.simps)
qed

end
