(* ===== verification/Soinfo_Pool.thy ===== *)
theory Soinfo_Pool
  imports Linker_State
begin

text \<open>
  The registry of loaded libraries: \<open>apkenv_alloc_info\<close>, \<open>apkenv_free_info\<close> and
  \<open>do_we_have_this_handle\<close> of \<open>linker/linker.c\<close>. Loaded libraries form the list from
  \<open>apkenv_solist\<close> to \<open>apkenv_sonext\<close>, released slots the list from \<open>apkenv_freelist\<close>, both
  threaded through the \<open>next\<close> field of the objects in \<open>apkenv_sopool\<close>.
\<close>

section \<open>Operations\<close>

definition next_of :: "linker \<Rightarrow> soref \<Rightarrow> soref option" where
  "next_of st r = so_next (so st r)"

text \<open>\<open>handle\<close> is any pointer; \<open>si == handle\<close> compares addresses.\<close>

partial_function (option) have_handle_loop :: "linker \<Rightarrow> u64 \<Rightarrow> soref option \<Rightarrow> bool option" where
  "have_handle_loop st handle si = (case si of
      None \<Rightarrow> Some False
    | Some r \<Rightarrow> if so_ptr st r = handle then Some True else have_handle_loop st handle (next_of st r))"

definition do_we_have_this_handle :: "linker \<Rightarrow> u64 \<Rightarrow> bool option" where
  "do_we_have_this_handle st handle = have_handle_loop st handle (solist st)"

definition take_fresh_slot :: "linker \<Rightarrow> linker" where
  "take_fresh_slot st =
     (let r = Pool (socount st)
      in (upd_so r (\<lambda>si. si\<lparr>so_next := None\<rparr>) st)\<lparr>freelist := Some r, socount := socount st + 1\<rparr>)"

text \<open>
  \<open>apkenv_alloc_info\<close>: the result \<open>None\<close> is the NULL the source returns. The name is copied
  with \<open>apkenv_strlcpy\<close> into the zeroed array of \<open>SOINFO_NAME_LEN\<close> bytes.
\<close>

definition apkenv_alloc_info :: "string \<Rightarrow> linker \<Rightarrow> (soref option \<times> linker) option" where
  "apkenv_alloc_info name st =
     (if length name \<ge> SOINFO_NAME_LEN then Some (None, dl_err (LibraryNameTooLong name) st)
      else if freelist st = None \<and> socount st = SO_MAX
      then Some (None, dl_err (TooManyLibraries name) st)
      else do {
        let st = (if freelist st = None then take_fresh_slot st else st);
        si \<leftarrow> freelist st;
        let st = st\<lparr>freelist := next_of st si\<rparr>;
        let st = upd_so si (\<lambda>_. zero_soinfo) st;
        (buf, _) \<leftarrow> apkenv_strlcpy (replicate SOINFO_NAME_LEN NUL) (name @ [NUL]) SOINFO_NAME_LEN;
        let st = upd_so si (\<lambda>i. i\<lparr>so_name := c_str buf\<rparr>) st;
        p \<leftarrow> sonext st;
        let st = upd_so p (\<lambda>i. i\<lparr>so_next := Some si\<rparr>) st;
        let st = upd_so si (\<lambda>i. i\<lparr>so_next := None, so_refcount := 0\<rparr>) st;
        Some (Some si, st\<lparr>sonext := Some si\<rparr>)
      })"

text \<open>The search of \<open>apkenv_free_info\<close>: \<open>trav\<close> and \<open>prev\<close> at the end of its loop.\<close>

partial_function (option) free_info_find ::
  "linker \<Rightarrow> soref \<Rightarrow> soref option \<Rightarrow> soref option \<Rightarrow> (soref option \<times> soref option) option" where
  "free_info_find st si trav prev = (case trav of
      None \<Rightarrow> Some (None, prev)
    | Some t \<Rightarrow> if t = si then Some (trav, prev) else free_info_find st si (next_of st t) trav)"

definition apkenv_free_info :: "soref \<Rightarrow> linker \<Rightarrow> linker option" where
  "apkenv_free_info si st = do {
     (trav, prev) \<leftarrow> free_info_find st si (solist st) None;
     if trav = None then Some (dl_err (NotInSolist (so_name (so st si))) st)
     else do {
       p \<leftarrow> prev;
       let st = upd_so p (\<lambda>i. i\<lparr>so_next := next_of st si\<rparr>) st;
       let st = (if sonext st = Some si then st\<lparr>sonext := prev\<rparr> else st);
       let st = upd_so si (\<lambda>i. i\<lparr>so_next := freelist st\<rparr>) st;
       Some (st\<lparr>freelist := Some si\<rparr>)
     }
   }"

text \<open>
  The static initialisers. The addresses are those of the string table, the symbol table and the
  two hash arrays of \<open>apkenv_libdl_info\<close>, of that object and of \<open>apkenv_sopool\<close>.
\<close>

record static_addresses =
  libdl_strtab :: u64
  libdl_symtab :: u64
  libdl_buckets :: u64
  libdl_chains :: u64
  libdl_info_at :: u64
  sopool_at :: u64

definition apkenv_libdl_info :: "static_addresses \<Rightarrow> soinfo" where
  "apkenv_libdl_info sa = zero_soinfo\<lparr>so_name := ''libdl.so'', so_flags := FLAG_LINKED,
     so_strtab := libdl_strtab sa, so_symtab := libdl_symtab sa, so_nbucket := 1, so_nchain := 7,
     so_bucket := libdl_buckets sa, so_chain := libdl_chains sa\<rparr>"

definition static_linker :: "static_addresses \<Rightarrow> memory \<Rightarrow> linker" where
  "static_linker sa m = \<lparr>so = (\<lambda>_. zero_soinfo)(Libdl := apkenv_libdl_info sa), socount = 0,
     freelist = None, solist = Some Libdl, sonext = Some Libdl, somain = None, preloads = [],
     ldpaths = [], sopaths = [''/vendor/lib'', ''/system/lib''], lib_override_map = [], mem = m, err = None,
     last_library_used = [], sys_map = (\<lambda>_. so_linkmap zero_soinfo), r_debug_head = None,
     r_debug_tail = None, r_map = None, r_state = RT_CONSISTENT, trace = [],
     sopool_addr = sopool_at sa, libdl_addr = libdl_info_at sa\<rparr>"

section \<open>Lists of objects\<close>

text \<open>\<open>so_path nx p rs q\<close>: from \<open>p\<close> the \<open>next\<close> pointers lead through the objects \<open>rs\<close> to \<open>q\<close>.\<close>

primrec so_path ::
  "('r \<Rightarrow> 'r option) \<Rightarrow> 'r option \<Rightarrow> 'r list \<Rightarrow> 'r option \<Rightarrow> bool" where
  "so_path nx p [] q \<longleftrightarrow> p = q"
| "so_path nx p (r # rs) q \<longleftrightarrow> p = Some r \<and> so_path nx (nx r) rs q"

abbreviation so_seq :: "('r \<Rightarrow> 'r option) \<Rightarrow> 'r option \<Rightarrow> 'r list \<Rightarrow> bool" where
  "so_seq nx p rs \<equiv> so_path nx p rs None"

lemma so_path_append [simp]:
  "so_path nx p (as @ bs) q \<longleftrightarrow> (\<exists>m. so_path nx p as m \<and> so_path nx m bs q)"
  by (induction as arbitrary: p) auto

lemma so_path_cong:
  "(\<And>r. r \<in> set rs \<Longrightarrow> nx' r = nx r) \<Longrightarrow> so_path nx' p rs q = so_path nx p rs q"
  by (induction rs arbitrary: p) auto

lemma so_path_upd [simp]: "r \<notin> set rs \<Longrightarrow> so_path (nx(r := v)) p rs q = so_path nx p rs q"
  by (rule so_path_cong) auto

lemma so_seq_unique: "so_seq nx p rs \<Longrightarrow> so_seq nx p rs' \<Longrightarrow> rs = rs'"
proof (induction rs arbitrary: p rs')
  case Nil
  then show ?case by (cases rs') auto
next
  case (Cons r rs)
  then show ?case by (cases rs') auto
qed

text \<open>Adding an object behind the last one, and taking one out of the middle.\<close>

lemma so_seq_add_last:
  assumes "so_seq nx p rs" and "rs \<noteq> []" and "distinct rs" and "x \<notin> set rs"
  shows "so_seq (nx(last rs := Some x, x := None)) p (rs @ [x])"
proof -
  obtain as l where rs: "rs = as @ [l]" using assms(2) by (meson rev_exhaust)
  with assms have "so_path nx p as (Some l)" "l \<notin> set as" "x \<notin> set as" "x \<noteq> l"
    by auto
  then show ?thesis using rs by simp
qed

lemma so_seq_take_out:
  assumes "so_seq nx p (as @ a # x # bs)" and "distinct (as @ a # x # bs)"
  shows "so_seq (nx(a := nx x, x := v)) p (as @ a # bs)"
  using assms by auto

section \<open>The pool invariant\<close>

text \<open>
  \<open>ls\<close> are the libraries loaded after the built-in \<open>libdl.so\<close>, \<open>fs\<close> the released slots: each slot
  that was ever handed out is in exactly one of the two lists, once.
\<close>

definition pool_lists :: "linker \<Rightarrow> soref list \<Rightarrow> soref list \<Rightarrow> bool" where
  "pool_lists st ls fs \<longleftrightarrow>
     so_seq (next_of st) (solist st) (Libdl # ls)
   \<and> so_seq (next_of st) (freelist st) fs
   \<and> sonext st = Some (last (Libdl # ls))
   \<and> distinct (ls @ fs) \<and> set (ls @ fs) = Pool ` {..<socount st} \<and> socount st \<le> SO_MAX"

definition pool_inv :: "linker \<Rightarrow> bool" where
  "pool_inv st \<longleftrightarrow> (\<exists>ls fs. pool_lists st ls fs)"

text \<open>The list of loaded libraries, read off the pointers.\<close>

partial_function (option) so_walk :: "linker \<Rightarrow> soref option \<Rightarrow> soref list option" where
  "so_walk st p = (case p of None \<Rightarrow> Some []
     | Some r \<Rightarrow> do { rs \<leftarrow> so_walk st (next_of st r); Some (r # rs) })"

definition loaded :: "linker \<Rightarrow> soref list" where
  "loaded st = tl (the (so_walk st (solist st)))"

lemma so_walk_chain: "so_seq (next_of st) p rs \<Longrightarrow> so_walk st p = Some rs"
  by (induction rs arbitrary: p) (subst so_walk.simps; auto)+

lemma pool_lists_loaded: "pool_lists st ls fs \<Longrightarrow> loaded st = ls"
  using so_walk_chain [of st "solist st" "Libdl # ls"] by (simp add: pool_lists_def loaded_def)

lemma pool_lists_not_Libdl: "pool_lists st ls fs \<Longrightarrow> Libdl \<notin> set (ls @ fs)"
  unfolding pool_lists_def by force

lemma pool_lists_cong:
  assumes "\<And>r. so_next (so st' r) = so_next (so st r)" and "solist st' = solist st"
    and "freelist st' = freelist st" and "sonext st' = sonext st" and "socount st' = socount st"
  shows "pool_lists st' ls fs = pool_lists st ls fs"
proof -
  have "next_of st' = next_of st" using assms(1) by (simp add: next_of_def fun_eq_iff)
  with assms show ?thesis by (simp add: pool_lists_def)
qed

lemma pool_lists_count:
  assumes "pool_lists st ls fs" shows "length ls + length fs = socount st"
proof -
  have "card (set (ls @ fs)) = length (ls @ fs)"
    using assms by (intro distinct_card) (simp add: pool_lists_def)
  moreover have "card (Pool ` {..<socount st}) = socount st"
    by (simp add: card_image inj_on_def)
  ultimately show ?thesis using assms by (simp add: pool_lists_def)
qed

section \<open>Walking the list\<close>

lemma have_handle_loop_eq:
  "so_seq (next_of st) p rs \<Longrightarrow>
     have_handle_loop st h p = Some (\<exists>r \<in> set rs. so_ptr st r = h)"
  by (induction rs arbitrary: p) (subst have_handle_loop.simps; auto)+

lemma do_we_have_this_handle_eq:
  "pool_lists st ls fs \<Longrightarrow>
     do_we_have_this_handle st h = Some (\<exists>r \<in> set (Libdl # ls). so_ptr st r = h)"
  using have_handle_loop_eq [of st "solist st" "Libdl # ls"]
  by (simp add: do_we_have_this_handle_def pool_lists_def)

lemma free_info_find_absent:
  "so_seq (next_of st) p rs \<Longrightarrow> si \<notin> set rs \<Longrightarrow>
     free_info_find st si p prev = Some (None, if rs = [] then prev else Some (last rs))"
  by (induction rs arbitrary: p prev) (subst free_info_find.simps; auto)+

lemma free_info_find_present:
  "so_path (next_of st) p as (Some si) \<Longrightarrow> si \<notin> set as \<Longrightarrow>
     free_info_find st si p prev = Some (Some si, if as = [] then prev else Some (last as))"
  by (induction as arbitrary: p prev) (subst free_info_find.simps; auto)+

section \<open>Allocation\<close>

definition attach :: "soref \<Rightarrow> string \<Rightarrow> soref \<Rightarrow> soref option \<Rightarrow> nat \<Rightarrow> linker \<Rightarrow> linker" where
  "attach si name p fl n st = st\<lparr>
     so := (so st)(p := (so st p)\<lparr>so_next := Some si\<rparr>, si := zero_soinfo\<lparr>so_name := name\<rparr>),
     freelist := fl, socount := n, sonext := Some si\<rparr>"

lemma name_copy:
  assumes "c_string name" and "length name < SOINFO_NAME_LEN"
  shows "\<exists>n buf. apkenv_strlcpy (replicate SOINFO_NAME_LEN NUL) (name @ [NUL]) SOINFO_NAME_LEN
    = Some (buf, n) \<and> c_str buf = name"
proof -
  have "min (length name) (SOINFO_NAME_LEN - 1) = length name"
    using assms(2) by simp
  then show ?thesis
    using apkenv_strlcpy_spec [OF assms(1), of SOINFO_NAME_LEN "replicate SOINFO_NAME_LEN NUL" "[]"]
      assms by (simp add: Let_def SOINFO_NAME_LEN_def)
qed

lemma alloc_info_attach:
  assumes "c_string name" and "length name < SOINFO_NAME_LEN" and "sonext st = Some p"
    and "freelist st = Some si" and "p \<noteq> si"
  shows "apkenv_alloc_info name st = Some (Some si, attach si name p (next_of st si) (socount st) st)"
proof -
  obtain n buf where "apkenv_strlcpy (replicate SOINFO_NAME_LEN NUL) (name @ [NUL]) SOINFO_NAME_LEN
      = Some (buf, n)" "c_str buf = name"
    using name_copy [OF assms(1,2)] by blast
  with assms show ?thesis
    by (simp add: apkenv_alloc_info_def Let_def attach_def upd_so_def zero_soinfo_def fun_upd_twist)
qed

lemma alloc_info_attach_fresh:
  assumes "c_string name" and "length name < SOINFO_NAME_LEN" and "sonext st = Some p"
    and "freelist st = None" and "socount st < SO_MAX" and "p \<noteq> Pool (socount st)"
  shows "apkenv_alloc_info name st =
    Some (Some (Pool (socount st)), attach (Pool (socount st)) name p None (socount st + 1) st)"
proof -
  obtain n buf where "apkenv_strlcpy (replicate SOINFO_NAME_LEN NUL) (name @ [NUL]) SOINFO_NAME_LEN
      = Some (buf, n)" "c_str buf = name"
    using name_copy [OF assms(1,2)] by blast
  with assms show ?thesis
    by (simp add: apkenv_alloc_info_def take_fresh_slot_def next_of_def Let_def attach_def upd_so_def
        zero_soinfo_def fun_upd_twist)
qed

lemma next_of_attach:
  "next_of (attach si name p fl n st) = (next_of st)(p := Some si, si := None)"
  by (simp add: attach_def next_of_def fun_eq_iff zero_soinfo_def)

lemma attach_fields [simp]:
  "solist (attach si name p fl n st) = solist st" "freelist (attach si name p fl n st) = fl"
  "socount (attach si name p fl n st) = n" "sonext (attach si name p fl n st) = Some si"
  "mem (attach si name p fl n st) = mem st" "sopool_addr (attach si name p fl n st) = sopool_addr st"
  "libdl_addr (attach si name p fl n st) = libdl_addr st" "trace (attach si name p fl n st) = trace st"
  "so (attach si name p fl n st) si = zero_soinfo\<lparr>so_name := name\<rparr>"
  "r \<noteq> si \<Longrightarrow> so (attach si name p fl n st) r =
     (if r = p then (so st r)\<lparr>so_next := Some si\<rparr> else so st r)"
  by (simp_all add: attach_def)

lemma pool_lists_attach:
  assumes "pool_lists st ls fs" and "p = last (Libdl # ls)" and "si \<notin> set (Libdl # ls)"
    and "so_seq (next_of st) fl fs'" and "distinct (ls @ [si] @ fs')"
    and "set (ls @ [si] @ fs') = Pool ` {..<n}" and "n \<le> SO_MAX"
  shows "pool_lists (attach si name p fl n st) (ls @ [si]) fs'"
proof -
  have d: "distinct (Libdl # ls)" using assms(1) pool_lists_not_Libdl by (auto simp: pool_lists_def)
  have "so_seq ((next_of st)(last (Libdl # ls) := Some si, si := None)) (solist st) ((Libdl # ls) @ [si])"
    using assms(1,3) d by (intro so_seq_add_last) (auto simp: pool_lists_def)
  moreover have "p \<notin> set fs'"
  proof (cases "ls = []")
    case True
    with assms(2) have "p = Libdl" by simp
    moreover have "Libdl \<notin> set fs'" using assms(6) by auto
    ultimately show ?thesis by simp
  next
    case False
    with assms(2) have "p \<in> set ls" by simp
    with assms(5) show ?thesis by auto
  qed
  moreover have "si \<notin> set fs'" using assms(5) by auto
  ultimately show ?thesis
    using assms by (simp add: pool_lists_def next_of_attach)
qed

text \<open>The slot that the next allocation hands out.\<close>

definition next_slot :: "linker \<Rightarrow> soref list \<Rightarrow> soref" where
  "next_slot st fs = (if fs = [] then Pool (socount st) else hd fs)"

lemma alloc_info_ok:
  assumes "pool_lists st ls fs" and "c_string name" and "length name < SOINFO_NAME_LEN"
    and "fs \<noteq> [] \<or> socount st < SO_MAX"
  shows "\<exists>fl n. apkenv_alloc_info name st =
      Some (Some (next_slot st fs), attach (next_slot st fs) name (last (Libdl # ls)) fl n st)
    \<and> pool_lists (attach (next_slot st fs) name (last (Libdl # ls)) fl n st) (ls @ [next_slot st fs]) (tl fs)
    \<and> next_slot st fs \<notin> set (Libdl # ls)"
proof -
  let ?p = "last (Libdl # ls)"
  have sn: "sonext st = Some ?p" using assms(1) by (simp add: pool_lists_def)
  note nl = pool_lists_not_Libdl [OF assms(1)]
  show ?thesis
  proof (cases fs)
    case Nil
    let ?si = "Pool (socount st)"
    have "set ls = Pool ` {..<socount st}" using assms(1) Nil by (simp add: pool_lists_def)
    then have new: "?si \<notin> set (Libdl # ls)" by auto
    then have "?p \<noteq> ?si" by (metis last_in_set list.distinct(1))
    moreover have "freelist st = None" using assms(1) Nil by (simp add: pool_lists_def)
    moreover have c: "socount st < SO_MAX" using assms(4) Nil by simp
    ultimately have "apkenv_alloc_info name st = Some (Some ?si, attach ?si name ?p None (socount st + 1) st)"
      using assms(2,3) sn by (intro alloc_info_attach_fresh) auto
    moreover have "pool_lists (attach ?si name ?p None (socount st + 1) st) (ls @ [?si]) []"
      using assms(1) Nil new c
      by (intro pool_lists_attach [OF assms(1)]) (auto simp: pool_lists_def lessThan_Suc)
    ultimately show ?thesis
      using Nil new by (intro exI [of _ None] exI [of _ "socount st + 1"]) (simp add: next_slot_def)
  next
    case (Cons x fs')
    have fl: "freelist st = Some x" "so_seq (next_of st) (next_of st x) fs'"
      using assms(1) Cons by (simp_all add: pool_lists_def)
    have new: "x \<notin> set (Libdl # ls)" using assms(1) nl Cons by (auto simp: pool_lists_def)
    then have "?p \<noteq> x" by (metis last_in_set list.distinct(1))
    then have "apkenv_alloc_info name st = Some (Some x, attach x name ?p (next_of st x) (socount st) st)"
      using assms(2,3) sn fl by (intro alloc_info_attach) auto
    moreover have "pool_lists (attach x name ?p (next_of st x) (socount st) st) (ls @ [x]) fs'"
      using assms(1) Cons new fl(2) by (intro pool_lists_attach [OF assms(1)]) (auto simp: pool_lists_def)
    ultimately show ?thesis using Cons new
      by (intro exI [of _ "next_of st x"] exI [of _ "socount st"]) (simp add: next_slot_def)
  qed
qed

lemma alloc_info_full:
  assumes "pool_lists st ls fs" and "\<not> (fs \<noteq> [] \<or> socount st < SO_MAX)"
  shows "\<exists>e. apkenv_alloc_info name st = Some (None, dl_err e st)"
  using assms by (auto simp: apkenv_alloc_info_def pool_lists_def)

lemma alloc_info_long:
  "length name \<ge> SOINFO_NAME_LEN \<Longrightarrow>
     apkenv_alloc_info name st = Some (None, dl_err (LibraryNameTooLong name) st)"
  by (simp add: apkenv_alloc_info_def)

section \<open>Release\<close>

definition detach :: "soref \<Rightarrow> soref \<Rightarrow> linker \<Rightarrow> linker" where
  "detach si p st = st\<lparr>
     so := (so st)(p := (so st p)\<lparr>so_next := next_of st si\<rparr>, si := (so st si)\<lparr>so_next := freelist st\<rparr>),
     sonext := (if sonext st = Some si then Some p else sonext st), freelist := Some si\<rparr>"

lemma detach_fields [simp]:
  "solist (detach si p st) = solist st" "socount (detach si p st) = socount st"
  "mem (detach si p st) = mem st" "sopool_addr (detach si p st) = sopool_addr st"
  "libdl_addr (detach si p st) = libdl_addr st" "trace (detach si p st) = trace st"
  "freelist (detach si p st) = Some si"
  by (simp_all add: detach_def)

lemma next_of_detach:
  "p \<noteq> si \<Longrightarrow> next_of (detach si p st) = (next_of st)(p := next_of st si, si := freelist st)"
  by (simp add: detach_def next_of_def fun_eq_iff)

lemma free_info_ok:
  assumes "pool_lists st ls fs" and "si \<in> set ls"
  shows "\<exists>p. p \<in> set (Libdl # ls) \<and> p \<noteq> si \<and> apkenv_free_info si st = Some (detach si p st)
    \<and> pool_lists (detach si p st) (remove1 si ls) (si # fs)"
proof -
  obtain as bs where ls: "ls = as @ si # bs" and si_as: "si \<notin> set as"
    using assms(2) by (meson split_list_first)
  let ?p = "last (Libdl # as)"
  have d: "distinct (Libdl # ls @ fs)" using assms(1) pool_lists_not_Libdl by (auto simp: pool_lists_def)
  have ch: "so_seq (next_of st) (solist st) ((Libdl # as) @ si # bs)"
    using assms(1) ls by (simp add: pool_lists_def)
  have pin: "?p \<in> set (Libdl # as)" by (rule last_in_set) simp
  then have pn: "?p \<noteq> si" using d ls by auto
  have pfs: "?p \<notin> set fs" using pin d ls by auto
  have find: "free_info_find st si (solist st) None = Some (Some si, Some ?p)"
    using ch d ls free_info_find_present [of st "solist st" "Libdl # as" si None] by auto
  then have free: "apkenv_free_info si st = Some (detach si ?p st)"
    using pn by (simp add: apkenv_free_info_def detach_def upd_so_def Let_def next_of_def fun_upd_twist)
  obtain zs where zs: "Libdl # as = zs @ [?p]" by (metis append_butlast_last_id list.distinct(1))
  have "so_seq (next_of st) (solist st) (zs @ ?p # si # bs)" using ch zs by (metis append.assoc append_Cons append_Nil)
  moreover have "distinct (zs @ ?p # si # bs)"
    using d ls zs by (metis append.assoc append_Cons append_Nil distinct_append)
  ultimately have "so_seq (next_of (detach si ?p st)) (solist st) (zs @ ?p # bs)"
    using so_seq_take_out next_of_detach [OF pn] by metis
  then have c1: "so_seq (next_of (detach si ?p st)) (solist st) (Libdl # as @ bs)"
    using zs by (metis append.assoc append_Cons append_Nil)
  have c2: "so_seq (next_of (detach si ?p st)) (Some si) (si # fs)"
    unfolding next_of_detach [OF pn] using assms(1) d ls pn pfs
    by (simp add: pool_lists_def del: last.simps)
  have c3: "sonext (detach si ?p st) = Some (last (Libdl # as @ bs))"
  proof (cases bs)
    case Nil
    with assms(1) ls show ?thesis by (simp add: detach_def pool_lists_def)
  next
    case (Cons b bs')
    then have "last (Libdl # ls) = last bs" using ls by simp
    moreover have "last bs \<noteq> si" using Cons d ls by (metis distinct_append distinct.simps(2) last_in_set list.distinct(1))
    ultimately show ?thesis using assms(1) Cons by (simp add: detach_def pool_lists_def)
  qed
  have "remove1 si ls = as @ bs" using ls si_as by (simp add: remove1_append)
  with c1 c2 c3 assms(1) ls have "pool_lists (detach si ?p st) (remove1 si ls) (si # fs)"
    by (auto simp: pool_lists_def)
  with free pin pn ls show ?thesis by (intro exI [of _ ?p]) auto
qed

lemma free_info_absent:
  assumes "pool_lists st ls fs" and "si \<notin> set (Libdl # ls)"
  shows "apkenv_free_info si st = Some (dl_err (NotInSolist (so_name (so st si))) st)"
  using assms free_info_find_absent [of st "solist st" "Libdl # ls" si None]
  by (simp add: apkenv_free_info_def pool_lists_def)

text \<open>Releasing the built-in object would dereference the NULL \<open>prev\<close>.\<close>

lemma free_info_Libdl:
  assumes "pool_lists st ls fs" shows "apkenv_free_info Libdl st = None"
proof -
  have "free_info_find st Libdl (solist st) None = Some (Some Libdl, None)"
    using assms free_info_find_present [of st "solist st" "[]" Libdl None] by (simp add: pool_lists_def)
  then show ?thesis by (simp add: apkenv_free_info_def)
qed

section \<open>The contract of a pool of slots\<close>

text \<open>
  What the loader relies on: slots are handed out while fewer than \<open>cap\<close> are live, a slot that is
  handed out was not live before, and releasing a live slot takes exactly that one out.
\<close>

locale slot_pool =
  fixes invar :: "'s \<Rightarrow> bool" and live :: "'s \<Rightarrow> 'r list"
    and alloc :: "'n \<Rightarrow> 's \<Rightarrow> ('r option \<times> 's) option" and release :: "'r \<Rightarrow> 's \<Rightarrow> 's option"
    and valid :: "'n \<Rightarrow> bool" and fits :: "'n \<Rightarrow> bool" and cap :: nat
  assumes live_distinct: "invar s \<Longrightarrow> distinct (live s)"
    and live_cap: "invar s \<Longrightarrow> length (live s) \<le> cap"
    and alloc_ok: "invar s \<Longrightarrow> valid n \<Longrightarrow> fits n \<Longrightarrow> length (live s) < cap \<Longrightarrow>
      \<exists>r s'. alloc n s = Some (Some r, s') \<and> invar s' \<and> r \<notin> set (live s) \<and> live s' = live s @ [r]"
    and alloc_refused: "invar s \<Longrightarrow> valid n \<Longrightarrow> \<not> (fits n \<and> length (live s) < cap) \<Longrightarrow>
      \<exists>s'. alloc n s = Some (None, s') \<and> invar s' \<and> live s' = live s"
    and release_ok: "invar s \<Longrightarrow> r \<in> set (live s) \<Longrightarrow>
      \<exists>s'. release r s = Some s' \<and> invar s' \<and> live s' = remove1 r (live s)"
begin

lemma alloc_returns:
  assumes "invar s" and "valid n"
  shows "\<exists>q s'. alloc n s = Some (q, s') \<and> invar s'
    \<and> live s' = live s @ (case q of None \<Rightarrow> [] | Some r \<Rightarrow> [r])
    \<and> (q \<noteq> None \<longleftrightarrow> fits n \<and> length (live s) < cap)"
  using alloc_ok [OF assms] alloc_refused [OF assms] by (cases "fits n \<and> length (live s) < cap") fastforce+

lemma alloc_release:
  assumes "invar s" and "valid n" and "alloc n s = Some (Some r, s')"
  shows "\<exists>s''. release r s' = Some s'' \<and> invar s'' \<and> live s'' = live s"
proof -
  have "fits n \<and> length (live s) < cap" using alloc_refused assms by fastforce
  then have s': "invar s'" "r \<notin> set (live s)" "live s' = live s @ [r]"
    using alloc_ok [OF assms(1,2)] assms(3) by auto
  then obtain s'' where "release r s' = Some s''" "invar s''" "live s'' = remove1 r (live s @ [r])"
    using release_ok [of s' r] by auto
  with s' show ?thesis by (simp add: remove1_append)
qed

lemma release_makes_room:
  assumes "invar s" and "r \<in> set (live s)" and "valid n" and "fits n"
  shows "\<exists>s' r' s''. release r s = Some s' \<and> alloc n s' = Some (Some r', s'') \<and> invar s''
    \<and> live s'' = remove1 r (live s) @ [r']"
proof -
  obtain s' where s': "release r s = Some s'" "invar s'" "live s' = remove1 r (live s)"
    using release_ok [OF assms(1,2)] by blast
  have "0 < length (live s)" using assms(2) by auto
  then have "length (live s') < cap"
    using live_cap [OF assms(1)] assms(2) s'(3)
    by (simp only: length_remove1 if_True)
  with s' alloc_ok [OF s'(2) assms(3,4)] show ?thesis by fastforce
qed

end

lemma room_iff:
  assumes "pool_lists st ls fs"
  shows "(fs \<noteq> [] \<or> socount st < SO_MAX) \<longleftrightarrow> length ls < SO_MAX"
  using pool_lists_count [OF assms] assms by (cases fs) (auto simp: pool_lists_def)

lemma pool_lists_dl_err [simp]: "pool_lists (dl_err e st) ls fs = pool_lists st ls fs"
  by (rule pool_lists_cong) simp_all

text \<open>What the two operations leave alone.\<close>

definition same_but_next :: "soinfo \<Rightarrow> soinfo \<Rightarrow> bool" where
  "same_but_next a b \<longleftrightarrow> a\<lparr>so_next := None\<rparr> = b\<lparr>so_next := None\<rparr>"

lemma alloc_info_success:
  assumes "pool_inv st" and "c_string name" and "length name < SOINFO_NAME_LEN"
    and "length (loaded st) < SO_MAX"
  shows "\<exists>r st'. apkenv_alloc_info name st = Some (Some r, st') \<and> pool_inv st'
    \<and> r \<notin> set (Libdl # loaded st) \<and> loaded st' = loaded st @ [r]
    \<and> so st' r = zero_soinfo\<lparr>so_name := name\<rparr>
    \<and> (\<forall>q. q \<noteq> r \<longrightarrow> same_but_next (so st' q) (so st q)) \<and> mem st' = mem st"
proof -
  obtain ls fs where pl: "pool_lists st ls fs" using assms(1) by (auto simp: pool_inv_def)
  then have "fs \<noteq> [] \<or> socount st < SO_MAX"
    using assms(4) pool_lists_loaded room_iff by simp
  from alloc_info_ok [OF pl assms(2,3) this] obtain fl n st' where
    st': "st' = attach (next_slot st fs) name (last (Libdl # ls)) fl n st"
    and "apkenv_alloc_info name st = Some (Some (next_slot st fs), st')"
    and pl': "pool_lists st' (ls @ [next_slot st fs]) (tl fs)" and "next_slot st fs \<notin> set (Libdl # ls)"
    by auto
  moreover have "\<forall>q. q \<noteq> next_slot st fs \<longrightarrow> same_but_next (so st' q) (so st q)"
    by (simp add: st' same_but_next_def)
  moreover have "so st' (next_slot st fs) = zero_soinfo\<lparr>so_name := name\<rparr>" "mem st' = mem st"
    by (simp_all add: st')
  moreover have "pool_inv st'" using pl' pool_inv_def by blast
  ultimately show ?thesis
    using pool_lists_loaded [OF pl] pool_lists_loaded [OF pl'] by blast
qed

lemma alloc_info_failure:
  assumes "pool_inv st" and "\<not> (length name < SOINFO_NAME_LEN \<and> length (loaded st) < SO_MAX)"
  shows "\<exists>e. apkenv_alloc_info name st = Some (None, dl_err e st)"
proof (cases "length name < SOINFO_NAME_LEN")
  case True
  obtain ls fs where pl: "pool_lists st ls fs" using assms(1) by (auto simp: pool_inv_def)
  then have "\<not> (fs \<noteq> [] \<or> socount st < SO_MAX)"
    using assms(2) True pool_lists_loaded room_iff by simp
  with pl show ?thesis by (rule alloc_info_full)
next
  case False
  then show ?thesis using alloc_info_long [of name st] by auto
qed

lemma free_info_success:
  assumes "pool_inv st" and "r \<in> set (loaded st)"
  shows "\<exists>st'. apkenv_free_info r st = Some st' \<and> pool_inv st' \<and> loaded st' = remove1 r (loaded st)
    \<and> freelist st' = Some r \<and> (\<forall>q. same_but_next (so st' q) (so st q)) \<and> mem st' = mem st"
proof -
  obtain ls fs where pl: "pool_lists st ls fs" using assms(1) by (auto simp: pool_inv_def)
  then obtain p where p: "p \<noteq> r" "apkenv_free_info r st = Some (detach r p st)"
    and pl': "pool_lists (detach r p st) (remove1 r ls) (r # fs)"
    using free_info_ok [OF pl, of r] assms(2) pool_lists_loaded [OF pl] by auto
  moreover have "\<forall>q. same_but_next (so (detach r p st) q) (so st q)"
    by (simp add: detach_def same_but_next_def)
  ultimately show ?thesis
    using pool_lists_loaded [OF pl] pool_lists_loaded [OF pl'] by (auto simp: pool_inv_def)
qed

lemma pool_inv_loaded:
  assumes "pool_inv st"
  shows "distinct (loaded st)" "length (loaded st) \<le> SO_MAX" "Libdl \<notin> set (loaded st)"
    "set (loaded st) \<subseteq> Pool ` {..<SO_MAX}"
proof -
  obtain ls fs where pl: "pool_lists st ls fs" using assms(1) by (auto simp: pool_inv_def)
  with pool_lists_count [OF pl] pool_lists_not_Libdl [OF pl] pool_lists_loaded [OF pl]
  show "distinct (loaded st)" "length (loaded st) \<le> SO_MAX" "Libdl \<notin> set (loaded st)"
    by (auto simp: pool_lists_def)
  have "set (loaded st) \<subseteq> Pool ` {..<socount st}" "socount st \<le> SO_MAX"
    using pl pool_lists_loaded [OF pl] by (auto simp: pool_lists_def)
  then show "set (loaded st) \<subseteq> Pool ` {..<SO_MAX}" by fastforce
qed

lemma pool_inv_dl_err: "pool_inv st \<Longrightarrow> pool_inv (dl_err e st)"
  by (simp add: pool_inv_def)

lemma loaded_dl_err: "pool_inv st \<Longrightarrow> loaded (dl_err e st) = loaded st"
  by (metis pool_inv_def pool_lists_dl_err pool_lists_loaded)

interpretation sopool: slot_pool pool_inv loaded apkenv_alloc_info apkenv_free_info c_string
  "\<lambda>name. length name < SOINFO_NAME_LEN" SO_MAX
proof unfold_locales
  fix st :: linker and n
  assume inv: "pool_inv st"
  then show "distinct (loaded st)" "length (loaded st) \<le> SO_MAX"
    by (rule pool_inv_loaded)+
  show "\<exists>s'. apkenv_free_info r st = Some s' \<and> pool_inv s' \<and> loaded s' = remove1 r (loaded st)"
    if "r \<in> set (loaded st)" for r
    using free_info_success [OF inv that] by blast
  assume n: "c_string n"
  show "\<exists>r s'. apkenv_alloc_info n st = Some (Some r, s') \<and> pool_inv s' \<and> r \<notin> set (loaded st)
      \<and> loaded s' = loaded st @ [r]"
    if "length n < SOINFO_NAME_LEN" "length (loaded st) < SO_MAX"
    using alloc_info_success [OF inv n that] by fastforce
  show "\<exists>s'. apkenv_alloc_info n st = Some (None, s') \<and> pool_inv s' \<and> loaded s' = loaded st"
    if "\<not> (length n < SOINFO_NAME_LEN \<and> length (loaded st) < SO_MAX)"
    using alloc_info_failure [OF inv that] inv by (auto simp: pool_inv_dl_err loaded_dl_err)
qed

section \<open>States that the linker reaches\<close>

text \<open>A concrete layout of the static objects and an empty address space.\<close>

definition sa0 :: static_addresses where
  "sa0 = \<lparr>libdl_strtab = 0x1000, libdl_symtab = 0x1100, libdl_buckets = 0x1200,
     libdl_chains = 0x1300, libdl_info_at = 0x1400, sopool_at = 0x2000\<rparr>"

definition m0 :: memory where
  "m0 = \<lparr>byte_at = (\<lambda>_. 0), prot_at = (\<lambda>_. None)\<rparr>"

text \<open>
  The registry changes only through allocation and release; everything else the linker does to an
  object leaves its \<open>next\<close> field alone, and the static variables of the registry with it.
\<close>

inductive pool_step :: "linker \<Rightarrow> linker \<Rightarrow> bool" where
  step_alloc: "c_string name \<Longrightarrow> apkenv_alloc_info name st = Some (q, st') \<Longrightarrow> pool_step st st'"
| step_free: "r \<noteq> Libdl \<Longrightarrow> apkenv_free_info r st = Some st' \<Longrightarrow> pool_step st st'"
| step_other: "(\<And>r. so_next (so st' r) = so_next (so st r)) \<Longrightarrow> solist st' = solist st \<Longrightarrow>
    freelist st' = freelist st \<Longrightarrow> sonext st' = sonext st \<Longrightarrow> socount st' = socount st \<Longrightarrow>
    pool_step st st'"

inductive_cases pool_stepE: "pool_step st st'"

lemma pool_inv_static: "pool_inv (static_linker sa m)"
proof -
  have "pool_lists (static_linker sa m) [] []"
    by (simp add: pool_lists_def static_linker_def next_of_def apkenv_libdl_info_def zero_soinfo_def)
  then show ?thesis using pool_inv_def by blast
qed

lemma loaded_static: "loaded (static_linker sa m) = []"
proof -
  have "pool_lists (static_linker sa m) [] []"
    by (simp add: pool_lists_def static_linker_def next_of_def apkenv_libdl_info_def zero_soinfo_def)
  then show ?thesis by (rule pool_lists_loaded)
qed

lemma first_alloc:
  "\<exists>r st. apkenv_alloc_info ''libc.so'' (static_linker sa m) = Some (Some r, st)
     \<and> pool_inv st \<and> loaded st = [r]"
  using sopool.alloc_ok [OF pool_inv_static [of sa m], of "''libc.so''"]
  by (auto simp: SOINFO_NAME_LEN_def SO_MAX_def loaded_static)

lemma pool_inv_step: "pool_step st st' \<Longrightarrow> pool_inv st \<Longrightarrow> pool_inv st'"
proof (induction rule: pool_step.induct)
  case (step_alloc name st q st')
  then show ?case using sopool.alloc_returns [of st name] by auto
next
  case (step_free r st st')
  show ?case
  proof (cases "r \<in> set (loaded st)")
    case True
    then show ?thesis using step_free sopool.release_ok by fastforce
  next
    case False
    obtain ls fs where pl: "pool_lists st ls fs" using step_free by (auto simp: pool_inv_def)
    with False step_free have "r \<notin> set (Libdl # ls)" by (auto simp: pool_lists_loaded)
    with free_info_absent [OF pl] step_free show ?thesis by (auto simp: pool_inv_dl_err)
  qed
next
  case (step_other st' st)
  then show ?case using pool_lists_cong [of st' st] by (simp add: pool_inv_def)
qed

lemma pool_inv_reachable: "pool_step\<^sup>*\<^sup>* (static_linker sa m) st \<Longrightarrow> pool_inv st"
  by (induction rule: rtranclp_induct) (auto intro: pool_inv_static pool_inv_step)

section \<open>Properties\<close>

text \<open>
  C2. In every state that the linker reaches from its static initialisers by allocations, releases
  (of slots of the pool, whether live or not) and any other work on the objects, the registry is
  well formed: the list of loaded libraries has no repetition, holds at most \<open>SO_MAX\<close> slots of the
  pool and never the built-in object, the free list is disjoint from it, and together they are
  exactly the slots handed out so far; and \<open>do_we_have_this_handle\<close> ends with the right answer.
\<close>

theorem pool_reachable_wf:
  assumes "pool_step\<^sup>*\<^sup>* (static_linker sa m) st"
  shows "\<exists>fs. so_seq (next_of st) (solist st) (Libdl # loaded st) \<and> so_seq (next_of st) (freelist st) fs
    \<and> distinct (loaded st @ fs) \<and> set (loaded st @ fs) = Pool ` {..<socount st} \<and> socount st \<le> SO_MAX
    \<and> (\<forall>h. do_we_have_this_handle st h = Some (\<exists>r \<in> set (Libdl # loaded st). so_ptr st r = h))"
proof -
  obtain ls fs where pl: "pool_lists st ls fs"
    using pool_inv_reachable [OF assms] by (auto simp: pool_inv_def)
  with pool_lists_loaded [OF pl] do_we_have_this_handle_eq [OF pl] show ?thesis
    by (intro exI [of _ fs]) (simp add: pool_lists_def)
qed

theorem pool_reachable_wf_witness:
  "\<exists>r st. apkenv_alloc_info ''libc.so'' (static_linker sa0 m0) = Some (Some r, st)
    \<and> do_we_have_this_handle st (so_ptr st r) = Some True"
proof -
  obtain r st where st: "apkenv_alloc_info ''libc.so'' (static_linker sa0 m0) = Some (Some r, st)"
    "r \<in> set (loaded st)"
    using first_alloc [of sa0 m0] by auto
  then have "pool_step\<^sup>*\<^sup>* (static_linker sa0 m0) st"
    by (intro r_into_rtranclp step_alloc) auto
  from pool_reachable_wf [OF this] st show ?thesis by auto
qed

text \<open>
  \<open>apkenv_alloc_info\<close> on a well-formed registry returns a slot exactly when the name is shorter
  than \<open>SOINFO_NAME_LEN\<close> and fewer than \<open>SO_MAX\<close> libraries are loaded. The slot was not in use, it
  is cleared and carries the name, it becomes the last library of the list, and no other object
  changes but for its \<open>next\<close> field. Otherwise the result is NULL and only the error text changes.
\<close>

lemma alloc_info_correct:
  assumes "pool_inv st" and "c_string name"
  shows "if length name < SOINFO_NAME_LEN \<and> length (loaded st) < SO_MAX
    then \<exists>r st'. apkenv_alloc_info name st = Some (Some r, st') \<and> pool_inv st'
      \<and> r \<notin> set (Libdl # loaded st) \<and> loaded st' = loaded st @ [r]
      \<and> so st' r = zero_soinfo\<lparr>so_name := name\<rparr>
      \<and> (\<forall>q. q \<noteq> r \<longrightarrow> same_but_next (so st' q) (so st q)) \<and> mem st' = mem st
    else \<exists>e. apkenv_alloc_info name st = Some (None, dl_err e st)"
  using alloc_info_success [OF assms] alloc_info_failure [OF assms(1)] by presburger

text \<open>
  C11. Releasing a library and loading another one: \<open>apkenv_free_info\<close> of a loaded library takes
  exactly that one out of the list and leaves the order of the others; it changes no object but for
  \<open>next\<close> fields; afterwards an allocation with a name that fits always succeeds, even when the pool
  was full, and hands out the slot just released.
\<close>

theorem free_info_correct:
  assumes "pool_inv st" and "r \<in> set (loaded st)"
  shows "\<exists>st'. apkenv_free_info r st = Some st' \<and> pool_inv st' \<and> loaded st' = remove1 r (loaded st)
    \<and> (\<forall>q. same_but_next (so st' q) (so st q)) \<and> mem st' = mem st
    \<and> (\<forall>name. c_string name \<and> length name < SOINFO_NAME_LEN \<longrightarrow>
         (\<exists>st''. apkenv_alloc_info name st' = Some (Some r, st'') \<and> loaded st'' = loaded st' @ [r]))"
proof -
  obtain st' where st': "apkenv_free_info r st = Some st'" "pool_inv st'"
    "loaded st' = remove1 r (loaded st)" "freelist st' = Some r"
    "\<forall>q. same_but_next (so st' q) (so st q)" "mem st' = mem st"
    using free_info_success [OF assms] by blast
  have "\<exists>st''. apkenv_alloc_info name st' = Some (Some r, st'') \<and> loaded st'' = loaded st' @ [r]"
    if n: "c_string name" "length name < SOINFO_NAME_LEN" for name
  proof -
    obtain r' st'' where a: "apkenv_alloc_info name st' = Some (Some r', st'')"
      "loaded st'' = loaded st' @ [r']"
      using sopool.release_makes_room [OF assms n] st'(1,3) by auto
    obtain p where p: "sonext st' = Some p" and "p \<in> set (Libdl # loaded st')"
      using st'(2) pool_lists_loaded unfolding pool_inv_def pool_lists_def
      by (metis last_in_set list.distinct(1) pool_lists_def)
    moreover have "r \<notin> set (Libdl # loaded st')"
      using st'(3) assms pool_inv_loaded [OF assms(1)] by (auto simp: distinct_remove1_removeAll)
    ultimately have "p \<noteq> r" by auto
    with alloc_info_attach [OF n p st'(4)] a show ?thesis by simp
  qed
  with st' show ?thesis by blast
qed

theorem free_info_correct_witness:
  "\<exists>r st st'. apkenv_alloc_info ''libc.so'' (static_linker sa0 m0) = Some (Some r, st)
    \<and> apkenv_free_info r st = Some st' \<and> loaded st' = []"
proof -
  obtain r st where st: "apkenv_alloc_info ''libc.so'' (static_linker sa0 m0) = Some (Some r, st)"
    "pool_inv st" "loaded st = [r]"
    using first_alloc [of sa0 m0] by auto
  with free_info_correct [of st r] show ?thesis by auto
qed

end
