(* ===== verification/Elf_Lookup.thy ===== *)
theory Elf_Lookup
  imports Soinfo_Pool
begin

text \<open>
  Symbol lookup of \<open>linker/linker.c\<close>: the two hash functions, the search of a System V and of a
  GNU hash table in the memory of a library, the scopes that \<open>apkenv__do_lookup\<close> and
  \<open>apkenv_lookup\<close> go through, and the reverse lookups behind \<open>dladdr\<close>. A pointer to an
  \<open>ElfW(Sym)\<close> is its address; 0 is NULL.
\<close>

section \<open>Symbol names and their hashes\<close>

record symbol_name =
  sn_name :: string
  has_sysv_hash :: bool
  has_gnu_hash :: bool
  sysv_hash :: u32
  gnu_hash :: u32

text \<open>The initialiser \<^verbatim>\<open>{ .name = name }\<close>.\<close>

definition symbol_for :: "string \<Rightarrow> symbol_name" where
  "symbol_for name = \<lparr>sn_name = name, has_sysv_hash = False, has_gnu_hash = False,
     sysv_hash = 0, gnu_hash = 0\<rparr>"

definition sysv_round :: "u32 \<Rightarrow> char \<Rightarrow> u32" where
  "sysv_round h c =
     (let h = push_bit 4 h + of_char c; g = h AND 0xf0000000; h = h XOR g in h XOR drop_bit 24 g)"

definition gnu_round :: "u32 \<Rightarrow> char \<Rightarrow> u32" where
  "gnu_round h c = h + (push_bit 5 h + of_char c)"

text \<open>
  The functions store the hash in the structure but no code ever sets \<open>has_sysv_hash\<close> or
  \<open>has_gnu_hash\<close>, so the stored value is never read back. Both return the new structure.
\<close>

definition apkenv_sysvhash :: "symbol_name \<Rightarrow> u32 \<times> symbol_name" where
  "apkenv_sysvhash sn =
     (let sn = (if has_sysv_hash sn then sn else sn\<lparr>sysv_hash := foldl sysv_round 0 (sn_name sn)\<rparr>)
      in (sysv_hash sn, sn))"

definition apkenv_gnuhash :: "symbol_name \<Rightarrow> u32 \<times> symbol_name" where
  "apkenv_gnuhash sn =
     (let sn = (if has_gnu_hash sn then sn else sn\<lparr>gnu_hash := foldl gnu_round 5381 (sn_name sn)\<rparr>)
      in (gnu_hash sn, sn))"

section \<open>Symbols in memory\<close>

text \<open>The fields of an \<open>Elf64_Sym\<close>, 24 bytes long.\<close>

definition st_name :: "memory \<Rightarrow> u64 \<Rightarrow> u32 option" where "st_name m s = load32 m s"
definition st_info :: "memory \<Rightarrow> u64 \<Rightarrow> u8 option" where "st_info m s = load8 m (s + 4)"
definition st_shndx :: "memory \<Rightarrow> u64 \<Rightarrow> u16 option" where "st_shndx m s = load16 m (s + 6)"
definition st_value :: "memory \<Rightarrow> u64 \<Rightarrow> u64 option" where "st_value m s = load64 m (s + 8)"
definition st_size :: "memory \<Rightarrow> u64 \<Rightarrow> u64 option" where "st_size m s = load64 m (s + 16)"

definition sym_at :: "soinfo \<Rightarrow> u64 \<Rightarrow> u64" where
  "sym_at si n = so_symtab si + 24 * n"

definition SHN_UNDEF :: u16 where "SHN_UNDEF = 0"
definition STB_LOCAL :: u8 where "STB_LOCAL = 0"
definition STB_GLOBAL :: u8 where "STB_GLOBAL = 1"
definition STB_WEAK :: u8 where "STB_WEAK = 2"

definition ELF_ST_BIND :: "u8 \<Rightarrow> u8" where "ELF_ST_BIND info = drop_bit 4 info"

definition is_symbol_global_and_defined :: "memory \<Rightarrow> u64 \<Rightarrow> bool option" where
  "is_symbol_global_and_defined m s = do {
     info \<leftarrow> st_info m s;
     if ELF_ST_BIND info = STB_GLOBAL \<or> ELF_ST_BIND info = STB_WEAK
     then do { x \<leftarrow> st_shndx m s; Some (x \<noteq> SHN_UNDEF) }
     else Some False
   }"

definition is_gnu_hash :: "soinfo \<Rightarrow> bool" where
  "is_gnu_hash si = has_flag FLAG_GNU_HASH si"

text \<open>\<^verbatim>\<open>!strcmp(si->strtab + s->st_name, name) && is_symbol_global_and_defined(si, s)\<close>\<close>

definition sym_matches :: "memory \<Rightarrow> soinfo \<Rightarrow> string \<Rightarrow> u64 \<Rightarrow> bool option" where
  "sym_matches m si name s = do {
     off \<leftarrow> st_name m s;
     eq \<leftarrow> mem_streq m (so_strtab si + ucast off) name;
     if eq then is_symbol_global_and_defined m s else Some False
   }"

section \<open>Searching one library\<close>

definition bucket_at :: "memory \<Rightarrow> soinfo \<Rightarrow> u64 \<Rightarrow> u32 option" where
  "bucket_at m si b = load32 m (so_bucket si + 4 * b)"

definition chain_at :: "memory \<Rightarrow> soinfo \<Rightarrow> u32 \<Rightarrow> u32 option" where
  "chain_at m si n = load32 m (so_chain si + 4 * ucast n)"

text \<open>\<^verbatim>\<open>hash % si->nbucket\<close>: a division by zero when there is no bucket.\<close>

definition bucket_index :: "soinfo \<Rightarrow> u32 \<Rightarrow> u64 option" where
  "bucket_index si hash = (if so_nbucket si = 0 then None else Some (ucast hash mod so_nbucket si))"

partial_function (option) sysv_loop :: "memory \<Rightarrow> soinfo \<Rightarrow> string \<Rightarrow> u32 \<Rightarrow> u64 option" where
  "sysv_loop m si name n =
     (if n = 0 then Some 0
      else do {
        ok \<leftarrow> sym_matches m si name (sym_at si (ucast n));
        if ok then Some (sym_at si (ucast n))
        else do { n' \<leftarrow> chain_at m si n; sysv_loop m si name n' }
      })"

definition apkenv__elf_lookup_sysv :: "memory \<Rightarrow> soinfo \<Rightarrow> symbol_name \<Rightarrow> u64 option" where
  "apkenv__elf_lookup_sysv m si sn = do {
     let hash = fst (apkenv_sysvhash sn);
     b \<leftarrow> bucket_index si hash;
     n \<leftarrow> bucket_at m si b;
     sysv_loop m si (sn_name sn) n
   }"

partial_function (option) gnu_loop :: "memory \<Rightarrow> soinfo \<Rightarrow> string \<Rightarrow> u32 \<Rightarrow> u32 \<Rightarrow> u64 option" where
  "gnu_loop m si name hash n = do {
     c \<leftarrow> chain_at m si n;
     ok \<leftarrow> (if drop_bit 1 (c XOR hash) = 0 then sym_matches m si name (sym_at si (ucast n)) else Some False);
     if ok then Some (sym_at si (ucast n))
     else if c AND 1 = 0 then gnu_loop m si name hash (n + 1)
     else Some 0
   }"

text \<open>A shift by 32 or more of a 32-bit value is undefined.\<close>

definition apkenv__elf_lookup_gnu :: "memory \<Rightarrow> soinfo \<Rightarrow> symbol_name \<Rightarrow> u64 option" where
  "apkenv__elf_lookup_gnu m si sn = do {
     let hash = fst (apkenv_gnuhash sn);
     c_assert (so_gnu_shift2 si < 32);
     let h2 = drop_bit (unat (so_gnu_shift2 si)) hash;
     let word_num = (hash div 64) AND so_gnu_maskwords si;
     bloom_word \<leftarrow> load64 m (so_gnu_bloom_filter si + 8 * ucast word_num);
     if 1 AND drop_bit (unat (hash mod 64)) bloom_word AND drop_bit (unat (h2 mod 64)) bloom_word = 0
     then Some 0
     else do {
       b \<leftarrow> bucket_index si hash;
       n \<leftarrow> bucket_at m si b;
       if n = 0 then Some 0 else gnu_loop m si (sn_name sn) hash n
     }
   }"

definition apkenv__elf_lookup :: "memory \<Rightarrow> soinfo \<Rightarrow> symbol_name \<Rightarrow> u64 option" where
  "apkenv__elf_lookup m si sn =
     (if is_gnu_hash si then apkenv__elf_lookup_gnu m si sn else apkenv__elf_lookup_sysv m si sn)"

section \<open>Scopes\<close>

definition DT_NULL :: u64 where "DT_NULL = 0"
definition DT_NEEDED :: u64 where "DT_NEEDED = 1"

fun preload_lookup ::
  "linker \<Rightarrow> symbol_name \<Rightarrow> soref list \<Rightarrow> (u64 \<times> soref option) option" where
  "preload_lookup st sn [] = Some (0, None)"
| "preload_lookup st sn (p # ps) = do {
     s \<leftarrow> apkenv__elf_lookup (mem st) (so st p) sn;
     if s \<noteq> 0 then Some (s, Some p) else preload_lookup st sn ps
   }"

text \<open>
  The walk over the dynamic section at address \<open>d\<close>. The result \<open>Inl\<close> is the early return on a bad
  DT_NEEDED pointer. An address that passes \<open>apkenv_validate_soinfo\<close> but is not the start of an
  object (it points inside the pool) would be read as one; that is undefined and does not return.
\<close>

partial_function (option) needed_lookup ::
  "linker \<Rightarrow> symbol_name \<Rightarrow> u64 \<Rightarrow> (unit + u64 \<times> soref option) option" where
  "needed_lookup st sn d = do {
     tag \<leftarrow> load64 (mem st) d;
     if tag = DT_NULL then Some (Inr (0, None))
     else if tag = DT_NEEDED then do {
       v \<leftarrow> load64 (mem st) (d + 8);
       if \<not> apkenv_validate_soinfo st v then Some (Inl ())
       else do {
         lsi \<leftarrow> so_at st v;
         s \<leftarrow> apkenv__elf_lookup (mem st) (so st lsi) sn;
         def \<leftarrow> (if s \<noteq> 0 then do { x \<leftarrow> st_shndx (mem st) s; Some (x \<noteq> SHN_UNDEF) } else Some False);
         if def then Some (Inr (s, Some lsi)) else needed_lookup st sn (d + 16)
       }
     }
     else needed_lookup st sn (d + 16)
   }"

text \<open>
  The result is the symbol (0 for NULL) and the \<open>*base\<close> that is written when it is found. When the
  last object of the needed walk has an undefined symbol and there is no main program, the source
  keeps that \<open>s\<close>; \<open>apkenv__elf_lookup\<close> never returns an undefined symbol, so the walk's result
  says it all.
\<close>

definition apkenv__do_lookup :: "soref \<Rightarrow> string \<Rightarrow> linker \<Rightarrow> ((u64 \<times> u64) \<times> linker) option" where
  "apkenv__do_lookup si name st = do {
     let sn = symbol_for name;
     let found = (\<lambda>s lsi st. ((s, so_base (so st lsi)), st\<lparr>last_library_used := so_name (so st lsi)\<rparr>));
     s \<leftarrow> apkenv__elf_lookup (mem st) (so st si) sn;
     if s \<noteq> 0 then Some (found s si st)
     else do {
       (s, lsi) \<leftarrow> preload_lookup st sn (preloads st);
       case lsi of Some l \<Rightarrow> Some (found s l st)
       | None \<Rightarrow> do {
           r \<leftarrow> needed_lookup st sn (so_dynamic (so st si));
           case r of
             Inl _ \<Rightarrow> Some ((0, 0), dl_err (BadNeededPointer (so_name (so st si))) st)
           | Inr (s, Some l) \<Rightarrow> Some (found s l st)
           | Inr (s, None) \<Rightarrow> (case somain st of
               None \<Rightarrow> Some ((0, 0), st)
             | Some l \<Rightarrow> do {
                 s \<leftarrow> apkenv__elf_lookup (mem st) (so st l) sn;
                 if s \<noteq> 0 then Some (found s l st) else Some ((0, 0), st)
               })
         }
     }
   }"

definition apkenv_lookup_in_library :: "linker \<Rightarrow> soref \<Rightarrow> string \<Rightarrow> u64 option" where
  "apkenv_lookup_in_library st si name = apkenv__elf_lookup (mem st) (so st si) (symbol_for name)"

text \<open>\<open>apkenv_lookup\<close> returns the symbol and writes \<open>*found\<close>.\<close>

partial_function (option) lookup_loop ::
  "linker \<Rightarrow> symbol_name \<Rightarrow> soref option \<Rightarrow> (u64 \<times> soref option) option" where
  "lookup_loop st sn p = (case p of None \<Rightarrow> Some (0, None)
     | Some r \<Rightarrow>
        if has_flag FLAG_ERROR (so st r) then lookup_loop st sn (next_of st r)
        else do {
          s \<leftarrow> apkenv__elf_lookup (mem st) (so st r) sn;
          if s \<noteq> 0 then Some (s, Some r) else lookup_loop st sn (next_of st r)
        })"

definition apkenv_lookup ::
  "linker \<Rightarrow> string \<Rightarrow> soref option \<Rightarrow> (u64 \<times> soref option) option" where
  "apkenv_lookup st name start =
     lookup_loop st (symbol_for name) (if start = None then solist st else start)"

section \<open>Reverse lookups\<close>

partial_function (option) containing_library_loop ::
  "linker \<Rightarrow> u64 \<Rightarrow> soref option \<Rightarrow> soref option option" where
  "containing_library_loop st addr p = (case p of None \<Rightarrow> Some None
     | Some r \<Rightarrow>
        if so_base (so st r) \<le> addr \<and> addr - so_base (so st r) < so_size (so st r) then Some (Some r)
        else containing_library_loop st addr (next_of st r))"

definition apkenv_find_containing_library :: "linker \<Rightarrow> u64 \<Rightarrow> soref option option" where
  "apkenv_find_containing_library st addr = containing_library_loop st addr (solist st)"

definition symbol_matches_soaddr :: "memory \<Rightarrow> u64 \<Rightarrow> u64 \<Rightarrow> bool option" where
  "symbol_matches_soaddr m s soaddr = do {
     x \<leftarrow> st_shndx m s;
     if x = SHN_UNDEF then Some False
     else do {
       v \<leftarrow> st_value m s;
       if soaddr < v then Some False
       else do { sz \<leftarrow> st_size m s; Some (soaddr < v + sz) }
     }
   }"

text \<open>The argument \<open>k\<close> counts the symbols that are left.\<close>

fun containing_sysv_loop :: "memory \<Rightarrow> soinfo \<Rightarrow> u64 \<Rightarrow> nat \<Rightarrow> u64 \<Rightarrow> u64 option" where
  "containing_sysv_loop m si soaddr 0 i = Some 0"
| "containing_sysv_loop m si soaddr (Suc k) i = do {
     ok \<leftarrow> symbol_matches_soaddr m (sym_at si i) soaddr;
     if ok then Some (sym_at si i) else containing_sysv_loop m si soaddr k (i + 1)
   }"

definition apkenv_find_containing_symbol_sysv :: "memory \<Rightarrow> u64 \<Rightarrow> soinfo \<Rightarrow> u64 option" where
  "apkenv_find_containing_symbol_sysv m addr si =
     containing_sysv_loop m si (addr - so_base si) (unat (so_nchain si)) 0"

partial_function (option) containing_gnu_chain ::
  "memory \<Rightarrow> soinfo \<Rightarrow> u64 \<Rightarrow> u32 \<Rightarrow> u64 option" where
  "containing_gnu_chain m si soaddr n = do {
     ok \<leftarrow> symbol_matches_soaddr m (sym_at si (ucast n)) soaddr;
     if ok then Some (sym_at si (ucast n))
     else do {
       c \<leftarrow> chain_at m si n;
       if c AND 1 = 0 then containing_gnu_chain m si soaddr (n + 1) else Some 0
     }
   }"

text \<open>A result 0 of the inner loop goes on with the next bucket; no symbol has the address 0.\<close>

fun containing_gnu_buckets :: "memory \<Rightarrow> soinfo \<Rightarrow> u64 \<Rightarrow> nat \<Rightarrow> u64 \<Rightarrow> u64 option" where
  "containing_gnu_buckets m si soaddr 0 i = Some 0"
| "containing_gnu_buckets m si soaddr (Suc k) i = do {
     n \<leftarrow> bucket_at m si i;
     if n = 0 then containing_gnu_buckets m si soaddr k (i + 1)
     else do {
       s \<leftarrow> containing_gnu_chain m si soaddr n;
       if s \<noteq> 0 then Some s else containing_gnu_buckets m si soaddr k (i + 1)
     }
   }"

definition apkenv_find_containing_symbol_gnu :: "memory \<Rightarrow> u64 \<Rightarrow> soinfo \<Rightarrow> u64 option" where
  "apkenv_find_containing_symbol_gnu m addr si =
     containing_gnu_buckets m si (addr - so_base si) (unat (so_nbucket si)) 0"

definition apkenv_find_containing_symbol :: "memory \<Rightarrow> u64 \<Rightarrow> soinfo \<Rightarrow> u64 option" where
  "apkenv_find_containing_symbol m addr si =
     (if is_gnu_hash si then apkenv_find_containing_symbol_gnu m addr si
      else apkenv_find_containing_symbol_sysv m addr si)"

text \<open>
  \<open>bionic_dl_iterate_phdr\<close> for a callback \<open>cb\<close> of the client, which works on its own data.
\<close>

record dl_phdr_info =
  dlpi_addr :: u64
  dlpi_name :: string
  dlpi_phdr :: u64
  dlpi_phnum :: u64

definition phdr_info_of :: "soinfo \<Rightarrow> dl_phdr_info" where
  "phdr_info_of si = \<lparr>dlpi_addr = l_addr (so_linkmap si), dlpi_name = l_name (so_linkmap si),
     dlpi_phdr = so_phdr si, dlpi_phnum = so_phnum si\<rparr>"

partial_function (option) iterate_phdr_loop ::
  "(dl_phdr_info \<Rightarrow> 'd \<Rightarrow> int \<times> 'd) \<Rightarrow> linker \<Rightarrow> soref option \<Rightarrow> int \<Rightarrow> 'd \<Rightarrow> (int \<times> 'd) option" where
  "iterate_phdr_loop cb st p rv data = (case p of None \<Rightarrow> Some (rv, data)
     | Some r \<Rightarrow> (case cb (phdr_info_of (so st r)) data of (rv, data) \<Rightarrow>
         if rv \<noteq> 0 then Some (rv, data) else iterate_phdr_loop cb st (next_of st r) rv data))"

definition bionic_dl_iterate_phdr ::
  "(dl_phdr_info \<Rightarrow> 'd \<Rightarrow> int \<times> 'd) \<Rightarrow> linker \<Rightarrow> 'd \<Rightarrow> (int \<times> 'd) option" where
  "bionic_dl_iterate_phdr cb st data = iterate_phdr_loop cb st (solist st) 0 data"

section \<open>The hash functions\<close>

text \<open>The hash of the System V ABI: \<^verbatim>\<open>if ((g = h & 0xf0000000)) h ^= g >> 24; h &= ~g\<close>.\<close>

definition abi_round :: "u32 \<Rightarrow> char \<Rightarrow> u32" where
  "abi_round h c =
     (let h = push_bit 4 h + of_char c; g = h AND 0xf0000000;
          h = (if g \<noteq> 0 then h XOR drop_bit 24 g else h) in h AND NOT g)"

lemma sysv_round_eq: "sysv_round h c = abi_round h c"
proof -
  define k where "k = push_bit 4 h + (of_char c :: u32)"
  define g where "g = k AND 0xf0000000"
  have "drop_bit 24 g AND NOT g = drop_bit 24 g"
  proof (rule bit_word_eqI)
    fix n assume "n < LENGTH(32)"
    have "\<not> bit g n" if "bit g (24 + n)"
    proof -
      from that have "24 + n < 32" using bit_imp_le_length by fastforce
      then have "n \<in> {0,1,2,3,4,5,6,7}" by auto
      then show ?thesis by (auto simp: g_def bit_simps bit_numeral_rec)
    qed
    with \<open>n < LENGTH(32)\<close> show "bit (drop_bit 24 g AND NOT g) n \<longleftrightarrow> bit (drop_bit 24 g) n"
      by (auto simp: bit_simps)
  qed
  then have "(k XOR g) XOR drop_bit 24 g = (k XOR drop_bit 24 g) AND NOT g"
    unfolding g_def by (intro bit_word_eqI) (auto simp: bit_simps bit_eq_iff)
  then show ?thesis
    unfolding sysv_round_def abi_round_def Let_def k_def [symmetric] g_def [symmetric]
    by (cases "g = 0") simp_all
qed

lemma abi_round_bound: "abi_round h c < 2 ^ 28"
proof -
  define k where "k = push_bit 4 h + (of_char c :: u32)"
  define g where "g = k AND 0xf0000000"
  define x where "x = abi_round h c"
  have x: "x = (k XOR drop_bit 24 g) AND NOT g"
    unfolding x_def abi_round_def Let_def k_def [symmetric] g_def [symmetric] by (cases "g = 0") simp_all
  have "take_bit 28 x = x"
  proof (rule bit_word_eqI)
    fix n assume "n < LENGTH(32)"
    have "28 \<le> n \<longrightarrow> \<not> bit x n"
    proof
      assume "28 \<le> n"
      with \<open>n < LENGTH(32)\<close> have "n \<in> {28,29,30,31}" by auto
      then show "\<not> bit x n" unfolding x g_def by (auto simp: bit_simps bit_numeral_rec dest: bit_imp_le_length)
    qed
    then show "bit (take_bit 28 x) n \<longleftrightarrow> bit x n" by (auto simp: bit_simps not_le)
  qed
  then have "unat x = take_bit 28 (unat x)" by (metis unsigned_take_bit_eq)
  then have "unat x < 2 ^ 28" by (metis take_bit_nat_less_exp)
  then show ?thesis unfolding x_def by (simp add: word_less_nat_alt)
qed

lemma sysv_fold_eq: "foldl sysv_round h s = foldl abi_round h s"
  by (induction s arbitrary: h) (simp_all add: sysv_round_eq)

lemma abi_fold_bound: "h < 2 ^ 28 \<Longrightarrow> foldl abi_round h s < 2 ^ 28"
proof (induction s arbitrary: h)
  case (Cons c s)
  then show ?case using Cons.IH [OF abi_round_bound] by simp
qed simp

lemma gnu_fold_eq:
  "foldl gnu_round h s =
     h * 33 ^ length s + (\<Sum>i<length s. of_char (s ! i) * 33 ^ (length s - 1 - i))"
proof (induction s rule: rev_induct)
  case Nil
  then show ?case by simp
next
  case (snoc c s)
  have r: "gnu_round k c = 33 * k + of_char c" for k
    by (simp add: gnu_round_def push_bit_eq_mult)
  have "(\<Sum>i<length s. of_char ((s @ [c]) ! i) * 33 ^ (length s - i) :: u32)
      = 33 * (\<Sum>i<length s. of_char (s ! i) * 33 ^ (length s - 1 - i))"
    unfolding sum_distrib_left
  proof (rule sum.cong)
    fix i assume "i \<in> {..<length s}"
    then have "length s - i = Suc (length s - 1 - i)" "(s @ [c]) ! i = s ! i"
      by (auto simp: nth_append)
    then show "(of_char ((s @ [c]) ! i) * 33 ^ (length s - i) :: u32)
        = 33 * (of_char (s ! i) * 33 ^ (length s - 1 - i))"
      by simp
  qed simp
  with snoc r show ?case by (simp add: algebra_simps)
qed

section \<open>What a table offers\<close>

text \<open>
  \<open>sym_str\<close> is the name of symbol \<open>n\<close>, \<open>exported\<close> says that it is a defined global or weak symbol
  of that name, and \<open>sym_ok\<close> that the entry and its name can be read.
\<close>

definition sym_str :: "memory \<Rightarrow> soinfo \<Rightarrow> u32 \<Rightarrow> string option" where
  "sym_str m si n = do { off \<leftarrow> st_name m (sym_at si (ucast n)); mem_str m (so_strtab si + ucast off) }"

definition exported :: "memory \<Rightarrow> soinfo \<Rightarrow> string \<Rightarrow> u32 \<Rightarrow> bool" where
  "exported m si name n \<longleftrightarrow> sym_str m si n = Some name
     \<and> is_symbol_global_and_defined m (sym_at si (ucast n)) = Some True"

definition sym_ok :: "memory \<Rightarrow> soinfo \<Rightarrow> u32 \<Rightarrow> bool" where
  "sym_ok m si n \<longleftrightarrow> sym_str m si n \<noteq> None
     \<and> is_symbol_global_and_defined m (sym_at si (ucast n)) \<noteq> None \<and> sym_at si (ucast n) \<noteq> 0"

lemma sym_matches_eq:
  assumes "sym_ok m si n" and "c_string name"
  shows "sym_matches m si name (sym_at si (ucast n)) = Some (exported m si name n)"
proof -
  obtain off t d where "st_name m (sym_at si (ucast n)) = Some off"
    "mem_str m (so_strtab si + ucast off) = Some t"
    "is_symbol_global_and_defined m (sym_at si (ucast n)) = Some d"
    using assms(1) by (auto simp: sym_ok_def sym_str_def split: bind_splits)
  with mem_streq_mem_str [of m _ t name] assms(2) show ?thesis
    by (simp add: sym_matches_def exported_def sym_str_def)
qed

text \<open>The answer of a search through the symbols \<open>xs\<close>, in order.\<close>

definition first_exported :: "memory \<Rightarrow> soinfo \<Rightarrow> string \<Rightarrow> u32 list \<Rightarrow> u64" where
  "first_exported m si name xs =
     (case find (exported m si name) xs of None \<Rightarrow> 0 | Some n \<Rightarrow> sym_at si (ucast n))"

definition found_or_absent :: "memory \<Rightarrow> soinfo \<Rightarrow> u32 set \<Rightarrow> string \<Rightarrow> u64 \<Rightarrow> bool" where
  "found_or_absent m si I name s \<longleftrightarrow>
     (if s = 0 then \<forall>n \<in> I. \<not> exported m si name n
      else \<exists>n \<in> I. exported m si name n \<and> s = sym_at si (ucast n))"

lemma first_exported_found:
  assumes "set xs \<subseteq> I" and "\<forall>n \<in> I. sym_ok m si n"
    and "\<And>n. n \<in> I \<Longrightarrow> exported m si name n \<Longrightarrow> n \<in> set xs"
  shows "found_or_absent m si I name (first_exported m si name xs)"
proof (cases "find (exported m si name) xs")
  case None
  moreover from None have "\<forall>n \<in> I. \<not> exported m si name n"
    using assms(3) by (auto simp: find_None_iff)
  ultimately show ?thesis by (simp add: first_exported_def found_or_absent_def)
next
  case (Some n)
  then have "n \<in> set xs" "exported m si name n" by (auto simp: find_Some_iff)
  with assms Some show ?thesis
    by (auto simp: first_exported_def found_or_absent_def sym_ok_def)
qed

subsection \<open>System V tables\<close>

primrec sysv_path :: "memory \<Rightarrow> soinfo \<Rightarrow> u32 \<Rightarrow> u32 list \<Rightarrow> bool" where
  "sysv_path m si n [] \<longleftrightarrow> n = 0"
| "sysv_path m si n (x # xs) \<longleftrightarrow> n = x \<and> x \<noteq> 0
     \<and> (case chain_at m si x of None \<Rightarrow> False | Some n' \<Rightarrow> sysv_path m si n' xs)"

lemma sysv_loop_eq:
  "sysv_path m si n xs \<Longrightarrow> \<forall>x \<in> set xs. sym_ok m si x \<Longrightarrow> c_string name \<Longrightarrow>
     sysv_loop m si name n = Some (first_exported m si name xs)"
proof (induction xs arbitrary: n)
  case Nil
  then show ?case by (subst sysv_loop.simps) (simp add: first_exported_def)
next
  case (Cons x xs)
  then have "sym_matches m si name (sym_at si (ucast x)) = Some (exported m si name x)"
    by (intro sym_matches_eq) simp_all
  with Cons show ?case
    by (subst sysv_loop.simps) (auto simp: first_exported_def split: option.splits)
qed

definition sysv_hash_of :: "string \<Rightarrow> u32" where
  "sysv_hash_of name = fst (apkenv_sysvhash (symbol_for name))"

text \<open>
  \<open>sysv_table m si I\<close>: every bucket leads through symbols of \<open>I\<close> to the end, and an exported
  symbol of \<open>I\<close> is in the bucket of its name.
\<close>

definition sysv_bucket :: "memory \<Rightarrow> soinfo \<Rightarrow> u32 set \<Rightarrow> u64 \<Rightarrow> bool" where
  "sysv_bucket m si I b \<longleftrightarrow> (\<exists>n xs. bucket_at m si b = Some n \<and> sysv_path m si n xs \<and> set xs \<subseteq> I
     \<and> (\<forall>x \<in> I. \<forall>name. exported m si name x \<and> ucast (sysv_hash_of name) mod so_nbucket si = b
          \<longrightarrow> x \<in> set xs))"

definition sysv_table :: "memory \<Rightarrow> soinfo \<Rightarrow> u32 set \<Rightarrow> bool" where
  "sysv_table m si I \<longleftrightarrow> so_nbucket si \<noteq> 0 \<and> (\<forall>n \<in> I. sym_ok m si n)
     \<and> (\<forall>b < so_nbucket si. sysv_bucket m si I b)"

lemma bucket_index_less:
  "so_nbucket si \<noteq> 0 \<Longrightarrow> bucket_index si h = Some (ucast h mod so_nbucket si)
     \<and> ucast h mod so_nbucket si < so_nbucket si"
  by (simp add: bucket_index_def word_mod_less_divisor word_gt_0)

lemma lookup_sysv_table:
  assumes "sysv_table m si I" and "c_string name"
  shows "\<exists>s. apkenv__elf_lookup_sysv m si (symbol_for name) = Some s \<and> found_or_absent m si I name s"
proof -
  let ?b = "ucast (sysv_hash_of name) mod so_nbucket si"
  have b: "bucket_index si (sysv_hash_of name) = Some ?b" "?b < so_nbucket si"
    using assms(1) bucket_index_less by (auto simp: sysv_table_def)
  then obtain n xs where n: "bucket_at m si ?b = Some n" "sysv_path m si n xs" "set xs \<subseteq> I"
    and all: "\<And>x. x \<in> I \<Longrightarrow> exported m si name x \<Longrightarrow> x \<in> set xs"
    using assms(1) unfolding sysv_table_def sysv_bucket_def by metis
  have ok: "\<forall>x \<in> I. sym_ok m si x" using assms(1) by (simp add: sysv_table_def)
  with n(2,3) assms(2) have "sysv_loop m si name n = Some (first_exported m si name xs)"
    by (intro sysv_loop_eq) auto
  with b n have "apkenv__elf_lookup_sysv m si (symbol_for name) = Some (first_exported m si name xs)"
    by (simp add: apkenv__elf_lookup_sysv_def sysv_hash_of_def symbol_for_def)
  with first_exported_found [OF n(3) ok all] show ?thesis by blast
qed

subsection \<open>GNU tables\<close>

primrec gnu_run :: "memory \<Rightarrow> soinfo \<Rightarrow> u32 \<Rightarrow> u32 list \<Rightarrow> bool" where
  "gnu_run m si n [] \<longleftrightarrow> False"
| "gnu_run m si n (x # xs) \<longleftrightarrow> n = x \<and>
     (case chain_at m si x of None \<Rightarrow> False
      | Some c \<Rightarrow> if c AND 1 = 0 then gnu_run m si (n + 1) xs else xs = [])"

definition chain_hash_ok :: "memory \<Rightarrow> soinfo \<Rightarrow> u32 \<Rightarrow> u32 \<Rightarrow> bool" where
  "chain_hash_ok m si hash n \<longleftrightarrow>
     (case chain_at m si n of None \<Rightarrow> False | Some c \<Rightarrow> drop_bit 1 (c XOR hash) = 0)"

lemma gnu_loop_eq:
  "gnu_run m si n xs \<Longrightarrow> \<forall>x \<in> set xs. sym_ok m si x \<Longrightarrow> c_string name \<Longrightarrow>
   \<forall>x \<in> set xs. exported m si name x \<longrightarrow> chain_hash_ok m si hash x \<Longrightarrow>
     gnu_loop m si name hash n = Some (first_exported m si name xs)"
proof (induction xs arbitrary: n)
  case Nil
  then show ?case by simp
next
  case (Cons x xs)
  then have mt: "sym_matches m si name (sym_at si (ucast x)) = Some (exported m si name x)"
    by (intro sym_matches_eq) simp_all
  obtain c where c: "chain_at m si x = Some c" "n = x"
    "if c AND 1 = 0 then gnu_run m si (n + 1) xs else xs = []"
    using Cons.prems(1) by (auto split: option.splits)
  have "exported m si name x \<Longrightarrow> drop_bit 1 (c XOR hash) = 0"
    using Cons.prems(4) c(1) by (simp add: chain_hash_ok_def)
  with mt c Cons show ?case
    by (subst gnu_loop.simps) (auto simp: first_exported_def split: if_splits)
qed

definition gnu_hash_of :: "string \<Rightarrow> u32" where
  "gnu_hash_of name = fst (apkenv_gnuhash (symbol_for name))"

definition bloom_word :: "memory \<Rightarrow> soinfo \<Rightarrow> u32 \<Rightarrow> u64 option" where
  "bloom_word m si hash =
     load64 m (so_gnu_bloom_filter si + 8 * ucast ((hash div 64) AND so_gnu_maskwords si))"

definition bloom_has :: "memory \<Rightarrow> soinfo \<Rightarrow> u32 \<Rightarrow> bool" where
  "bloom_has m si hash \<longleftrightarrow> (case bloom_word m si hash of None \<Rightarrow> False
     | Some w \<Rightarrow> bit w (unat (hash mod 64))
         \<and> bit w (unat (drop_bit (unat (so_gnu_shift2 si)) hash mod 64)))"

lemma bloom_test: "1 AND drop_bit a w AND drop_bit b w = 0 \<longleftrightarrow> \<not> (bit w a \<and> bit w (b :: nat))"
  for w :: u64
proof
  assume "1 AND drop_bit a w AND drop_bit b w = 0"
  then have "\<not> bit (1 AND drop_bit a w AND drop_bit b w) 0" by simp
  then show "\<not> (bit w a \<and> bit w b)" by (simp add: bit_simps)
next
  assume "\<not> (bit w a \<and> bit w b)"
  then show "1 AND drop_bit a w AND drop_bit b w = 0"
    by (intro bit_word_eqI) (auto simp: bit_simps)
qed

lemma unat_mod_less_64 [simp]: "unat (h mod 64 :: u32) < 64"
  by (simp add: unat_mod)

definition gnu_bucket :: "memory \<Rightarrow> soinfo \<Rightarrow> u32 set \<Rightarrow> u64 \<Rightarrow> bool" where
  "gnu_bucket m si I b \<longleftrightarrow> (\<exists>n xs. bucket_at m si b = Some n
     \<and> (if n = 0 then xs = [] else gnu_run m si n xs) \<and> set xs \<subseteq> I
     \<and> (\<forall>x \<in> I. \<forall>name. exported m si name x \<and> ucast (gnu_hash_of name) mod so_nbucket si = b
          \<longrightarrow> x \<in> set xs))"

text \<open>
  \<open>gnu_table m si I\<close>: as above, and the Bloom filter and the chain words know the hash of every
  exported symbol. Nothing is asked of the filter for names that are not exported.
\<close>

definition gnu_table :: "memory \<Rightarrow> soinfo \<Rightarrow> u32 set \<Rightarrow> bool" where
  "gnu_table m si I \<longleftrightarrow> so_nbucket si \<noteq> 0 \<and> so_gnu_shift2 si < 32 \<and> (\<forall>n \<in> I. sym_ok m si n)
     \<and> (\<forall>h. bloom_word m si h \<noteq> None) \<and> (\<forall>b < so_nbucket si. gnu_bucket m si I b)
     \<and> (\<forall>n \<in> I. \<forall>name. exported m si name n \<longrightarrow>
          bloom_has m si (gnu_hash_of name) \<and> chain_hash_ok m si (gnu_hash_of name) n)"

lemma lookup_gnu_table:
  assumes "gnu_table m si I" and "c_string name"
  shows "\<exists>s. apkenv__elf_lookup_gnu m si (symbol_for name) = Some s \<and> found_or_absent m si I name s"
proof -
  let ?h = "gnu_hash_of name"
  let ?b = "ucast ?h mod so_nbucket si"
  have h: "fst (apkenv_gnuhash (symbol_for name)) = ?h" "sn_name (symbol_for name) = name"
    by (simp_all add: gnu_hash_of_def symbol_for_def)
  obtain w where w: "bloom_word m si ?h = Some w"
    using assms(1) by (metis gnu_table_def option.exhaust)
  have s2: "so_gnu_shift2 si < 32" using assms(1) by (simp add: gnu_table_def)
  have b: "bucket_index si ?h = Some ?b" "?b < so_nbucket si"
    using assms(1) bucket_index_less by (auto simp: gnu_table_def)
  then obtain n xs where n: "bucket_at m si ?b = Some n"
    "if n = 0 then xs = [] else gnu_run m si n xs" "set xs \<subseteq> I"
    and all: "\<And>x. x \<in> I \<Longrightarrow> exported m si name x \<Longrightarrow> x \<in> set xs"
    using assms(1) unfolding gnu_table_def gnu_bucket_def by metis
  have ok: "\<forall>x \<in> I. sym_ok m si x" using assms(1) by (simp add: gnu_table_def)
  have known: "\<forall>x \<in> I. exported m si name x \<longrightarrow> bloom_has m si ?h \<and> chain_hash_ok m si ?h x"
    using assms(1) by (simp add: gnu_table_def)
  show ?thesis
  proof (cases "bloom_has m si ?h")
    case False
    then have "apkenv__elf_lookup_gnu m si (symbol_for name) = Some 0"
      using w s2 h by (simp add: apkenv__elf_lookup_gnu_def bloom_has_def bloom_word_def bloom_test)
    moreover have "found_or_absent m si I name 0" using False known by (auto simp: found_or_absent_def)
    ultimately show ?thesis by blast
  next
    case True
    have "apkenv__elf_lookup_gnu m si (symbol_for name) =
        (if n = 0 then Some 0 else gnu_loop m si name ?h n)"
      using True w s2 h b n(1)
      by (simp add: apkenv__elf_lookup_gnu_def bloom_has_def bloom_word_def bloom_test)
    also have "\<dots> = Some (first_exported m si name xs)"
    proof (cases "n = 0")
      case False
      then show ?thesis using n(2,3) ok known assms(2) by (auto intro!: gnu_loop_eq)
    qed (use n(2) in \<open>simp add: first_exported_def\<close>)
    finally show ?thesis using first_exported_found [OF n(3) ok all] by blast
  qed
qed

section \<open>The contract of a symbol table\<close>

text \<open>
  What the callers of a lookup rely on, whatever the style of the hash table: on a well-formed
  table with the symbols \<open>I\<close> the search returns, with a symbol of \<open>I\<close> that exports the name, or with
  NULL when there is none.
\<close>

locale symbol_table =
  fixes lookup_sym :: "memory \<Rightarrow> soinfo \<Rightarrow> symbol_name \<Rightarrow> u64 option"
    and tab :: "memory \<Rightarrow> soinfo \<Rightarrow> u32 set \<Rightarrow> bool"
  assumes lookup_spec: "tab m si I \<Longrightarrow> c_string name \<Longrightarrow>
    \<exists>s. lookup_sym m si (symbol_for name) = Some s \<and> found_or_absent m si I name s"
begin

lemma lookup_zero_iff:
  assumes "tab m si I" and "c_string name"
  shows "lookup_sym m si (symbol_for name) = Some 0 \<longleftrightarrow> (\<forall>n \<in> I. \<not> exported m si name n)"
proof -
  obtain s where s: "lookup_sym m si (symbol_for name) = Some s" "found_or_absent m si I name s"
    using lookup_spec [OF assms] by blast
  then show ?thesis by (auto simp: found_or_absent_def split: if_splits)
qed

lemma lookup_unique:
  assumes "tab m si I" and "c_string name" and "n \<in> I" and "exported m si name n"
    and "\<And>k. k \<in> I \<Longrightarrow> exported m si name k \<Longrightarrow> k = n"
  shows "lookup_sym m si (symbol_for name) = Some (sym_at si (ucast n))"
proof -
  obtain s where s: "lookup_sym m si (symbol_for name) = Some s" "found_or_absent m si I name s"
    using lookup_spec [OF assms(1,2)] by blast
  from s(2) assms(3,4) obtain k where "k \<in> I" "exported m si name k" "s = sym_at si (ucast k)"
    by (auto simp: found_or_absent_def split: if_splits)
  with assms(5) s(1) show ?thesis by metis
qed

lemma lookup_found:
  assumes "tab m si I" and "c_string name" and "lookup_sym m si (symbol_for name) = Some s" and "s \<noteq> 0"
  shows "\<exists>n \<in> I. exported m si name n \<and> s = sym_at si (ucast n)"
  using lookup_spec [OF assms(1,2)] assms(3,4) by (auto simp: found_or_absent_def)

end

interpretation sysv: symbol_table apkenv__elf_lookup_sysv sysv_table
  by unfold_locales (rule lookup_sysv_table)

interpretation gnu: symbol_table apkenv__elf_lookup_gnu gnu_table
  by unfold_locales (rule lookup_gnu_table)

definition elf_table :: "memory \<Rightarrow> soinfo \<Rightarrow> u32 set \<Rightarrow> bool" where
  "elf_table m si I = (if is_gnu_hash si then gnu_table m si I else sysv_table m si I)"

interpretation elf: symbol_table apkenv__elf_lookup elf_table
proof unfold_locales
  fix m si I name
  assume "elf_table m si I" and "c_string name"
  then show "\<exists>s. apkenv__elf_lookup m si (symbol_for name) = Some s \<and> found_or_absent m si I name s"
    using sysv.lookup_spec [of m si I name] gnu.lookup_spec [of m si I name]
    unfolding apkenv__elf_lookup_def elf_table_def by presburger
qed

section \<open>Scopes search in order\<close>

definition provides :: "linker \<Rightarrow> (soref \<Rightarrow> u32 set) \<Rightarrow> string \<Rightarrow> soref \<Rightarrow> bool" where
  "provides st syms name r \<longleftrightarrow> (\<exists>n \<in> syms r. exported (mem st) (so st r) name n)"

definition provided_by :: "linker \<Rightarrow> (soref \<Rightarrow> u32 set) \<Rightarrow> string \<Rightarrow> soref \<Rightarrow> u64 \<Rightarrow> bool" where
  "provided_by st syms name r s \<longleftrightarrow> s \<noteq> 0 \<and>
     (\<exists>n \<in> syms r. exported (mem st) (so st r) name n \<and> s = sym_at (so st r) (ucast n))"

definition lib_ok :: "linker \<Rightarrow> (soref \<Rightarrow> u32 set) \<Rightarrow> soref \<Rightarrow> bool" where
  "lib_ok st syms r \<longleftrightarrow> elf_table (mem st) (so st r) (syms r)"

lemma lookup_one:
  assumes "lib_ok st syms r" and "c_string name"
  shows "\<exists>s. apkenv__elf_lookup (mem st) (so st r) (symbol_for name) = Some s
    \<and> (s \<noteq> 0 \<longleftrightarrow> provides st syms name r) \<and> (s \<noteq> 0 \<longrightarrow> provided_by st syms name r s)"
proof -
  have t: "elf_table (mem st) (so st r) (syms r)" using assms(1) by (simp add: lib_ok_def)
  obtain s where s: "apkenv__elf_lookup (mem st) (so st r) (symbol_for name) = Some s"
    using elf.lookup_spec [OF t assms(2)] by blast
  with elf.lookup_zero_iff [OF t assms(2)] elf.lookup_found [OF t assms(2) s] show ?thesis
    by (intro exI [of _ s]) (auto simp: provides_def provided_by_def)
qed

lemma exported_defined:
  "exported m si name n \<Longrightarrow> \<exists>x. st_shndx m (sym_at si (ucast n)) = Some x \<and> x \<noteq> SHN_UNDEF"
  by (auto simp: exported_def is_symbol_global_and_defined_def split: bind_splits if_splits)

lemma preload_lookup_eq:
  assumes "\<forall>p \<in> set ps. lib_ok st syms p" and "c_string name"
  shows "\<exists>s. preload_lookup st (symbol_for name) ps = Some (s, find (provides st syms name) ps)
    \<and> (\<forall>r. find (provides st syms name) ps = Some r \<longrightarrow> provided_by st syms name r s)"
  using assms(1)
proof (induction ps)
  case (Cons p ps)
  with lookup_one [OF _ assms(2), of st syms p] show ?case by auto
qed simp

definition usable :: "linker \<Rightarrow> (soref \<Rightarrow> u32 set) \<Rightarrow> string \<Rightarrow> soref \<Rightarrow> bool" where
  "usable st syms name r \<longleftrightarrow> \<not> has_flag FLAG_ERROR (so st r) \<and> provides st syms name r"

lemma lookup_loop_eq:
  assumes "so_seq (next_of st) p rs" and "c_string name"
    and "\<forall>r \<in> set rs. \<not> has_flag FLAG_ERROR (so st r) \<longrightarrow> lib_ok st syms r"
  shows "\<exists>s. lookup_loop st (symbol_for name) p = Some (s, find (usable st syms name) rs)
    \<and> (case find (usable st syms name) rs of None \<Rightarrow> s = 0 | Some r \<Rightarrow> provided_by st syms name r s)"
  using assms(1,3)
proof (induction rs arbitrary: p)
  case Nil
  then show ?case by (subst lookup_loop.simps) simp
next
  case (Cons r rs)
  then obtain s where IH: "lookup_loop st (symbol_for name) (next_of st r) = Some (s, find (usable st syms name) rs)"
    "case find (usable st syms name) rs of None \<Rightarrow> s = 0 | Some r \<Rightarrow> provided_by st syms name r s"
    by fastforce
  show ?case
  proof (cases "has_flag FLAG_ERROR (so st r)")
    case True
    then have "\<not> usable st syms name r" by (simp add: usable_def)
    with True Cons.prems(1) IH show ?thesis by (subst lookup_loop.simps) auto
  next
    case False
    then obtain s' where s': "apkenv__elf_lookup (mem st) (so st r) (symbol_for name) = Some s'"
      "s' \<noteq> 0 \<longleftrightarrow> usable st syms name r" "s' \<noteq> 0 \<longrightarrow> provided_by st syms name r s'"
      using lookup_one [OF _ assms(2), of st syms r] Cons.prems(2) by (auto simp: usable_def)
    with False Cons.prems(1) IH show ?thesis by (subst lookup_loop.simps) auto
  qed
qed

text \<open>The dynamic section at \<open>d\<close>: its entries up to the DT_NULL.\<close>

primrec dyn_seq :: "memory \<Rightarrow> u64 \<Rightarrow> (u64 \<times> u64) list \<Rightarrow> bool" where
  "dyn_seq m d [] \<longleftrightarrow> load64 m d = Some DT_NULL"
| "dyn_seq m d (e # ds) \<longleftrightarrow> load64 m d = Some (fst e) \<and> fst e \<noteq> DT_NULL
     \<and> load64 m (d + 8) = Some (snd e) \<and> dyn_seq m (d + 16) ds"

definition needed_ptrs :: "(u64 \<times> u64) list \<Rightarrow> u64 list" where
  "needed_ptrs ds = map snd (filter (\<lambda>e. fst e = DT_NEEDED) ds)"

lemma needed_lookup_eq:
  assumes "dyn_seq (mem st) d ds" and "map (so_at st) (needed_ptrs ds) = map Some ls"
    and "\<forall>v \<in> set (needed_ptrs ds). apkenv_validate_soinfo st v"
    and "\<forall>r \<in> set ls. lib_ok st syms r" and "c_string name"
  shows "\<exists>s. needed_lookup st (symbol_for name) d = Some (Inr (s, find (provides st syms name) ls))
    \<and> (\<forall>r. find (provides st syms name) ls = Some r \<longrightarrow> provided_by st syms name r s)"
  using assms(1-4)
proof (induction ds arbitrary: d ls)
  case Nil
  then show ?case by (subst needed_lookup.simps) (simp add: needed_ptrs_def)
next
  case (Cons e ds)
  show ?case
  proof (cases "fst e = DT_NEEDED")
    case False
    with Cons.prems Cons.IH [of "d + 16" ls] show ?thesis
      by (subst needed_lookup.simps) (simp add: needed_ptrs_def)
  next
    case True
    then obtain l ls' where l: "ls = l # ls'" "so_at st (snd e) = Some l"
      "map (so_at st) (needed_ptrs ds) = map Some ls'" "apkenv_validate_soinfo st (snd e)"
      using Cons.prems(2,3) by (auto simp: needed_ptrs_def)
    obtain s where s: "apkenv__elf_lookup (mem st) (so st l) (symbol_for name) = Some s"
      "s \<noteq> 0 \<longleftrightarrow> provides st syms name l" "s \<noteq> 0 \<longrightarrow> provided_by st syms name l s"
      using lookup_one [OF _ assms(5), of st syms l] Cons.prems(4) l(1) by auto
    have "s \<noteq> 0 \<Longrightarrow> \<exists>x. st_shndx (mem st) s = Some x \<and> x \<noteq> SHN_UNDEF"
      using s(3) exported_defined by (auto simp: provided_by_def)
    with True s l Cons.prems Cons.IH [of "d + 16" ls'] show ?thesis
      by (subst needed_lookup.simps) (fastforce simp: needed_ptrs_def DT_NEEDED_def DT_NULL_def)
  qed
qed

lemma find_map: "find P (map f xs) = map_option f (find (\<lambda>x. P (f x)) xs)"
  by (induction xs) auto

text \<open>The scope of \<open>apkenv__do_lookup\<close>: the library itself, the preloads, its needed libraries, main.\<close>

definition lookup_scope :: "linker \<Rightarrow> soref \<Rightarrow> soref list \<Rightarrow> soref list" where
  "lookup_scope st si needed =
     si # preloads st @ needed @ (case somain st of None \<Rightarrow> [] | Some l \<Rightarrow> [l])"

definition needed_ok :: "linker \<Rightarrow> soref \<Rightarrow> (u64 \<times> u64) list \<Rightarrow> soref list \<Rightarrow> bool" where
  "needed_ok st si ds ls \<longleftrightarrow> dyn_seq (mem st) (so_dynamic (so st si)) ds
     \<and> map (so_at st) (needed_ptrs ds) = map Some ls
     \<and> (\<forall>v \<in> set (needed_ptrs ds). apkenv_validate_soinfo st v)"

definition lookup_result :: "linker \<Rightarrow> soref option \<Rightarrow> u64 \<Rightarrow> (u64 \<times> u64) \<times> linker" where
  "lookup_result st q s = (case q of None \<Rightarrow> ((0, 0), st)
     | Some l \<Rightarrow> ((s, so_base (so st l)), st\<lparr>last_library_used := so_name (so st l)\<rparr>))"

lemma find_append: "find P (xs @ ys) = (case find P xs of None \<Rightarrow> find P ys | Some x \<Rightarrow> Some x)"
  by (induction xs) auto

lemma do_lookup_scope:
  assumes ok: "\<forall>r \<in> set (lookup_scope st si ls). lib_ok st syms r" and name: "c_string name"
    and nd: "needed_ok st si ds ls"
  shows "\<exists>s. apkenv__do_lookup si name st =
      Some (lookup_result st (find (provides st syms name) (lookup_scope st si ls)) s)
    \<and> (\<forall>r. find (provides st syms name) (lookup_scope st si ls) = Some r \<longrightarrow> provided_by st syms name r s)"
proof -
  let ?P = "provides st syms name"
  obtain s1 where s1: "apkenv__elf_lookup (mem st) (so st si) (symbol_for name) = Some s1"
    "s1 \<noteq> 0 \<longleftrightarrow> ?P si" "s1 \<noteq> 0 \<longrightarrow> provided_by st syms name si s1"
    using lookup_one [OF _ name, of st syms si] ok by (auto simp: lookup_scope_def)
  obtain s2 where s2: "preload_lookup st (symbol_for name) (preloads st) = Some (s2, find ?P (preloads st))"
    "\<forall>r. find ?P (preloads st) = Some r \<longrightarrow> provided_by st syms name r s2"
    using preload_lookup_eq [OF _ name, of "preloads st" st syms] ok by (auto simp: lookup_scope_def)
  obtain s3 where s3: "needed_lookup st (symbol_for name) (so_dynamic (so st si)) = Some (Inr (s3, find ?P ls))"
    "\<forall>r. find ?P ls = Some r \<longrightarrow> provided_by st syms name r s3"
    using needed_lookup_eq [OF _ _ _ _ name, of st "so_dynamic (so st si)" ds ls syms] ok nd
    by (auto simp: lookup_scope_def needed_ok_def)
  show ?thesis
  proof (cases "?P si \<or> find ?P (preloads st) \<noteq> None \<or> find ?P ls \<noteq> None")
    case True
    with s1 s2 s3 show ?thesis
      by (auto simp: apkenv__do_lookup_def lookup_result_def lookup_scope_def find_append
          split: option.splits)
  next
    case False
    then have none: "s1 = 0" "find ?P (preloads st) = None" "find ?P ls = None" using s1(2) by auto
    show ?thesis
    proof (cases "somain st")
      case None
      with none s1 s2 s3 False show ?thesis
        by (auto simp: apkenv__do_lookup_def lookup_result_def lookup_scope_def find_append)
    next
      case (Some l)
      then obtain s4 where s4: "apkenv__elf_lookup (mem st) (so st l) (symbol_for name) = Some s4"
        "s4 \<noteq> 0 \<longleftrightarrow> ?P l" "s4 \<noteq> 0 \<longrightarrow> provided_by st syms name l s4"
        using lookup_one [OF _ name, of st syms l] ok by (auto simp: lookup_scope_def)
      with Some none s1 s2 s3 False show ?thesis
        by (auto simp: apkenv__do_lookup_def lookup_result_def lookup_scope_def find_append)
    qed
  qed
qed

section \<open>Addresses\<close>

definition contains :: "linker \<Rightarrow> u64 \<Rightarrow> soref \<Rightarrow> bool" where
  "contains st addr r \<longleftrightarrow> so_base (so st r) \<le> addr \<and> addr - so_base (so st r) < so_size (so st r)"

lemma containing_library_loop_eq:
  "so_seq (next_of st) p rs \<Longrightarrow> containing_library_loop st addr p = Some (find (contains st addr) rs)"
  by (induction rs arbitrary: p) (subst containing_library_loop.simps; auto simp: contains_def)+

text \<open>\<open>covers\<close>: a defined symbol whose half-open range holds the address.\<close>

definition covers :: "memory \<Rightarrow> soinfo \<Rightarrow> u64 \<Rightarrow> u64 \<Rightarrow> bool" where
  "covers m si soaddr n \<longleftrightarrow> symbol_matches_soaddr m (sym_at si n) soaddr = Some True"

definition range_ok :: "memory \<Rightarrow> soinfo \<Rightarrow> u64 \<Rightarrow> bool" where
  "range_ok m si n \<longleftrightarrow> st_shndx m (sym_at si n) \<noteq> None \<and> st_value m (sym_at si n) \<noteq> None
     \<and> st_size m (sym_at si n) \<noteq> None \<and> sym_at si n \<noteq> 0"

lemma range_ok_matches:
  "range_ok m si n \<Longrightarrow> symbol_matches_soaddr m (sym_at si n) a = Some (covers m si a n)"
  by (auto simp: range_ok_def covers_def symbol_matches_soaddr_def)

lemma containing_sysv_loop_eq:
  "(\<And>j. j < k \<Longrightarrow> range_ok m si (i + of_nat j)) \<Longrightarrow>
   containing_sysv_loop m si a k i =
     Some (case find (covers m si a) (map (\<lambda>j. i + of_nat j) [0..<k]) of None \<Rightarrow> 0 | Some n \<Rightarrow> sym_at si n)"
proof (induction k arbitrary: i)
  case (Suc k)
  have "range_ok m si (i + 1 + of_nat j)" if "j < k" for j
    using Suc.prems [of "Suc j"] that by (simp add: algebra_simps)
  then have "containing_sysv_loop m si a k (i + 1) = Some (case find (covers m si a)
      (map (\<lambda>j. i + 1 + of_nat j) [0..<k]) of None \<Rightarrow> 0 | Some n \<Rightarrow> sym_at si n)"
    by (rule Suc.IH)
  moreover have "map (\<lambda>j. i + of_nat j) [0..<Suc k] = i # map (\<lambda>j. i + 1 + of_nat j) [0..<k]"
    by (simp add: map_upt_Suc algebra_simps del: upt_Suc)
  moreover have "symbol_matches_soaddr m (sym_at si i) a = Some (covers m si a i)"
    using Suc.prems [of 0] by (intro range_ok_matches) simp
  ultimately show ?case by auto
qed simp

lemma containing_gnu_chain_eq:
  "gnu_run m si n xs \<Longrightarrow> \<forall>x \<in> set xs. range_ok m si (ucast x) \<Longrightarrow>
   containing_gnu_chain m si a n =
     Some (case find (\<lambda>x. covers m si a (ucast x)) xs of None \<Rightarrow> 0 | Some x \<Rightarrow> sym_at si (ucast x))"
proof (induction xs arbitrary: n)
  case (Cons x xs)
  then have "symbol_matches_soaddr m (sym_at si (ucast x)) a = Some (covers m si a (ucast x))"
    by (intro range_ok_matches) simp
  with Cons show ?case
    by (subst containing_gnu_chain.simps) (auto split: option.splits if_splits)
qed simp

text \<open>\<open>gnu_rows m si i rows\<close>: the buckets from \<open>i\<close> on lead through the lists \<open>rows\<close>.\<close>

primrec gnu_rows :: "memory \<Rightarrow> soinfo \<Rightarrow> u64 \<Rightarrow> u32 list list \<Rightarrow> bool" where
  "gnu_rows m si i [] \<longleftrightarrow> True"
| "gnu_rows m si i (xs # rows) \<longleftrightarrow>
     (case bucket_at m si i of None \<Rightarrow> False
      | Some n \<Rightarrow> if n = 0 then xs = [] else gnu_run m si n xs) \<and> gnu_rows m si (i + 1) rows"

lemma containing_gnu_buckets_eq:
  "gnu_rows m si i rows \<Longrightarrow> \<forall>x \<in> set (concat rows). range_ok m si (ucast x) \<Longrightarrow>
   containing_gnu_buckets m si a (length rows) i =
     Some (case find (\<lambda>x. covers m si a (ucast x)) (concat rows) of None \<Rightarrow> 0
           | Some x \<Rightarrow> sym_at si (ucast x))"
proof (induction rows arbitrary: i)
  case (Cons xs rows)
  let ?f = "\<lambda>xs. find (\<lambda>x. covers m si a (ucast x)) xs"
  obtain n where n: "bucket_at m si i = Some n" "if n = 0 then xs = [] else gnu_run m si n xs"
    using Cons.prems(1) by (auto split: option.splits)
  have ok: "\<forall>x \<in> set xs. range_ok m si (ucast x)" using Cons.prems(2) by auto
  have "sym_at si (ucast x) \<noteq> 0" if "?f xs = Some x" for x
    using that ok by (auto simp: find_Some_iff range_ok_def)
  moreover have "n \<noteq> 0 \<Longrightarrow> containing_gnu_chain m si a n = Some (case ?f xs of None \<Rightarrow> 0
      | Some x \<Rightarrow> sym_at si (ucast x))"
    using n(2) ok by (intro containing_gnu_chain_eq) auto
  ultimately show ?case
    using Cons n by (cases "n = 0") (auto simp: find_append split: option.splits)
qed simp

section \<open>Properties\<close>

text \<open>Two libraries of one page with the single symbol \<open>f\<close>, one for each style of table.\<close>

definition demo_mem :: memory where
  "demo_mem = image 0x1000
     (replicate 24 0 @ [1,0,0,0, 0x10, 0, 1,0, 0,5,0,0,0,0,0,0, 8,0,0,0,0,0,0,0]
      @ [0, 0x66, 0, 0] @ [1,0,0,0] @ [0,0,0,0, 0,0,0,0] @ [0,0,0,0, 0x0b,0xb6,2,0]
      @ replicate 8 0xff @ replicate 16 0)"

definition demo_sysv :: soinfo where
  "demo_sysv = zero_soinfo\<lparr>so_base := 0x1000, so_size := 0x1000, so_symtab := 0x1000, so_strtab := 0x1030,
     so_nbucket := 1, so_nchain := 2, so_bucket := 0x1034, so_chain := 0x1038, so_dynamic := 0x1050\<rparr>"

definition demo_gnu :: soinfo where
  "demo_gnu = zero_soinfo\<lparr>so_base := 0x1000, so_size := 0x1000, so_symtab := 0x1000, so_strtab := 0x1030,
     so_nbucket := 1, so_bucket := 0x1034, so_chain := 0x1040, so_gnu_bloom_filter := 0x1048,
     so_gnu_shift2 := 6, so_flags := FLAG_GNU_HASH\<rparr>"

lemma demo_tables: "so_symtab demo_gnu = so_symtab demo_sysv" "so_strtab demo_gnu = so_strtab demo_sysv"
  by (simp_all add: demo_gnu_def demo_sysv_def)

lemma demo_str: "sym_str demo_mem demo_sysv 1 = Some ''f''"
proof -
  have "st_name demo_mem (sym_at demo_sysv (ucast (1 :: u32))) = Some 1" by code_simp
  moreover have "mem_str demo_mem (so_strtab demo_sysv + ucast (1 :: u32)) = Some ''f''"
    by (rule mem_str_bytes; code_simp)
  ultimately show ?thesis by (simp add: sym_str_def)
qed

lemma demo_exported: "exported demo_mem demo_sysv name 1 \<longleftrightarrow> name = ''f''"
proof -
  have "is_symbol_global_and_defined demo_mem (sym_at demo_sysv (ucast (1 :: u32))) = Some True" by code_simp
  then show ?thesis by (auto simp: exported_def demo_str)
qed

lemma demo_sym_ok: "sym_ok demo_mem demo_sysv 1"
proof -
  have "is_symbol_global_and_defined demo_mem (sym_at demo_sysv (ucast (1 :: u32))) \<noteq> None"
    "sym_at demo_sysv (ucast (1 :: u32)) \<noteq> 0" by code_simp+
  then show ?thesis by (simp add: sym_ok_def demo_str)
qed

lemma demo_gnu_same:
  "exported demo_mem demo_gnu = exported demo_mem demo_sysv" "sym_ok demo_mem demo_gnu = sym_ok demo_mem demo_sysv"
  by (simp_all add: fun_eq_iff exported_def sym_ok_def sym_str_def sym_at_def demo_tables)

lemma less_one_word: "(b :: u64) < 1 \<longleftrightarrow> b = 0"
  by (metis word_gt_0 word_less_1 less_irrefl)

lemma demo_sysv_table: "sysv_table demo_mem demo_sysv {1}"
proof -
  have n: "so_nbucket demo_sysv = 1" by (simp add: demo_sysv_def)
  have "bucket_at demo_mem demo_sysv 0 = Some 1" "sysv_path demo_mem demo_sysv 1 [1]" by code_simp+
  then have "sysv_bucket demo_mem demo_sysv {1} 0"
    unfolding sysv_bucket_def by (intro exI [of _ 1] exI [of _ "[1]"]) simp
  then show ?thesis by (simp add: sysv_table_def n demo_sym_ok less_one_word)
qed

lemma demo_gnu_table: "gnu_table demo_mem demo_gnu {1}"
proof -
  have n: "so_nbucket demo_gnu = 1" "so_gnu_shift2 demo_gnu < 32" "so_gnu_maskwords demo_gnu = 0"
    by (simp_all add: demo_gnu_def zero_soinfo_def)
  have "bucket_at demo_mem demo_gnu 0 = Some 1" "gnu_run demo_mem demo_gnu 1 [1]" by code_simp+
  then have "gnu_bucket demo_mem demo_gnu {1} 0"
    unfolding gnu_bucket_def by (intro exI [of _ 1] exI [of _ "[1]"]) simp
  moreover have "load64 demo_mem (so_gnu_bloom_filter demo_gnu) = Some (- 1)" by code_simp
  then have w: "bloom_word demo_mem demo_gnu h = Some (- 1)" for h
    by (simp add: bloom_word_def n)
  have "bloom_has demo_mem demo_gnu h" for h
    using unat_mod_less_64 by (simp add: bloom_has_def w)
  moreover have "chain_hash_ok demo_mem demo_gnu (gnu_hash_of ''f'') 1" by code_simp
  ultimately show ?thesis
    by (simp add: gnu_table_def n w demo_gnu_same demo_sym_ok demo_exported less_one_word)
qed

text \<open>A linker in which the built-in object has the first of these tables.\<close>

definition demo_state :: linker where
  "demo_state = (static_linker sa0 demo_mem)\<lparr>so := (\<lambda>_. demo_sysv)\<rparr>"

lemma demo_state_fields [simp]:
  "so demo_state r = demo_sysv" "mem demo_state = demo_mem" "solist demo_state = Some Libdl"
  "preloads demo_state = []" "somain demo_state = None"
  by (simp_all add: demo_state_def static_linker_def)

lemma demo_lib_ok: "lib_ok demo_state (\<lambda>_. {1}) r"
proof -
  have "\<not> is_gnu_hash demo_sysv" by (simp add: is_gnu_hash_def has_flag_def demo_sysv_def zero_soinfo_def)
  then show ?thesis using demo_sysv_table by (simp add: lib_ok_def elf_table_def)
qed

lemma demo_provides: "provides demo_state (\<lambda>_. {1}) name r \<longleftrightarrow> name = ''f''"
  by (simp add: provides_def demo_exported)

lemma demo_pool: "pool_lists demo_state [] []"
  by (simp add: pool_lists_def next_of_def demo_sysv_def zero_soinfo_def)
    (simp add: demo_state_def static_linker_def)

text \<open>
  C1. Searching one library, in either style of hash table: on a table that is well formed for the
  symbols \<open>I\<close> the search ends without a fault; it returns the entry of a defined global or weak symbol
  of exactly that name when \<open>I\<close> has one, and NULL otherwise. In particular the Bloom filter and the
  hash comparison of the GNU style never hide a symbol.
\<close>

theorem elf_lookup_correct:
  assumes "elf_table m si I" and "c_string name"
  shows "\<exists>s. apkenv__elf_lookup m si (symbol_for name) = Some s
    \<and> (s = 0 \<longleftrightarrow> (\<forall>n \<in> I. \<not> exported m si name n))
    \<and> (s \<noteq> 0 \<longrightarrow> (\<exists>n \<in> I. exported m si name n \<and> s = sym_at si (ucast n)))"
proof -
  obtain s where s: "apkenv__elf_lookup m si (symbol_for name) = Some s"
    using elf.lookup_spec [OF assms] by blast
  with elf.lookup_zero_iff [OF assms] elf.lookup_found [OF assms s] show ?thesis by auto
qed

theorem elf_lookup_correct_witness:
  "apkenv__elf_lookup demo_mem demo_gnu (symbol_for ''f'') = Some 0x1018
   \<and> apkenv__elf_lookup demo_mem demo_gnu (symbol_for ''g'') = Some 0"
proof -
  have t: "elf_table demo_mem demo_gnu {1}"
    using demo_gnu_table by (simp add: elf_table_def is_gnu_hash_def has_flag_def demo_gnu_def flag_defs)
  have a: "sym_at demo_gnu 1 = 0x1018" by code_simp
  have f: "apkenv__elf_lookup demo_mem demo_gnu (symbol_for ''f'') = Some 0x1018"
    using elf_lookup_correct [OF t, of "''f''"] a by (auto simp: demo_gnu_same demo_exported)
  have "apkenv__elf_lookup demo_mem demo_gnu (symbol_for ''g'') = Some 0"
    using elf_lookup_correct [OF t, of "''g''"] by (auto simp: demo_gnu_same demo_exported)
  with f show ?thesis by simp
qed

text \<open>
  The two hash functions: \<open>apkenv_sysvhash\<close> is the hash function of the System V ABI and stays
  below \<open>2 ^ 28\<close>; \<open>apkenv_gnuhash\<close> is the polynomial hash with multiplier 33 and start 5381,
  modulo \<open>2 ^ 32\<close>; and the stored copies do not change a later result.
\<close>

lemma hash_functions_correct:
  "fst (apkenv_sysvhash (symbol_for name)) = foldl abi_round 0 name
   \<and> fst (apkenv_sysvhash (symbol_for name)) < 2 ^ 28
   \<and> fst (apkenv_gnuhash (symbol_for name))
       = 5381 * 33 ^ length name + (\<Sum>i<length name. of_char (name ! i) * 33 ^ (length name - 1 - i))
   \<and> apkenv_sysvhash (snd (apkenv_sysvhash sn)) = apkenv_sysvhash sn
   \<and> apkenv_gnuhash (snd (apkenv_gnuhash sn)) = apkenv_gnuhash sn"
  using abi_fold_bound [of 0 name] sysv_fold_eq [of 0 name] gnu_fold_eq [of 5381 name]
  by (simp add: apkenv_sysvhash_def apkenv_gnuhash_def symbol_for_def Let_def)

text \<open>
  C10. The global lookup behind \<open>dlsym\<close>: it goes through the loaded libraries from the given one on
  (from the built-in object when none is given), skips those that failed to link, and returns the
  symbol of the first one that exports the name, with that library; NULL when no library does.
\<close>

theorem lookup_correct:
  assumes "pool_lists st ls fs" and "Libdl # ls = before @ rs" and "c_string name"
    and "start = None \<and> before = [] \<or> rs \<noteq> [] \<and> start = Some (hd rs)"
    and "\<forall>r \<in> set rs. \<not> has_flag FLAG_ERROR (so st r) \<longrightarrow> lib_ok st syms r"
  shows "\<exists>s. apkenv_lookup st name start = Some (s, find (usable st syms name) rs)
    \<and> (case find (usable st syms name) rs of None \<Rightarrow> s = 0 | Some r \<Rightarrow> provided_by st syms name r s)"
proof -
  have "so_seq (next_of st) (solist st) (before @ rs)"
    using assms(1,2) by (metis pool_lists_def)
  then have "so_seq (next_of st) (if start = None then solist st else start) rs"
    using assms(4) by (cases rs) auto
  from lookup_loop_eq [OF this assms(3,5)] show ?thesis by (simp add: apkenv_lookup_def)
qed

theorem lookup_correct_witness:
  "\<exists>s. apkenv_lookup demo_state ''f'' None = Some (s, Some Libdl)
    \<and> provided_by demo_state (\<lambda>_. {1}) ''f'' Libdl s"
proof -
  have "\<not> has_flag FLAG_ERROR demo_sysv" by (simp add: has_flag_def demo_sysv_def zero_soinfo_def)
  then have "find (usable demo_state (\<lambda>_. {1}) ''f'') [Libdl] = Some Libdl"
    by (simp add: usable_def demo_provides)
  with lookup_correct [OF demo_pool, of "[]" "[Libdl]" "''f''" None "\<lambda>_. {1}"]
  show ?thesis by (auto simp: demo_lib_ok)
qed

text \<open>
  C9. The lookup that relocation uses: the library itself, then the preloads, then the libraries
  its dynamic section needs, in their order, then the main program. The first one of this scope
  that exports the name provides the symbol and the base address, and its name is remembered as
  the library used last; when none does, the result is NULL and the state is unchanged.
\<close>

theorem do_lookup_correct:
  assumes "\<forall>r \<in> set (lookup_scope st si ls). lib_ok st syms r" and "c_string name"
    and "needed_ok st si ds ls"
  shows "case find (provides st syms name) (lookup_scope st si ls) of
      None \<Rightarrow> apkenv__do_lookup si name st = Some ((0, 0), st)
    | Some r \<Rightarrow> \<exists>s. apkenv__do_lookup si name st =
          Some ((s, so_base (so st r)), st\<lparr>last_library_used := so_name (so st r)\<rparr>)
        \<and> provided_by st syms name r s"
  using do_lookup_scope [OF assms] by (auto simp: lookup_result_def split: option.splits)

theorem do_lookup_correct_witness:
  "\<exists>s. apkenv__do_lookup Libdl ''f'' demo_state = Some ((s, 0x1000), demo_state\<lparr>last_library_used := []\<rparr>)
   \<and> apkenv__do_lookup Libdl ''g'' demo_state = Some ((0, 0), demo_state)"
proof -
  have "load64 demo_mem (so_dynamic demo_sysv) = Some DT_NULL" by code_simp
  then have n: "needed_ok demo_state Libdl [] []" by (simp add: needed_ok_def needed_ptrs_def)
  have l: "\<forall>r \<in> set (lookup_scope demo_state Libdl []). lib_ok demo_state (\<lambda>_. {1}) r"
    by (simp add: demo_lib_ok)
  have "so_base demo_sysv = 0x1000" "so_name demo_sysv = []" by (simp_all add: demo_sysv_def zero_soinfo_def)
  then have "\<exists>s. apkenv__do_lookup Libdl ''f'' demo_state
      = Some ((s, 0x1000), demo_state\<lparr>last_library_used := []\<rparr>)"
    using do_lookup_correct [OF l _ n, of "''f''"] by (auto simp: lookup_scope_def demo_provides)
  moreover have "apkenv__do_lookup Libdl ''g'' demo_state = Some ((0, 0), demo_state)"
    using do_lookup_correct [OF l _ n, of "''g''"] by (simp add: lookup_scope_def demo_provides)
  ultimately show ?thesis by blast
qed



end
