(* ===== verification/Gdb_Map.thy ===== *)
theory Gdb_Map
  imports Soinfo_Pool
begin

text \<open>
  The list of link maps that the linker keeps for a debugger (\<open>linker/linker.c\<close>): a doubly linked
  list through the \<open>linkmap\<close> of the loaded objects, from \<open>apkenv_r_debug_head\<close> to
  \<open>apkenv_r_debug_tail\<close>, which is hung behind the list of the system linker while the debugger
  looks. The calls of \<open>rtld_db_dlactivity\<close> are a breakpoint of the debugger: they do not change the
  state, and the lock around the operations is not modelled because nothing here runs in parallel.
\<close>

section \<open>Operations\<close>

fun lm :: "linker \<Rightarrow> lmref \<Rightarrow> link_map" where
  "lm st (SoMap r) = so_linkmap (so st r)"
| "lm st (SysMap i) = sys_map st i"

fun upd_lm :: "lmref \<Rightarrow> (link_map \<Rightarrow> link_map) \<Rightarrow> linker \<Rightarrow> linker" where
  "upd_lm (SoMap r) f st = upd_so r (\<lambda>si. si\<lparr>so_linkmap := f (so_linkmap si)\<rparr>) st"
| "upd_lm (SysMap i) f st = st\<lparr>sys_map := (sys_map st)(i := f (sys_map st i))\<rparr>"

definition apkenv_insert_soinfo_into_debug_map :: "soref \<Rightarrow> linker \<Rightarrow> linker" where
  "apkenv_insert_soinfo_into_debug_map info st =
     (let map = SoMap info; si = so st info;
          st = upd_lm map (\<lambda>l. l\<lparr>l_addr := so_base si, l_name := so_fullpath si, l_ld := so_dynamic si\<rparr>) st;
          st = (case r_debug_tail st of
              Some t \<Rightarrow>
                let st = upd_lm t (\<lambda>l. l\<lparr>l_next := Some map\<rparr>) st
                in upd_lm map (\<lambda>l. l\<lparr>l_prev := Some t, l_next := None\<rparr>) st
            | None \<Rightarrow>
                upd_lm map (\<lambda>l. l\<lparr>l_prev := None, l_next := None\<rparr>) (st\<lparr>r_debug_head := Some map\<rparr>))
      in st\<lparr>r_debug_tail := Some map\<rparr>)"

definition apkenv_remove_soinfo_from_debug_map :: "soref \<Rightarrow> linker \<Rightarrow> linker" where
  "apkenv_remove_soinfo_from_debug_map info st =
     (let map = SoMap info;
          st = (if r_debug_tail st = Some map then st\<lparr>r_debug_tail := l_prev (lm st map)\<rparr> else st);
          st = (case l_prev (lm st map) of None \<Rightarrow> st
                | Some p \<Rightarrow> upd_lm p (\<lambda>l. l\<lparr>l_next := l_next (lm st map)\<rparr>) st)
      in case l_next (lm st map) of None \<Rightarrow> st
         | Some n \<Rightarrow> upd_lm n (\<lambda>l. l\<lparr>l_prev := l_prev (lm st map)\<rparr>) st)"

text \<open>The last node of the list of the system linker: \<open>tmap\<close> at the end of the loop.\<close>

partial_function (option) last_map :: "linker \<Rightarrow> lmref \<Rightarrow> lmref option" where
  "last_map st tmap = (case l_next (lm st tmap) of None \<Rightarrow> Some tmap | Some n \<Rightarrow> last_map st n)"

text \<open>
  \<open>apkenv_notify_gdb_of_libraries\<close> returns the state and, with it, the state that the debugger sees
  at the second breakpoint, before the list of the system linker is restored.
\<close>

definition apkenv_notify_gdb_of_libraries :: "linker \<Rightarrow> (linker \<times> linker) option" where
  "apkenv_notify_gdb_of_libraries st = do {
     start \<leftarrow> r_map st;
     tmap \<leftarrow> last_map st start;
     let st = st\<lparr>r_state := RT_ADD\<rparr>;
     let st = upd_lm tmap (\<lambda>l. l\<lparr>l_next := r_debug_head st\<rparr>) st;
     h \<leftarrow> r_debug_head st;
     let st = upd_lm h (\<lambda>l. l\<lparr>l_prev := Some tmap\<rparr>) st;
     let seen = st\<lparr>r_state := RT_CONSISTENT\<rparr>;
     Some (upd_lm tmap (\<lambda>l. l\<lparr>l_next := None\<rparr>) seen, seen)
   }"

definition apkenv_notify_gdb_of_load :: "soref \<Rightarrow> linker \<Rightarrow> linker option" where
  "apkenv_notify_gdb_of_load info st =
     (if has_flag FLAG_EXE (so st info) then Some st
      else do {
        let st = st\<lparr>r_state := RT_ADD\<rparr>;
        let st = apkenv_insert_soinfo_into_debug_map info st;
        let st = st\<lparr>r_state := RT_CONSISTENT\<rparr>;
        (st, _) \<leftarrow> apkenv_notify_gdb_of_libraries st;
        Some st
      })"

definition apkenv_notify_gdb_of_unload :: "soref \<Rightarrow> linker \<Rightarrow> linker option" where
  "apkenv_notify_gdb_of_unload info st =
     (if has_flag FLAG_EXE (so st info) then Some st
      else do {
        let st = st\<lparr>r_state := RT_DELETE\<rparr>;
        let st = apkenv_remove_soinfo_from_debug_map info st;
        let st = st\<lparr>r_state := RT_CONSISTENT\<rparr>;
        (st, _) \<leftarrow> apkenv_notify_gdb_of_libraries st;
        Some st
      })"

section \<open>Lists of link maps\<close>

definition nxt :: "linker \<Rightarrow> lmref \<Rightarrow> lmref option" where
  "nxt st q = l_next (lm st q)"
definition prv :: "linker \<Rightarrow> lmref \<Rightarrow> lmref option" where
  "prv st q = l_prev (lm st q)"

text \<open>
  \<open>dll nx pv p ms q\<close>: a doubly linked list \<open>ms\<close>, entered at \<open>p\<close>, whose back pointers go up to the
  first node, and whose last node is \<open>q\<close>. Nothing is said of the back pointer of the first node.
\<close>

primrec back_linked :: "(lmref \<Rightarrow> lmref option) \<Rightarrow> lmref \<Rightarrow> lmref list \<Rightarrow> bool" where
  "back_linked pv a [] \<longleftrightarrow> True"
| "back_linked pv a (b # bs) \<longleftrightarrow> pv b = Some a \<and> back_linked pv b bs"

definition debug_list :: "linker \<Rightarrow> lmref list \<Rightarrow> bool" where
  "debug_list st ms \<longleftrightarrow> so_seq (nxt st) (r_debug_head st) ms \<and> distinct ms \<and> range SysMap \<inter> set ms = {}
     \<and> (if ms = [] then r_debug_tail st = None
        else r_debug_tail st = Some (last ms) \<and> back_linked (prv st) (hd ms) (tl ms))"

definition sys_list :: "linker \<Rightarrow> lmref list \<Rightarrow> bool" where
  "sys_list st ss \<longleftrightarrow> ss \<noteq> [] \<and> so_seq (nxt st) (r_map st) ss \<and> distinct ss \<and> set ss \<subseteq> range SysMap"

lemma lm_upd_lm: "lm (upd_lm q f st) p = (if p = q then f (lm st q) else lm st p)"
  by (cases q; cases p) (simp_all add: upd_so_def)

lemma nxt_upd_lm: "nxt (upd_lm q f st) = (nxt st)(q := l_next (f (lm st q)))"
  by (auto simp: nxt_def lm_upd_lm fun_eq_iff)

lemma prv_upd_lm: "prv (upd_lm q f st) = (prv st)(q := l_prev (f (lm st q)))"
  by (auto simp: prv_def lm_upd_lm fun_eq_iff)

lemma upd_lm_fields [simp]:
  "r_debug_head (upd_lm q f st) = r_debug_head st" "r_debug_tail (upd_lm q f st) = r_debug_tail st"
  "r_map (upd_lm q f st) = r_map st" "r_state (upd_lm q f st) = r_state st"
  by (cases q; simp add: upd_so_def)+

lemma lm_other [simp]:
  "lm (st\<lparr>r_debug_head := x\<rparr>) q = lm st q" "lm (st\<lparr>r_debug_tail := x\<rparr>) q = lm st q"
  "lm (st\<lparr>r_state := s\<rparr>) q = lm st q"
  by (cases q; simp)+

declare lm.simps [simp del] upd_lm.simps [simp del]

lemma nxt_other [simp]:
  "nxt (st\<lparr>r_debug_head := x\<rparr>) = nxt st" "nxt (st\<lparr>r_debug_tail := x\<rparr>) = nxt st" "nxt (st\<lparr>r_state := s\<rparr>) = nxt st"
  "prv (st\<lparr>r_debug_head := x\<rparr>) = prv st" "prv (st\<lparr>r_debug_tail := x\<rparr>) = prv st" "prv (st\<lparr>r_state := s\<rparr>) = prv st"
  by (simp_all add: nxt_def prv_def fun_eq_iff)

lemma back_linked_cong: "(\<And>b. b \<in> set bs \<Longrightarrow> pv' b = pv b) \<Longrightarrow> back_linked pv' a bs = back_linked pv a bs"
  by (induction bs arbitrary: a) auto

lemma back_linked_upd [simp]: "q \<notin> set bs \<Longrightarrow> back_linked (pv(q := v)) a bs = back_linked pv a bs"
  by (rule back_linked_cong) auto

lemma back_linked_append:
  "back_linked pv a (bs @ cs) \<longleftrightarrow> back_linked pv a bs \<and> back_linked pv (last (a # bs)) cs"
  by (induction bs arbitrary: a) auto

section \<open>Insertion\<close>

lemma insert_fields:
  "r_debug_tail (apkenv_insert_soinfo_into_debug_map r st) = Some (SoMap r)"
  "r_map (apkenv_insert_soinfo_into_debug_map r st) = r_map st"
  "r_state (apkenv_insert_soinfo_into_debug_map r st) = r_state st"
  "r_debug_head (apkenv_insert_soinfo_into_debug_map r st) =
     (if r_debug_tail st = None then Some (SoMap r) else r_debug_head st)"
  by (simp_all add: apkenv_insert_soinfo_into_debug_map_def Let_def split: option.splits)

lemma insert_links:
  assumes "r_debug_tail st \<noteq> Some (SoMap r)"
  shows "nxt (apkenv_insert_soinfo_into_debug_map r st) =
      (case r_debug_tail st of None \<Rightarrow> (nxt st)(SoMap r := None)
       | Some t \<Rightarrow> (nxt st)(t := Some (SoMap r), SoMap r := None))"
    and "prv (apkenv_insert_soinfo_into_debug_map r st) = (prv st)(SoMap r := r_debug_tail st)"
proof -
  have e: "(nxt st)(SoMap r := l_next (lm st (SoMap r))) = nxt st"
    "(prv st)(SoMap r := l_prev (lm st (SoMap r))) = prv st"
    by (simp_all add: nxt_def prv_def fun_upd_idem)
  have p: "t \<noteq> SoMap r \<Longrightarrow> (prv st)(t := l_prev (lm st t)) = prv st" for t
    by (simp add: prv_def fun_upd_idem)
  show "nxt (apkenv_insert_soinfo_into_debug_map r st) =
      (case r_debug_tail st of None \<Rightarrow> (nxt st)(SoMap r := None)
       | Some t \<Rightarrow> (nxt st)(t := Some (SoMap r), SoMap r := None))"
    using e by (auto simp: apkenv_insert_soinfo_into_debug_map_def Let_def nxt_upd_lm lm_upd_lm
        split: option.splits)
  show "prv (apkenv_insert_soinfo_into_debug_map r st) = (prv st)(SoMap r := r_debug_tail st)"
    using e p assms by (auto simp: apkenv_insert_soinfo_into_debug_map_def Let_def prv_upd_lm lm_upd_lm
        split: option.splits)
qed

lemma insert_debug_list:
  assumes "debug_list st ms" and "SoMap r \<notin> set ms"
  shows "debug_list (apkenv_insert_soinfo_into_debug_map r st) (ms @ [SoMap r])"
proof -
  have t: "r_debug_tail st \<noteq> Some (SoMap r)"
    using assms last_in_set by (fastforce simp: debug_list_def split: if_splits)
  show ?thesis
  proof (cases ms)
    case Nil
    with assms t show ?thesis
      by (auto simp: debug_list_def insert_fields insert_links)
  next
    case (Cons a as)
    have "so_seq ((nxt st)(last ms := Some (SoMap r), SoMap r := None)) (r_debug_head st) (ms @ [SoMap r])"
      using assms Cons by (intro so_seq_add_last) (auto simp: debug_list_def)
    with assms t Cons show ?thesis
      by (auto simp: debug_list_def insert_fields insert_links back_linked_append)
  qed
qed

lemma insert_entry:
  assumes "r_debug_tail st \<noteq> Some (SoMap r)"
  shows "let l = lm (apkenv_insert_soinfo_into_debug_map r st) (SoMap r)
    in l_addr l = so_base (so st r) \<and> l_name l = so_fullpath (so st r) \<and> l_ld l = so_dynamic (so st r)"
  using assms by (auto simp: apkenv_insert_soinfo_into_debug_map_def Let_def lm_upd_lm
      split: option.splits)

section \<open>Removal\<close>

lemma remove_fields:
  "r_debug_head (apkenv_remove_soinfo_from_debug_map r st) = r_debug_head st"
  "r_map (apkenv_remove_soinfo_from_debug_map r st) = r_map st"
  "r_state (apkenv_remove_soinfo_from_debug_map r st) = r_state st"
  "r_debug_tail (apkenv_remove_soinfo_from_debug_map r st) =
     (if r_debug_tail st = Some (SoMap r) then prv st (SoMap r) else r_debug_tail st)"
  by (simp_all add: apkenv_remove_soinfo_from_debug_map_def Let_def prv_def split: option.splits)

lemma remove_links:
  assumes "prv st (SoMap r) = Some p" and "p \<noteq> SoMap r" and "nxt st (SoMap r) \<noteq> Some (SoMap r)"
  shows "nxt (apkenv_remove_soinfo_from_debug_map r st) = (nxt st)(p := nxt st (SoMap r))"
    and "prv (apkenv_remove_soinfo_from_debug_map r st) =
      (case nxt st (SoMap r) of None \<Rightarrow> prv st | Some n \<Rightarrow> (prv st)(n := Some p))"
proof -
  have e: "f(q := f q) = f" for f :: "lmref \<Rightarrow> lmref option" and q by simp
  have l: "l_prev (lm st q) = prv st q" "l_next (lm st q) = nxt st q" for q
    by (simp_all add: prv_def nxt_def)
  show "nxt (apkenv_remove_soinfo_from_debug_map r st) = (nxt st)(p := nxt st (SoMap r))"
    using assms by (auto simp: apkenv_remove_soinfo_from_debug_map_def Let_def nxt_upd_lm lm_upd_lm l e
        fun_eq_iff split: option.splits)
  show "prv (apkenv_remove_soinfo_from_debug_map r st) =
      (case nxt st (SoMap r) of None \<Rightarrow> prv st | Some n \<Rightarrow> (prv st)(n := Some p))"
    using assms by (auto simp: apkenv_remove_soinfo_from_debug_map_def Let_def prv_upd_lm lm_upd_lm l e
        fun_eq_iff split: option.splits)
qed

lemma remove_debug_list:
  assumes "debug_list st (as @ p # SoMap r # bs)"
  shows "debug_list (apkenv_remove_soinfo_from_debug_map r st) (as @ p # bs)"
proof -
  let ?ms = "as @ p # SoMap r # bs" and ?m = "SoMap r"
  have d: "distinct ?ms" and sq: "so_seq (nxt st) (r_debug_head st) ?ms"
    and bl: "back_linked (prv st) (hd ?ms) (tl ?ms)" and t: "r_debug_tail st = Some (last ?ms)"
    using assms by (simp_all add: debug_list_def)
  have bl': "back_linked (prv st) (hd (as @ [p])) (tl (as @ [p]))" "prv st ?m = Some p" "back_linked (prv st) ?m bs"
    using bl by (cases as; simp add: back_linked_append)+
  have nx: "nxt st ?m = (case bs of [] \<Rightarrow> None | b # _ \<Rightarrow> Some b)"
    using sq by (cases bs) auto
  have ne: "p \<noteq> ?m" "nxt st ?m \<noteq> Some ?m" using d nx by (auto split: list.splits)
  note links = remove_links [OF bl'(2) ne]
  have "so_seq ((nxt st)(p := nxt st ?m, ?m := nxt st ?m)) (r_debug_head st) (as @ p # bs)"
    by (rule so_seq_take_out [OF sq d])
  moreover have "?m \<notin> set (as @ p # bs)" using d by auto
  ultimately have s1: "so_seq (nxt (apkenv_remove_soinfo_from_debug_map r st)) (r_debug_head st) (as @ p # bs)"
    using links(1) by (metis so_path_upd)
  have s2: "back_linked (prv (apkenv_remove_soinfo_from_debug_map r st)) (hd (as @ p # bs)) (tl (as @ p # bs))"
  proof (cases bs)
    case Nil
    then show ?thesis using links(2) nx bl'(1) by simp
  next
    case (Cons b bs')
    then have "b \<notin> set (tl (as @ [p]))" using d by (cases as) auto
    with Cons links(2) nx bl' d show ?thesis by (cases as) (auto simp: back_linked_append)
  qed
  have "last ?ms = (if bs = [] then ?m else last bs)" by simp
  moreover have "bs \<noteq> [] \<Longrightarrow> last bs \<noteq> ?m" using d by (metis distinct_append distinct.simps(2) last_in_set)
  ultimately have "bs \<noteq> [] \<longrightarrow> last bs \<noteq> ?m" "last ?ms = (if bs = [] then ?m else last bs)" by auto
  with s1 s2 d t bl'(2) assms show ?thesis
    by (auto simp: debug_list_def remove_fields)
qed

section \<open>Notification\<close>

lemma last_map_eq: "so_seq (nxt st) (Some a) (a # qs) \<Longrightarrow> last_map st a = Some (last (a # qs))"
proof (induction qs arbitrary: a)
  case Nil
  then show ?case by (subst last_map.simps) (simp add: nxt_def)
next
  case (Cons b qs)
  then show ?case by (subst last_map.simps) (auto simp: nxt_def)
qed

text \<open>
  The debugger sees the system's libraries followed by ours; afterwards both lists are as before,
  except for the back pointer of our first node.
\<close>

lemma notify_libraries:
  assumes "debug_list st ms" and "ms \<noteq> []" and "sys_list st ss"
  shows "\<exists>st' seen. apkenv_notify_gdb_of_libraries st = Some (st', seen)
    \<and> debug_list st' ms \<and> sys_list st' ss \<and> r_state st' = RT_CONSISTENT
    \<and> so_seq (nxt seen) (r_map seen) (ss @ ms) \<and> r_state seen = RT_CONSISTENT"
proof -
  obtain s1 ss' where ss: "ss = s1 # ss'" using assms(3) by (cases ss) (auto simp: sys_list_def)
  define t where "t = last ss"
  have st1: "r_map st = Some s1" and sq: "so_seq (nxt st) (Some s1) ss"
    using assms(3) ss by (auto simp: sys_list_def)
  have lt: "last_map st s1 = Some t" using last_map_eq [of st s1 ss'] sq ss t_def by simp
  have h: "r_debug_head st = Some (hd ms)" using assms(1,2) by (cases ms) (auto simp: debug_list_def)
  have tin: "t \<in> set ss" using ss t_def by simp
  then have tms: "t \<notin> set ms" "t \<noteq> hd ms" "hd ms \<notin> set ss" "set ss \<inter> set ms = {}"
    using assms by (auto simp: debug_list_def sys_list_def dest: hd_in_set)
  define seen where "seen = (upd_lm (hd ms) (\<lambda>l. l\<lparr>l_prev := Some t\<rparr>)
    (upd_lm t (\<lambda>l. l\<lparr>l_next := Some (hd ms)\<rparr>) (st\<lparr>r_state := RT_ADD\<rparr>)))\<lparr>r_state := RT_CONSISTENT\<rparr>"
  define st' where "st' = upd_lm t (\<lambda>l. l\<lparr>l_next := None\<rparr>) seen"
  have run: "apkenv_notify_gdb_of_libraries st = Some (st', seen)"
    using st1 lt h by (simp add: apkenv_notify_gdb_of_libraries_def seen_def st'_def Let_def)
  obtain zs where zs: "ss = zs @ [t]" using ss t_def by (metis append_butlast_last_id list.distinct(1))
  have ntt: "nxt st t = None" using sq zs by auto
  have hn: "l_next (lm st (hd ms)) = nxt st (hd ms)" by (simp add: nxt_def)
  have nseen: "nxt seen = (nxt st)(t := Some (hd ms))"
    using tms(2) by (auto simp: seen_def nxt_upd_lm lm_upd_lm hn)
  have nst: "nxt st' = nxt st" using ntt by (auto simp: st'_def nxt_upd_lm nseen fun_eq_iff)
  have pst: "prv st' b = prv st b" if "b \<noteq> hd ms" for b
    using that by (auto simp: st'_def seen_def prv_def lm_upd_lm)
  have "back_linked (prv st') (hd ms) (tl ms) = back_linked (prv st) (hd ms) (tl ms)"
  proof (rule back_linked_cong)
    fix b assume "b \<in> set (tl ms)"
    then have "b \<noteq> hd ms" using assms(1,2) by (cases ms) (auto simp: debug_list_def)
    then show "prv st' b = prv st b" by (rule pst)
  qed
  then have "debug_list st' ms"
    using assms(1,2) nst by (simp add: debug_list_def) (simp add: st'_def seen_def)
  moreover have "sys_list st' ss"
    using assms(3) nst by (simp add: sys_list_def) (simp add: st'_def seen_def)
  moreover have "so_seq (nxt seen) (r_map seen) (ss @ ms)"
  proof -
    have "so_path (nxt st) (Some s1) zs (Some t)" "t \<notin> set zs"
      using sq zs assms(3) by (auto simp: sys_list_def)
    moreover have "so_seq (nxt st) (Some (hd ms)) ms" using assms(1) h by (simp add: debug_list_def)
    ultimately show ?thesis using zs tms(1) st1 nseen by (simp add: seen_def)
  qed
  moreover have "r_state st' = RT_CONSISTENT" "r_state seen = RT_CONSISTENT"
    by (simp_all add: st'_def seen_def)
  ultimately show ?thesis using run by blast
qed

lemma sys_list_cong:
  assumes "\<And>i. nxt st' (SysMap i) = nxt st (SysMap i)" and "r_map st' = r_map st"
  shows "sys_list st' ss = sys_list st ss"
proof -
  have "set ss \<subseteq> range SysMap \<Longrightarrow> so_seq (nxt st') (r_map st) ss = so_seq (nxt st) (r_map st) ss"
    using assms(1) by (intro so_path_cong) auto
  with assms(2) show ?thesis by (auto simp: sys_list_def)
qed

lemma debug_list_r_state [simp]: "debug_list (st\<lparr>r_state := s\<rparr>) ms = debug_list st ms"
  by (simp add: debug_list_def)

lemma sys_list_r_state [simp]: "sys_list (st\<lparr>r_state := s\<rparr>) ss = sys_list st ss"
  by (rule sys_list_cong) simp_all

lemma debug_list_no_sys: "debug_list st ms \<Longrightarrow> q \<in> set ms \<Longrightarrow> q \<noteq> SysMap i"
  by (auto simp: debug_list_def)

lemma insert_sys_list:
  assumes "debug_list st ms" and "SoMap r \<notin> set ms" and "sys_list st ss"
  shows "sys_list (apkenv_insert_soinfo_into_debug_map r st) ss"
proof -
  have t: "r_debug_tail st = None \<or> (\<exists>q \<in> set ms. r_debug_tail st = Some q)"
    using assms(1) by (auto simp: debug_list_def split: if_splits)
  then have "r_debug_tail st \<noteq> Some (SoMap r)" using assms(2) by auto
  then have "sys_list (apkenv_insert_soinfo_into_debug_map r st) ss = sys_list st ss"
    using t assms(1)
    by (intro sys_list_cong) (auto simp: insert_links insert_fields dest: debug_list_no_sys)
  with assms(3) show ?thesis by simp
qed

lemma remove_sys_list:
  assumes "debug_list st (as @ p # SoMap r # bs)" and "sys_list st ss"
  shows "sys_list (apkenv_remove_soinfo_from_debug_map r st) ss"
proof -
  let ?ms = "as @ p # SoMap r # bs"
  have d: "distinct ?ms" and sq: "so_seq (nxt st) (r_debug_head st) ?ms"
    and bl: "back_linked (prv st) (hd ?ms) (tl ?ms)" using assms(1) by (simp_all add: debug_list_def)
  have "prv st (SoMap r) = Some p" using bl by (cases as) (simp_all add: back_linked_append)
  moreover have "p \<noteq> SoMap r" "nxt st (SoMap r) \<noteq> Some (SoMap r)" using d sq by (cases bs; auto)+
  moreover have "\<And>i. p \<noteq> SysMap i" using debug_list_no_sys [OF assms(1), of p] by auto
  ultimately have "sys_list (apkenv_remove_soinfo_from_debug_map r st) ss = sys_list st ss"
    by (intro sys_list_cong) (auto simp: remove_links remove_fields)
  with assms(2) show ?thesis by simp
qed

section \<open>Properties\<close>

text \<open>
  C14. Telling the debugger of a library that was loaded: the list of link maps stays a doubly linked
  list with the new library at its end, whose entry has its address, path and dynamic section; the
  debugger sees the libraries of the system linker followed by those of this linker; and the
  list of the system linker is left as it was.
\<close>

theorem notify_load_correct:
  assumes "debug_list st ms" and "sys_list st ss" and "SoMap r \<notin> set ms"
    and "\<not> has_flag FLAG_EXE (so st r)"
  shows "\<exists>st' seen. apkenv_notify_gdb_of_load r st = Some st'
    \<and> debug_list st' (ms @ [SoMap r]) \<and> sys_list st' ss \<and> r_state st' = RT_CONSISTENT
    \<and> apkenv_notify_gdb_of_libraries
        ((apkenv_insert_soinfo_into_debug_map r (st\<lparr>r_state := RT_ADD\<rparr>))\<lparr>r_state := RT_CONSISTENT\<rparr>)
      = Some (st', seen)
    \<and> so_seq (nxt seen) (r_map seen) (ss @ ms @ [SoMap r])"
proof -
  let ?st = "(apkenv_insert_soinfo_into_debug_map r (st\<lparr>r_state := RT_ADD\<rparr>))\<lparr>r_state := RT_CONSISTENT\<rparr>"
  have "debug_list ?st (ms @ [SoMap r])" "sys_list ?st ss"
    using insert_debug_list [of "st\<lparr>r_state := RT_ADD\<rparr>" ms r] insert_sys_list [of "st\<lparr>r_state := RT_ADD\<rparr>" ms r ss]
      assms by simp_all
  from notify_libraries [OF this(1) _ this(2)] assms(4) show ?thesis
    by (auto simp: apkenv_notify_gdb_of_load_def Let_def)
qed

text \<open>A linker with one link map of the system.\<close>

definition gdb_demo :: linker where
  "gdb_demo = (static_linker sa0 m0)\<lparr>r_map := Some (SysMap 0)\<rparr>"

lemma gdb_demo_lists: "debug_list gdb_demo []" "sys_list gdb_demo [SysMap 0]"
  "\<not> has_flag FLAG_EXE (so gdb_demo (Pool i))"
  by (simp_all add: gdb_demo_def static_linker_def debug_list_def sys_list_def nxt_def lm.simps
      zero_soinfo_def has_flag_def)

theorem notify_load_correct_witness:
  "\<exists>st'. apkenv_notify_gdb_of_load (Pool 0) gdb_demo = Some st' \<and> debug_list st' [SoMap (Pool 0)]
    \<and> sys_list st' [SysMap 0]"
  using notify_load_correct [OF gdb_demo_lists(1,2), of "Pool 0"] gdb_demo_lists(3) by auto

text \<open>
  C15. Telling the debugger of a library that is unloaded, for every library but the first of the
  list: exactly its entry is taken out, the lists stay doubly linked, the debugger sees the system's
  libraries followed by the remaining ones.
\<close>

theorem notify_unload_correct:
  assumes "debug_list st (as @ p # SoMap r # bs)" and "sys_list st ss"
    and "\<not> has_flag FLAG_EXE (so st r)"
  shows "\<exists>st' seen. apkenv_notify_gdb_of_unload r st = Some st'
    \<and> debug_list st' (as @ p # bs) \<and> sys_list st' ss \<and> r_state st' = RT_CONSISTENT
    \<and> apkenv_notify_gdb_of_libraries
        ((apkenv_remove_soinfo_from_debug_map r (st\<lparr>r_state := RT_DELETE\<rparr>))\<lparr>r_state := RT_CONSISTENT\<rparr>)
      = Some (st', seen)
    \<and> so_seq (nxt seen) (r_map seen) (ss @ as @ p # bs)"
proof -
  let ?st = "(apkenv_remove_soinfo_from_debug_map r (st\<lparr>r_state := RT_DELETE\<rparr>))\<lparr>r_state := RT_CONSISTENT\<rparr>"
  have "debug_list ?st (as @ p # bs)" "sys_list ?st ss"
    using remove_debug_list [of "st\<lparr>r_state := RT_DELETE\<rparr>" as p r bs]
      remove_sys_list [of "st\<lparr>r_state := RT_DELETE\<rparr>" as p r bs ss] assms by simp_all
  from notify_libraries [OF this(1) _ this(2)] assms(3) show ?thesis
    by (auto simp: apkenv_notify_gdb_of_unload_def Let_def)
qed

lemma gdb_demo_two:
  "\<exists>st. debug_list st [SoMap (Pool 0), SoMap (Pool 1)] \<and> sys_list st [SysMap 0]
     \<and> so_flags (so st (Pool 1)) = 0"
proof -
  define st where "st = apkenv_insert_soinfo_into_debug_map (Pool 1)
    (apkenv_insert_soinfo_into_debug_map (Pool 0) gdb_demo)"
  have 1: "debug_list (apkenv_insert_soinfo_into_debug_map (Pool 0) gdb_demo) [SoMap (Pool 0)]"
    "sys_list (apkenv_insert_soinfo_into_debug_map (Pool 0) gdb_demo) [SysMap 0]"
    using insert_debug_list [OF gdb_demo_lists(1), of "Pool 0"] insert_sys_list [OF gdb_demo_lists(1) _ gdb_demo_lists(2)]
    by simp_all
  have "debug_list st [SoMap (Pool 0), SoMap (Pool 1)]" "sys_list st [SysMap 0]"
    using insert_debug_list [OF 1(1), of "Pool 1"] insert_sys_list [OF 1(1) _ 1(2), of "Pool 1"]
    by (simp_all add: st_def)
  moreover have "so_flags (so st (Pool 1)) = 0"
    by (simp add: st_def apkenv_insert_soinfo_into_debug_map_def Let_def upd_lm.simps upd_so_def
        gdb_demo_def static_linker_def zero_soinfo_def)
  ultimately show ?thesis by blast
qed

theorem notify_unload_correct_witness:
  "\<exists>st st'. apkenv_notify_gdb_of_unload (Pool 1) st = Some st' \<and> debug_list st' [SoMap (Pool 0)]"
proof -
  obtain st where st: "debug_list st ([] @ SoMap (Pool 0) # SoMap (Pool 1) # [])" "sys_list st [SysMap 0]"
    "so_flags (so st (Pool 1)) = 0" using gdb_demo_two by auto
  with notify_unload_correct [OF st(1,2)] show ?thesis by (fastforce simp: has_flag_def)
qed

text \<open>
  Unloading the first library of the list leaves \<open>apkenv_r_debug_head\<close> on it, so the next
  notification publishes the entry of a library that is gone.
\<close>

lemma notify_unload_head_stale:
  assumes "apkenv_notify_gdb_of_unload r st = Some st'"
  shows "r_debug_head st' = r_debug_head st"
  using assms
  by (auto simp: apkenv_notify_gdb_of_unload_def apkenv_notify_gdb_of_libraries_def Let_def remove_fields
      split: if_splits bind_splits)

end
