(* ===== verification/Elf_Load.thy ===== *)
theory Elf_Load
  imports Elf_Lookup Gdb_Map
begin

text \<open>
  Finding a library file and mapping it (\<open>linker/linker.c\<close>): the search paths, the checks of the
  ELF header, the extents, the reservation of address space and the loading of the segments.

  What the operating system and the C library of the host do is a parameter of the model: the
  record \<open>os\<close>. A library file is its contents, a list of bytes.
\<close>

section \<open>The host\<close>

text \<open>
  \<^item> \<open>os_opens p\<close>: \<open>p\<close> is a regular file and \<open>open\<close> succeeds;
  \<^item> \<open>os_read p\<close>: its contents, or the call that fails while the file is read;
  \<^item> \<open>os_realpath\<close>, \<open>os_realdir\<close>: \<open>realpath(p)\<close> and \<open>realpath(dirname(p))\<close>;
  \<^item> \<open>os_fnmatch pattern p\<close>: \<^verbatim>\<open>!fnmatch(pattern, p, 0)\<close>;
  \<^item> \<open>os_mmap m a len fixed\<close>: the address where \<open>mmap\<close> maps \<open>len\<close> bytes, \<open>None\<close> for MAP_FAILED;
  \<^item> \<open>os_dlopen name flags\<close>, \<open>os_dlsym name\<close>: the host's own dynamic linker, 0 for NULL;
  \<^item> \<open>os_call a st\<close>: a call of the function at address \<open>a\<close> of a loaded library: the memory it
    leaves, or \<open>None\<close> when it does not return;
  \<^item> \<open>os_env v\<close>: \<open>getenv\<close>;
  \<^item> \<open>os_isfunc a\<close>: \<open>dladdr1\<close> knows the address and does not say that it is not a function;
  \<^item> \<open>os_egl\<close>, \<open>os_sigsetjmp\<close>: \<open>eglGetProcAddress\<close> and the address of \<open>__sigsetjmp\<close>;
  \<^item> \<open>os_stub\<close>: the address of the copy of \<open>symbol_not_linked_stub\<close> that \<open>prepare_stub_func\<close> makes
    for a name (it is new executable memory that aborts the program when it is called);
  \<^item> \<open>os_r_debug\<close>: the value of \<open>_r_debug_ptr\<close>, which the main executable sets.
\<close>

datatype io_call = Call_lseek | Call_calloc | Call_read

record os =
  os_opens :: "string \<Rightarrow> bool"
  os_read :: "string \<Rightarrow> io_call + u8 list"
  os_realpath :: "string \<Rightarrow> string option"
  os_realdir :: "string \<Rightarrow> string option"
  os_fnmatch :: "string \<Rightarrow> string \<Rightarrow> bool"
  os_mmap :: "memory \<Rightarrow> u64 \<Rightarrow> u64 \<Rightarrow> bool \<Rightarrow> u64 option"
  os_dlopen :: "string \<Rightarrow> u32 \<Rightarrow> u64"
  os_dlsym :: "string \<Rightarrow> u64"
  os_call :: "u64 \<Rightarrow> memory \<Rightarrow> memory option"
  os_env :: "string \<Rightarrow> string option"
  os_isfunc :: "u64 \<Rightarrow> bool"
  os_egl :: "string \<Rightarrow> u64"
  os_sigsetjmp :: u64
  os_stub :: "string \<Rightarrow> u64"
  os_r_debug :: u64

section \<open>Search paths\<close>

definition SOPATH_MAX :: nat where "SOPATH_MAX = 8"

text \<open>
  \<open>apkenv_sopaths\<close> is the array's entries before its first NULL. The result is the return value
  of the source.
\<close>

definition apkenv_add_sopath :: "string \<Rightarrow> linker \<Rightarrow> int \<times> linker" where
  "apkenv_add_sopath path st =
     (if path \<in> set (take SOPATH_MAX (sopaths st)) then (0, st)
      else if length (sopaths st) < SOPATH_MAX then (0, st\<lparr>sopaths := sopaths st @ [path]\<rparr>)
      else (-1, st))"

text \<open>\<open>apkenv__open_lib\<close> returns a descriptor; in the model, whether there is one.\<close>

definition apkenv__open_lib :: "os \<Rightarrow> string \<Rightarrow> bool" where
  "apkenv__open_lib host name = os_opens host name"

definition OPEN_BUFSIZE :: nat where "OPEN_BUFSIZE = 512"

definition joined :: "string \<Rightarrow> string \<Rightarrow> string" where
  "joined path name = path @ ''/'' @ name"

text \<open>One round of the loop over \<open>apkenv_ldpaths\<close>: the path that is opened, if any.\<close>

definition try_ldpath :: "os \<Rightarrow> string option \<Rightarrow> string \<Rightarrow> string \<Rightarrow> string option" where
  "try_ldpath host dir name path =
     (let ldpath = (case os_realpath host path of None \<Rightarrow> path | Some p \<Rightarrow> p)
      in if (case dir of None \<Rightarrow> False | Some d \<Rightarrow> os_fnmatch host ldpath d) \<and> apkenv__open_lib host name
         then Some name
         else if length (joined path name) \<ge> OPEN_BUFSIZE then None
         else if apkenv__open_lib host (joined path name) then Some (joined path name)
         else None)"

definition try_sopath :: "os \<Rightarrow> string \<Rightarrow> string \<Rightarrow> string option" where
  "try_sopath host name path =
     (if length (joined path name) \<ge> OPEN_BUFSIZE then None
      else if apkenv__open_lib host (joined path name) then Some (joined path name)
      else None)"

fun first_some :: "('a \<Rightarrow> 'b option) \<Rightarrow> 'a list \<Rightarrow> 'b option" where
  "first_some f [] = None"
| "first_some f (x # xs) = (case f x of None \<Rightarrow> first_some f xs | Some y \<Rightarrow> Some y)"

text \<open>The result is the \<open>fullpath\<close> of the file that was opened, \<open>None\<close> for -1.\<close>

definition apkenv_open_library :: "os \<Rightarrow> linker \<Rightarrow> string \<Rightarrow> string option" where
  "apkenv_open_library host st name =
     (if length name > 256 then None
      else case first_some (try_ldpath host (os_realdir host name) name) (ldpaths st) of
             Some p \<Rightarrow> Some p
           | None \<Rightarrow> first_some (try_sopath host name) (sopaths st))"

section \<open>Headers\<close>

text \<open>A field of \<open>n\<close> bytes at an offset of the buffer that holds the file.\<close>

definition file_word :: "u8 list \<Rightarrow> u64 \<Rightarrow> nat \<Rightarrow> 'a::len word option" where
  "file_word bs off n =
     (if unat off + n \<le> length bs then Some (le_word (take n (drop (unat off) bs))) else None)"

definition e_phoff :: "u8 list \<Rightarrow> u64 option" where "e_phoff bs = file_word bs 32 8"
definition e_phnum :: "u8 list \<Rightarrow> u16 option" where "e_phnum bs = file_word bs 56 2"

record phdr =
  p_type :: u32
  p_flags :: u32
  p_offset :: u64
  p_vaddr :: u64
  p_filesz :: u64
  p_memsz :: u64

definition read_phdr :: "u8 list \<Rightarrow> u64 \<Rightarrow> phdr option" where
  "read_phdr bs a = do {
     t \<leftarrow> file_word bs a 4; f \<leftarrow> file_word bs (a + 4) 4; off \<leftarrow> file_word bs (a + 8) 8;
     v \<leftarrow> file_word bs (a + 16) 8; fs \<leftarrow> file_word bs (a + 32) 8; ms \<leftarrow> file_word bs (a + 40) 8;
     Some \<lparr>p_type = t, p_flags = f, p_offset = off, p_vaddr = v, p_filesz = fs, p_memsz = ms\<rparr>
   }"

fun read_phdrs :: "u8 list \<Rightarrow> u64 \<Rightarrow> nat \<Rightarrow> phdr list option" where
  "read_phdrs bs a 0 = Some []"
| "read_phdrs bs a (Suc k) = do { p \<leftarrow> read_phdr bs a; ps \<leftarrow> read_phdrs bs (a + 56) k; Some (p # ps) }"

text \<open>The program headers that the loops of this file go through.\<close>

definition elf_phdrs :: "u8 list \<Rightarrow> phdr list option" where
  "elf_phdrs bs = do { off \<leftarrow> e_phoff bs; n \<leftarrow> e_phnum bs; read_phdrs bs off (unat n) }"

definition PT_LOAD :: u32 where "PT_LOAD = 1"
definition PT_DYNAMIC :: u32 where "PT_DYNAMIC = 2"
definition PT_GNU_RELRO :: u32 where "PT_GNU_RELRO = 0x6474e552"
definition PF_X :: u32 where "PF_X = 1"
definition PF_W :: u32 where "PF_W = 2"
definition PF_R :: u32 where "PF_R = 4"

text \<open>
  \<open>apkenv_is_prelinked\<close>: the last 16 bytes of the file, an address and the tag \<open>PRE\<close> and a blank.
\<close>

definition apkenv_is_prelinked :: "u8 list \<Rightarrow> linker \<Rightarrow> u64 \<times> linker" where
  "apkenv_is_prelinked bs st =
     (if length bs < 16 then (0, dl_err LseekFailed st)
      else let info = drop (length bs - 16) bs
           in if take 4 (drop 8 info) \<noteq> map of_char ''PRE '' then (0, st)
              else (le_word (take 8 info), st))"

definition apkenv_verify_elf_object :: "u8 list \<Rightarrow> int option" where
  "apkenv_verify_elf_object bs = do {
     m0 \<leftarrow> arr_get bs 0;
     if m0 \<noteq> 0x7f then Some (-1) else do {
     m1 \<leftarrow> arr_get bs 1;
     if m1 \<noteq> of_char (CHR ''E'') then Some (-1) else do {
     m2 \<leftarrow> arr_get bs 2;
     if m2 \<noteq> of_char (CHR ''L'') then Some (-1) else do {
     m3 \<leftarrow> arr_get bs 3;
     if m3 \<noteq> of_char (CHR ''F'') then Some (-1) else Some 0 }}}
   }"

text \<open>One round of the loop of \<open>apkenv_get_lib_extents\<close> over \<open>(min_vaddr, max_vaddr)\<close>.\<close>

definition extent_step :: "u64 \<times> u64 \<Rightarrow> phdr \<Rightarrow> u64 \<times> u64" where
  "extent_step mm p =
     (if p_type p = PT_LOAD
      then (if p_vaddr p < fst mm then p_vaddr p else fst mm,
            if p_vaddr p + p_memsz p > snd mm then p_vaddr p + p_memsz p else snd mm)
      else mm)"

definition page_up :: "u64 \<Rightarrow> u64" where
  "page_up a = (a + PAGE_SIZE - 1) AND NOT PAGE_MASK"

text \<open>The result is the requested base and \<open>*total_sz\<close>; the base is -1 on an error.\<close>

definition apkenv_get_lib_extents ::
  "string \<Rightarrow> u8 list \<Rightarrow> linker \<Rightarrow> ((u64 \<times> u64) \<times> linker) option" where
  "apkenv_get_lib_extents name bs st = do {
     v \<leftarrow> apkenv_verify_elf_object bs;
     if v < 0 then Some ((-1, 0), dl_err (NotElf name) st)
     else do {
       let (req_base, st) = apkenv_is_prelinked bs st;
       if req_base = -1 then Some ((-1, 0), st)
       else do {
         ps \<leftarrow> elf_phdrs bs;
         let (mn, mx) = foldl extent_step (0xffffffff, 0) ps;
         if mn = 0xffffffff \<and> mx = 0 then Some ((-1, 0), dl_err (NoLoadableSegments name) st)
         else Some ((req_base, page_up mx - page_of mn), st)
       }
     }
   }"

section \<open>Address space\<close>

text \<open>\<^verbatim>\<open>mmap\<close> of anonymous memory with no access (the reservation) or with the given protection.\<close>

definition map_anon :: "u64 \<Rightarrow> u64 \<Rightarrow> u32 \<Rightarrow> linker \<Rightarrow> linker" where
  "map_anon a len prot st = st\<lparr>mem := mmap_at (mem st) a len prot (\<lambda>_. 0)\<rparr>"

definition apkenv_reserve_mem_region :: "os \<Rightarrow> soref \<Rightarrow> linker \<Rightarrow> int \<times> linker" where
  "apkenv_reserve_mem_region host si st =
     (let base = so_base (so st si); size = so_size (so st si)
      in case os_mmap host (mem st) base size True of
           None \<Rightarrow> (-1, dl_err (MapRequestedFailed (so_name (so st si))) st)
         | Some a \<Rightarrow>
             let st = map_anon a size 0 st
             in if a \<noteq> base
                then (-1, dl_err (MapRequestedFailed (so_name (so st si))) st\<lparr>mem := munmap (mem st) a size\<rparr>)
                else (0, st))"

definition apkenv_alloc_mem_region :: "os \<Rightarrow> soref \<Rightarrow> linker \<Rightarrow> int \<times> linker" where
  "apkenv_alloc_mem_region host si st =
     (if so_base (so st si) \<noteq> 0 then apkenv_reserve_mem_region host si st
      else case os_mmap host (mem st) 0 (so_size (so st si)) False of
             None \<Rightarrow> (-1, dl_err (MapFailed (so_name (so st si))) st)
           | Some a \<Rightarrow>
               (0, upd_so si (\<lambda>i. i\<lparr>so_base := a\<rparr>) (map_anon a (so_size (so st si)) 0 st)))"

definition MAYBE_MAP_FLAG :: "u32 \<Rightarrow> u32 \<Rightarrow> u32 \<Rightarrow> u32" where
  "MAYBE_MAP_FLAG x from to = (if x AND from \<noteq> 0 then to else 0)"

definition PFLAGS_TO_PROT :: "u32 \<Rightarrow> u32" where
  "PFLAGS_TO_PROT x = (MAYBE_MAP_FLAG x PF_X PROT_EXEC OR MAYBE_MAP_FLAG x PF_R PROT_READ)
     OR MAYBE_MAP_FLAG x PF_W PROT_WRITE"

text \<open>
  \<^verbatim>\<open>mmap\<close> of a file: the bytes from the offset on, zero up to the end of the last page that holds a
  byte of the file. The pages behind that one fault on every access, so they are not mapped.
\<close>

definition map_file :: "u64 \<Rightarrow> u64 \<Rightarrow> u32 \<Rightarrow> u8 list \<Rightarrow> u64 \<Rightarrow> linker \<Rightarrow> linker" where
  "map_file a len prot bs off st =
     (let n = length bs - unat off;
          m = mmap_at (mem st) a len prot (\<lambda>i. if i < n then bs ! (unat off + i) else 0);
          beyond = drop ((n + 4095) div 4096) (pages a (unat len))
      in st\<lparr>mem := set_prot beyond None m\<rparr>)"

section \<open>Segments\<close>

text \<open>The range of the text that is to be write protected again; both ends are 32-bit fields.\<close>

definition note_wrprotect :: "u64 \<Rightarrow> u64 \<Rightarrow> soinfo \<Rightarrow> soinfo" where
  "note_wrprotect pbase len si =
     (let si = (if pbase <s ucast (so_wrprotect_start si) then si\<lparr>so_wrprotect_start := ucast pbase\<rparr> else si)
      in if pbase + len > ucast (so_wrprotect_end si) then si\<lparr>so_wrprotect_end := ucast (pbase + len)\<rparr> else si)"

text \<open>One PT_LOAD segment; \<open>Inl\<close> is the jump to \<open>fail\<close>, \<open>Inr\<close> carries the length of the segment.\<close>

definition load_segment ::
  "os \<Rightarrow> u8 list \<Rightarrow> soref \<Rightarrow> phdr \<Rightarrow> linker \<Rightarrow> ((unit + u64) \<times> linker) option" where
  "load_segment host bs r p st = do {
     let base = so_base (so st r);
     let prot = PFLAGS_TO_PROT (p_flags p);
     let tmp = base + page_of (p_vaddr p);
     let len = p_filesz p + (p_vaddr p AND PAGE_MASK);
     case os_mmap host (mem st) tmp len True of
       None \<Rightarrow> Some (Inl (), dl_err (MapSegmentFailed (so_name (so st r))) st)
     | Some pbase \<Rightarrow> do {
         let st = map_file pbase len prot bs (page_of (p_offset p)) st;
         m \<leftarrow> (if len AND PAGE_MASK \<noteq> 0 \<and> p_flags p AND PF_W \<noteq> 0
              then store_bytes (mem st) (pbase + len) (replicate (unat (PAGE_SIZE - (len AND PAGE_MASK))) 0)
              else Some (mem st));
         let st = st\<lparr>mem := m\<rparr>;
         let tmp = page_up (pbase + len);
         let seg_end = base + p_vaddr p + p_memsz p;
         case (if tmp < seg_end
               then map_option (\<lambda>a. map_anon a (seg_end - tmp) prot st) (os_mmap host (mem st) tmp (seg_end - tmp) True)
               else Some st) of
           None \<Rightarrow> Some (Inl (), dl_err (ExtendSegmentFailed (so_name (so st r))) st)
         | Some st \<Rightarrow> do {
             let len = page_up seg_end - pbase;
             Some (Inr len,
               if p_flags p AND PF_W = 0
               then (upd_so r (note_wrprotect pbase len) st)\<lparr>mem := fst (mprotect (mem st) pbase len (prot OR PROT_WRITE))\<rparr>
               else st)
           }
       }
   }"

text \<open>\<^verbatim>\<open>si->gnu_relro_len = (size_t)phdr->p_memsz\<close> stores into an \<open>unsigned\<close>.\<close>

definition load_relro :: "soref \<Rightarrow> phdr \<Rightarrow> linker \<Rightarrow> (unit + u64) \<times> linker" where
  "load_relro r p st =
     (let base = so_base (so st r); size = so_size (so st r)
      in if p_vaddr p \<ge> size \<or> p_vaddr p + p_memsz p > size \<or> base + p_vaddr p + p_memsz p < base
         then (Inl (), dl_err (InvalidGnuRelro (so_name (so st r))) st)
         else (Inr 0, upd_so r (\<lambda>i. i\<lparr>so_gnu_relro_start := base + p_vaddr p, so_gnu_relro_len := ucast (p_memsz p)\<rparr>) st))"

definition load_phdr ::
  "os \<Rightarrow> u8 list \<Rightarrow> soref \<Rightarrow> phdr \<Rightarrow> linker \<Rightarrow> ((unit + u64) \<times> linker) option" where
  "load_phdr host bs r p st =
     (if p_type p = PT_LOAD then load_segment host bs r p st
      else if p_type p = PT_DYNAMIC
      then Some (Inr 0, upd_so r (\<lambda>i. i\<lparr>so_dynamic := so_base (so st r) + p_vaddr p\<rparr>) st)
      else if p_type p = PT_GNU_RELRO then Some (load_relro r p st)
      else Some (Inr 0, st))"

fun load_phdrs ::
  "os \<Rightarrow> u8 list \<Rightarrow> soref \<Rightarrow> phdr list \<Rightarrow> u64 \<Rightarrow> linker \<Rightarrow> ((unit + u64) \<times> linker) option" where
  "load_phdrs host bs r [] sz st = Some (Inr sz, st)"
| "load_phdrs host bs r (p # ps) sz st = do {
     (res, st) \<leftarrow> load_phdr host bs r p st;
     case res of Inl _ \<Rightarrow> Some (Inl (), st) | Inr len \<Rightarrow> load_phdrs host bs r ps (sz + len) st
   }"

definition apkenv_load_segments :: "os \<Rightarrow> u8 list \<Rightarrow> soref \<Rightarrow> linker \<Rightarrow> (int \<times> linker) option" where
  "apkenv_load_segments host bs r st = do {
     let fail = (\<lambda>st. (-1, upd_so r (\<lambda>i. i\<lparr>so_flags := so_flags i OR FLAG_ERROR\<rparr>)
                  (st\<lparr>mem := munmap (mem st) (so_base (so st r)) (so_size (so st r))\<rparr>)));
     ps \<leftarrow> elf_phdrs bs;
     let st = upd_so r (\<lambda>i. i\<lparr>so_wrprotect_start := 0xffffffff, so_wrprotect_end := 0\<rparr>) st;
     (res, st) \<leftarrow> load_phdrs host bs r ps 0 st;
     case res of
       Inl _ \<Rightarrow> Some (fail st)
     | Inr total_sz \<Rightarrow>
         Some (if total_sz > so_size (so st r) then fail (dl_err (SegmentsTooLarge (so_name (so st r))) st)
               else (0, st))
   }"

section \<open>Loading a library\<close>

primrec io_error :: "io_call \<Rightarrow> dl_error" where
  "io_error Call_lseek = LseekFailed"
| "io_error Call_calloc = CallocFailed"
| "io_error Call_read = ReadFailed"

definition RTLD_LAZY :: u32 where "RTLD_LAZY = 1"
definition RTLD_NOW :: u32 where "RTLD_NOW = 2"
definition RTLD_GLOBAL :: u32 where "RTLD_GLOBAL = 0x100"

text \<open>
  The result of \<open>apkenv_load_library\<close>: the object (or NULL) and the handle that the host's
  \<open>dlopen\<close> returned, which is stored through \<open>_glibc_handle\<close> when that is not NULL (\<open>want\<close>).
\<close>

definition glibc_flags :: "u32 \<Rightarrow> bool \<Rightarrow> u32" where
  "glibc_flags f want =
     (let f = (if f AND (RTLD_LAZY OR RTLD_NOW) = 0 then f OR RTLD_NOW else f)
      in if \<not> want then f OR RTLD_GLOBAL else f)"

text \<open>
  The part of \<open>apkenv_load_library\<close> that works on the new object: it sets its fields, reserves the
  address space, loads the segments and finds the program headers. \<open>False\<close> is the jump to \<open>fail\<close>.
\<close>

definition load_mapped ::
  "os \<Rightarrow> u8 list \<Rightarrow> string \<Rightarrow> u64 \<Rightarrow> u64 \<Rightarrow> soref \<Rightarrow> linker \<Rightarrow> (bool \<times> linker) option" where
  "load_mapped host bs fullpath req_base ext_sz r st = do {
     let st = upd_so r (\<lambda>i. i\<lparr>so_fullpath := take (SOINFO_NAME_LEN - 1) fullpath, so_base := req_base,
                so_size := ext_sz, so_flags := 0, so_entry := 0, so_dynamic := -1\<rparr>) st;
     let (a, st) = apkenv_alloc_mem_region host r st;
     if a < 0 then Some (False, st)
     else do {
       (l, st) \<leftarrow> apkenv_load_segments host bs r st;
       if l < 0 then Some (False, st)
       else do {
         phoff \<leftarrow> load64 (mem st) (so_base (so st r) + 32);
         phnum \<leftarrow> load16 (mem st) (so_base (so st r) + 56);
         Some (True, upd_so r (\<lambda>i. i\<lparr>so_phdr := so_base (so st r) + phoff, so_phnum := ucast phnum\<rparr>) st)
       }
     }
   }"

definition apkenv_load_library ::
  "os \<Rightarrow> string \<Rightarrow> bool \<Rightarrow> u32 \<Rightarrow> bool \<Rightarrow> linker \<Rightarrow> ((soref option \<times> u64) \<times> linker) option" where
  "apkenv_load_library host name try_glibc glibc_flag want st =
     (case apkenv_open_library host st name of
        None \<Rightarrow>
          let h = (if try_glibc then os_dlopen host name (glibc_flags glibc_flag want) else 0)
          in if h \<noteq> 0 then Some ((None, if want then h else 0), st)
             else Some ((None, 0), dl_err (LibraryNotFound name) st)
      | Some fullpath \<Rightarrow> (case os_read host fullpath of
          Inl c \<Rightarrow> Some ((None, 0), dl_err (io_error c) st)
        | Inr bs \<Rightarrow> do {
            ((req_base, ext_sz), st) \<leftarrow> apkenv_get_lib_extents name bs st;
            if req_base = -1 then Some ((None, 0), st)
            else do {
              (q, st) \<leftarrow> apkenv_alloc_info (base_name name) st;
              case q of
                None \<Rightarrow> Some ((None, 0), st)
              | Some r \<Rightarrow> do {
                  (ok, st) \<leftarrow> load_mapped host bs fullpath req_base ext_sz r st;
                  if ok then Some ((Some r, 0), st)
                  else do { st \<leftarrow> apkenv_free_info r st; Some ((None, 0), st) }
                }
            }
          }))"

end
