(* ===== verification/Elf_Reloc.thy ===== *)
theory Elf_Reloc
  imports Elf_Load
begin

text \<open>
  Relocation of a loaded library (\<open>linker/linker.c\<close>): \<open>apkenv_reloc_library\<close> for tables of the RELA
  form on x86_64 and aarch64, and the compressed relative relocations of \<open>apkenv_relocate_relr\<close>.
  \<open>wrapper_create\<close> is the one of \<open>wrapper/wrapper.c\<close>, which returns the function it is given.
\<close>

datatype arch = X86_64 | AARCH64

section \<open>Relocation types\<close>

definition R_X86_64_64 :: u32 where "R_X86_64_64 = 1"
definition R_X86_64_PC32 :: u32 where "R_X86_64_PC32 = 2"
definition R_X86_64_GLOB_DAT :: u32 where "R_X86_64_GLOB_DAT = 6"
definition R_X86_64_JUMP_SLOT :: u32 where "R_X86_64_JUMP_SLOT = 7"
definition R_X86_64_RELATIVE :: u32 where "R_X86_64_RELATIVE = 8"
definition R_X86_64_32 :: u32 where "R_X86_64_32 = 10"

definition R_AARCH64_ABS64 :: u32 where "R_AARCH64_ABS64 = 257"
definition R_AARCH64_ABS32 :: u32 where "R_AARCH64_ABS32 = 258"
definition R_AARCH64_ABS16 :: u32 where "R_AARCH64_ABS16 = 259"
definition R_AARCH64_PREL64 :: u32 where "R_AARCH64_PREL64 = 260"
definition R_AARCH64_PREL32 :: u32 where "R_AARCH64_PREL32 = 261"
definition R_AARCH64_PREL16 :: u32 where "R_AARCH64_PREL16 = 262"
definition R_AARCH64_COPY :: u32 where "R_AARCH64_COPY = 1024"
definition R_AARCH64_GLOB_DAT :: u32 where "R_AARCH64_GLOB_DAT = 1025"
definition R_AARCH64_JUMP_SLOT :: u32 where "R_AARCH64_JUMP_SLOT = 1026"
definition R_AARCH64_RELATIVE :: u32 where "R_AARCH64_RELATIVE = 1027"
definition R_AARCH64_TLS_TPREL64 :: u32 where "R_AARCH64_TLS_TPREL64 = 1030"
definition R_AARCH64_TLS_DTPREL32 :: u32 where "R_AARCH64_TLS_DTPREL32 = 1031"

lemmas x86_types = R_X86_64_64_def R_X86_64_PC32_def R_X86_64_GLOB_DAT_def R_X86_64_JUMP_SLOT_def
  R_X86_64_RELATIVE_def R_X86_64_32_def
lemmas aarch64_types = R_AARCH64_ABS64_def R_AARCH64_ABS32_def R_AARCH64_ABS16_def
  R_AARCH64_PREL64_def R_AARCH64_PREL32_def R_AARCH64_PREL16_def R_AARCH64_COPY_def
  R_AARCH64_GLOB_DAT_def R_AARCH64_JUMP_SLOT_def R_AARCH64_RELATIVE_def
  R_AARCH64_TLS_TPREL64_def R_AARCH64_TLS_DTPREL32_def

definition STT_FUNC :: u8 where "STT_FUNC = 2"
definition ELF_ST_TYPE :: "u8 \<Rightarrow> u8" where "ELF_ST_TYPE info = info AND 0xf"

definition ELF_R_SYM :: "u64 \<Rightarrow> u64" where "ELF_R_SYM info = drop_bit 32 info"
definition ELF_R_TYPE :: "u64 \<Rightarrow> u32" where "ELF_R_TYPE info = ucast info"

record rela =
  r_offset :: u64
  r_info :: u64
  r_addend :: u64

definition read_rela :: "memory \<Rightarrow> u64 \<Rightarrow> rela option" where
  "read_rela m a = do {
     off \<leftarrow> load64 m a; info \<leftarrow> load64 m (a + 8); add \<leftarrow> load64 m (a + 16);
     Some \<lparr>r_offset = off, r_info = info, r_addend = add\<rparr>
   }"

section \<open>Resolving the symbol of a relocation\<close>

definition wrapper_create :: "string \<Rightarrow> u64 \<Rightarrow> u64" where
  "wrapper_create symbol function = (if function = 0 then 0 else function)"

text \<open>\<open>wrap_sym_name\<close> has 1024 bytes; a longer name leaves it without a terminating NUL.\<close>

definition WRAP_NAME_SIZE :: nat where "WRAP_NAME_SIZE = 1024"

definition wrap_sym_name :: "string \<Rightarrow> string option" where
  "wrap_sym_name sym_name =
     (if length sym_name < WRAP_NAME_SIZE - 7 then Some (''bionic_'' @ sym_name) else None)"

text \<open>The chain of \<open>else if\<close> behind a failed lookup; 0 means that nothing was found.\<close>

definition host_fallback :: "os \<Rightarrow> memory \<Rightarrow> u64 \<Rightarrow> string \<Rightarrow> u64 option" where
  "host_fallback host m sym_p sym_name =
     (let a = os_dlsym host sym_name
      in if a \<noteq> 0 then Some a
         else if take 2 sym_name = ''gl'' then Some (os_egl host sym_name)
         else if sym_name = ''sigsetjmp'' then Some (os_sigsetjmp host)
         else if os_env host ''LINKER_DIE_AT_RUNTIME'' \<noteq> None
         then do {
           info \<leftarrow> st_info m sym_p;
           Some (if ELF_ST_TYPE info = STT_FUNC then os_stub host sym_name else 0)
         }
         else Some 0)"

text \<open>The value of an unresolved weak reference; \<open>None\<close> is the \<open>default\<close> of the switch.\<close>

definition weak_value :: "arch \<Rightarrow> u32 \<Rightarrow> u64 \<Rightarrow> u64 option" where
  "weak_value ar type reloc = (case ar of
     AARCH64 \<Rightarrow>
       if type \<in> {R_AARCH64_JUMP_SLOT, R_AARCH64_GLOB_DAT, R_AARCH64_ABS64, R_AARCH64_ABS32,
                  R_AARCH64_ABS16, R_AARCH64_RELATIVE} then Some 0 else None
   | X86_64 \<Rightarrow>
       if type \<in> {R_X86_64_JUMP_SLOT, R_X86_64_GLOB_DAT, R_X86_64_32, R_X86_64_64, R_X86_64_RELATIVE}
       then Some 0
       else if type = R_X86_64_PC32 then Some reloc
       else None)"

text \<open>\<open>Inl\<close> is the return of -1, \<open>Inr\<close> carries \<open>sym_addr\<close>.\<close>

definition resolve_symbol ::
  "os \<Rightarrow> arch \<Rightarrow> soref \<Rightarrow> u64 \<Rightarrow> u32 \<Rightarrow> u64 \<Rightarrow> linker \<Rightarrow> ((unit + u64) \<times> linker) option" where
  "resolve_symbol host ar r sy type reloc st = do {
     let si = so st r;
     let sym_p = sym_at si sy;
     let hooked = (\<lambda>name a. if os_isfunc host a then wrapper_create name a else a);
     off \<leftarrow> st_name (mem st) sym_p;
     sym_name \<leftarrow> mem_str (mem st) (so_strtab si + ucast off);
     wrap \<leftarrow> wrap_sym_name sym_name;
     let a = os_dlsym host wrap;
     if a \<noteq> 0 then Some (Inr (hooked sym_name a), st)
     else do {
       ((s, base), st) \<leftarrow> apkenv__do_lookup r sym_name st;
       if s \<noteq> 0 then do {
         v \<leftarrow> st_value (mem st) s;
         info \<leftarrow> st_info (mem st) s;
         Some (Inr (if ELF_ST_TYPE info = STT_FUNC then wrapper_create sym_name (v + base) else v + base), st)
       }
       else do {
         a \<leftarrow> host_fallback host (mem st) sym_p sym_name;
         if a \<noteq> 0 then Some (Inr (hooked sym_name a), st)
         else do {
           info \<leftarrow> st_info (mem st) sym_p;
           if ELF_ST_BIND info \<noteq> STB_WEAK
           then Some (Inl (), dl_err (CannotLocateSymbol sym_name (so_name si)) st)
           else case weak_value ar type reloc of
                  None \<Rightarrow> Some (Inl (), dl_err (UnknownWeakReloc type) st)
                | Some v \<Rightarrow> Some (Inr v, st)
         }
       }
     }
   }"

section \<open>Applying a relocation\<close>

definition store_at :: "u64 \<Rightarrow> u64 \<Rightarrow> linker \<Rightarrow> ((unit + unit) \<times> linker) option" where
  "store_at a v st = do { m \<leftarrow> store64 (mem st) a v; Some (Inr (), st\<lparr>mem := m\<rparr>) }"

definition add_at :: "u64 \<Rightarrow> u64 \<Rightarrow> linker \<Rightarrow> ((unit + unit) \<times> linker) option" where
  "add_at a v st = do { old \<leftarrow> load64 (mem st) a; store_at a (old + v) st }"

text \<open>
  The checked forms of aarch64 compare 64-bit values: \<open>lo\<close> and \<open>hi\<close> are \<^verbatim>\<open>(ElfW(Addr))INT32_MIN\<close>,
  which is sign extended, and \<^verbatim>\<open>(ElfW(Addr))UINT32_MAX\<close>, and the same for 16 bits.
\<close>

definition add_checked :: "u64 \<Rightarrow> u64 \<Rightarrow> u64 \<Rightarrow> u64 \<Rightarrow> linker \<Rightarrow> ((unit + unit) \<times> linker) option" where
  "add_checked lo hi a v st = do {
     old \<leftarrow> load64 (mem st) a;
     if lo \<le> old + v \<and> old + v \<le> hi then store_at a (old + v) st
     else Some (Inl (), dl_err RelocOutOfRange st)
   }"

definition INT32_MIN_addr :: u64 where "INT32_MIN_addr = 0xffffffff80000000"
definition UINT32_MAX_addr :: u64 where "UINT32_MAX_addr = 0xffffffff"
definition INT16_MIN_addr :: u64 where "INT16_MIN_addr = 0xffffffffffff8000"
definition UINT16_MAX_addr :: u64 where "UINT16_MAX_addr = 0xffff"

definition apply_x86_64 ::
  "soref \<Rightarrow> u32 \<Rightarrow> u64 \<Rightarrow> u64 \<Rightarrow> u64 \<Rightarrow> rela \<Rightarrow> linker \<Rightarrow> ((unit + unit) \<times> linker) option" where
  "apply_x86_64 r type sy reloc sym_addr rel st =
     (if type = R_X86_64_JUMP_SLOT \<or> type = R_X86_64_GLOB_DAT then store_at reloc (sym_addr + r_addend rel) st
      else if type = R_X86_64_RELATIVE
      then if sy \<noteq> 0 then Some (Inl (), dl_err OddRelative st)
           else store_at reloc (so_base (so st r) + r_addend rel) st
      else if type = R_X86_64_32 \<or> type = R_X86_64_64 then store_at reloc (sym_addr + r_addend rel) st
      else if type = R_X86_64_PC32 then store_at reloc (sym_addr + r_addend rel - reloc) st
      else Some (Inl (), dl_err (UnknownReloc type) st))"

definition apply_aarch64 ::
  "soref \<Rightarrow> u32 \<Rightarrow> u64 \<Rightarrow> u64 \<Rightarrow> u64 \<Rightarrow> rela \<Rightarrow> linker \<Rightarrow> ((unit + unit) \<times> linker) option" where
  "apply_aarch64 r type sy reloc sym_addr rel st =
     (let v = sym_addr + r_addend rel; pc = v - r_offset rel
      in if type = R_AARCH64_JUMP_SLOT \<or> type = R_AARCH64_GLOB_DAT then store_at reloc v st
      else if type = R_AARCH64_ABS64 then add_at reloc v st
      else if type = R_AARCH64_ABS32 then add_checked INT32_MIN_addr UINT32_MAX_addr reloc v st
      else if type = R_AARCH64_ABS16 then add_checked INT16_MIN_addr UINT16_MAX_addr reloc v st
      else if type = R_AARCH64_PREL64 then add_at reloc pc st
      else if type = R_AARCH64_PREL32 then add_checked INT32_MIN_addr UINT32_MAX_addr reloc pc st
      else if type = R_AARCH64_PREL16 then add_checked INT16_MIN_addr UINT16_MAX_addr reloc pc st
      else if type = R_AARCH64_RELATIVE
      then if sy \<noteq> 0 then Some (Inl (), dl_err OddRelative st)
           else store_at reloc (so_base (so st r) + r_addend rel) st
      else if type = R_AARCH64_COPY then Some (Inl (), dl_err (CopyRelocUnsupported (so_name (so st r))) st)
      else if type = R_AARCH64_TLS_TPREL64 \<or> type = R_AARCH64_TLS_DTPREL32 then Some (Inr (), st)
      else Some (Inl (), dl_err (UnknownReloc type) st))"

text \<open>One round of the loop.\<close>

definition reloc_entry ::
  "os \<Rightarrow> arch \<Rightarrow> soref \<Rightarrow> rela \<Rightarrow> linker \<Rightarrow> ((unit + unit) \<times> linker) option" where
  "reloc_entry host ar r rel st = do {
     let type = ELF_R_TYPE (r_info rel);
     let sy = ELF_R_SYM (r_info rel);
     let reloc = r_offset rel + so_base (so st r);
     if type = 0 then Some (Inr (), st)
     else do {
       (res, st) \<leftarrow> (if sy \<noteq> 0 then resolve_symbol host ar r sy type reloc st else Some (Inr 0, st));
       case res of
         Inl _ \<Rightarrow> Some (Inl (), st)
       | Inr sym_addr \<Rightarrow> (case ar of
           X86_64 \<Rightarrow> apply_x86_64 r type sy reloc sym_addr rel st
         | AARCH64 \<Rightarrow> apply_aarch64 r type sy reloc sym_addr rel st)
     }
   }"

text \<open>\<open>apkenv_reloc_library\<close> for \<open>count\<close> entries at \<open>rela\<close>; the result is its return value.\<close>

fun apkenv_reloc_library ::
  "os \<Rightarrow> arch \<Rightarrow> soref \<Rightarrow> u64 \<Rightarrow> nat \<Rightarrow> linker \<Rightarrow> (int \<times> linker) option" where
  "apkenv_reloc_library host ar r p 0 st = Some (0, st)"
| "apkenv_reloc_library host ar r p (Suc count) st = do {
     rel \<leftarrow> read_rela (mem st) p;
     (res, st) \<leftarrow> reloc_entry host ar r rel st;
     case res of Inl _ \<Rightarrow> Some (-1, st) | Inr _ \<Rightarrow> apkenv_reloc_library host ar r (p + 24) count st
   }"

section \<open>Compressed relative relocations\<close>

definition apkenv_apply_relr_reloc :: "u64 \<Rightarrow> u64 \<Rightarrow> memory \<Rightarrow> memory option" where
  "apkenv_apply_relr_reloc base offset m = do {
     old \<leftarrow> load64 m (offset + base);
     store64 m (offset + base) (old + base)
   }"

lemma unat_drop_bit_less: "entry \<noteq> 0 \<Longrightarrow> unat (drop_bit (Suc 0) entry) < unat (entry :: u64)"
  by (simp add: drop_bit_eq_div unat_div unat_gt_0)

text \<open>The inner loop over the bits of a bitmap entry.\<close>

function relr_bits :: "u64 \<Rightarrow> u64 \<Rightarrow> u64 \<Rightarrow> memory \<Rightarrow> memory option" where
  "relr_bits sobase entry offset m =
     (if entry = 0 then Some m
      else do {
        let entry = drop_bit 1 entry;
        m \<leftarrow> (if entry AND 1 \<noteq> 0 then apkenv_apply_relr_reloc sobase offset m else Some m);
        relr_bits sobase entry (offset + 8) m
      })"
  by pat_completeness auto

termination
  by (relation "measure (\<lambda>(sobase, entry, offset, m). unat entry)") (auto intro: unat_drop_bit_less)

declare relr_bits.simps [simp del]

fun relr_loop :: "u64 \<Rightarrow> u64 \<Rightarrow> nat \<Rightarrow> u64 \<Rightarrow> memory \<Rightarrow> memory option" where
  "relr_loop sobase cur 0 base m = Some m"
| "relr_loop sobase cur (Suc k) base m = do {
     entry \<leftarrow> load64 m cur;
     if entry AND 1 = 0 then do {
       m \<leftarrow> apkenv_apply_relr_reloc sobase entry m;
       relr_loop sobase (cur + 8) k (entry + 8) m
     }
     else do {
       m \<leftarrow> relr_bits sobase entry base m;
       relr_loop sobase (cur + 8) k (base + 504) m
     }
   }"

definition apkenv_relocate_relr :: "soref \<Rightarrow> linker \<Rightarrow> (bool \<times> linker) option" where
  "apkenv_relocate_relr r st = do {
     let si = so st r;
     m \<leftarrow> relr_loop (so_base si) (so_relr si) (unat (so_relr_count si)) 0 (mem st);
     Some (True, st\<lparr>mem := m\<rparr>)
   }"

section \<open>What the compressed table means\<close>

text \<open>
  The offsets that a list of entries encodes: an even entry is an offset; an odd one is a bitmap
  for the 63 words behind the last position.
\<close>

definition bitmap_offsets :: "u64 \<Rightarrow> u64 \<Rightarrow> u64 list" where
  "bitmap_offsets entry base = map (\<lambda>i. base + 8 * of_nat i) (filter (\<lambda>i. bit entry (Suc i)) [0..<63])"

fun relr_decode :: "u64 \<Rightarrow> u64 list \<Rightarrow> u64 list" where
  "relr_decode base [] = []"
| "relr_decode base (e # es) =
     (if bit e 0 then bitmap_offsets e base @ relr_decode (base + 504) es
      else e # relr_decode (e + 8) es)"

fun relr_apply_all :: "u64 \<Rightarrow> u64 list \<Rightarrow> memory \<Rightarrow> memory option" where
  "relr_apply_all sobase [] m = Some m"
| "relr_apply_all sobase (x # xs) m = do { m \<leftarrow> apkenv_apply_relr_reloc sobase x m; relr_apply_all sobase xs m }"

lemma relr_apply_all_append:
  "relr_apply_all sobase (xs @ ys) m = do { m \<leftarrow> relr_apply_all sobase xs m; relr_apply_all sobase ys m }"
  by (induction xs arbitrary: m) (simp_all split: bind_splits)

lemma bitmap_offsets_64:
  "bitmap_offsets entry base = map (\<lambda>i. base + 8 * of_nat i) (filter (\<lambda>i. bit entry (Suc i)) [0..<64])"
proof -
  have "\<not> bit entry 64" by (auto dest: bit_imp_le_length)
  moreover have "[0..<64] = [0..<63] @ [63]" by (simp add: upt_rec)
  ultimately show ?thesis by (simp only: bitmap_offsets_def filter_append) simp
qed

lemma bitmap_offsets_zero: "bitmap_offsets 0 base = []"
  by (simp add: bitmap_offsets_def)

lemma bitmap_offsets_shift:
  "bitmap_offsets entry base =
     (if bit entry 1 then [base] else []) @ bitmap_offsets (drop_bit 1 entry) (base + 8)"
proof -
  have "[0..<64] = 0 # map Suc [0..<63]" by (simp add: upt_conv_Cons map_Suc_upt)
  then have "bitmap_offsets entry base = (if bit entry 1 then [base] else []) @
      map (\<lambda>i. base + 8 * of_nat (Suc i)) (filter (\<lambda>i. bit entry (Suc (Suc i))) [0..<63])"
    unfolding bitmap_offsets_64 by (simp add: filter_map o_def)
  also have "map (\<lambda>i. base + 8 * of_nat (Suc i)) (filter (\<lambda>i. bit entry (Suc (Suc i))) [0..<63])
      = bitmap_offsets (drop_bit 1 entry) (base + 8)"
    by (simp add: bitmap_offsets_def bit_simps algebra_simps)
  finally show ?thesis .
qed

lemma and_one_neq_zero: "x AND 1 \<noteq> 0 \<longleftrightarrow> bit x 0" for x :: "'a::len word"
  by (simp add: and_one_eq odd_iff_mod_2_eq_one bit_0)

lemma relr_bits_eq: "relr_bits sobase entry offset m = relr_apply_all sobase (bitmap_offsets entry offset) m"
proof (induction sobase entry offset m rule: relr_bits.induct)
  case (1 sobase entry offset m)
  show ?case
  proof (cases "entry = 0")
    case True
    then show ?thesis by (simp add: relr_bits.simps bitmap_offsets_zero)
  next
    case False
    have "relr_bits sobase entry offset m = do {
        m \<leftarrow> (if bit entry 1 then apkenv_apply_relr_reloc sobase offset m else Some m);
        relr_bits sobase (drop_bit 1 entry) (offset + 8) m }"
      using False by (subst relr_bits.simps) (simp add: and_one_neq_zero bit_simps)
    also have "\<dots> = do {
        m \<leftarrow> (if bit entry 1 then apkenv_apply_relr_reloc sobase offset m else Some m);
        relr_apply_all sobase (bitmap_offsets (drop_bit 1 entry) (offset + 8)) m }"
      using 1 [OF False refl] by (intro bind_option_cong) (simp_all add: and_one_neq_zero bit_simps)
    also have "\<dots> = relr_apply_all sobase (bitmap_offsets entry offset) m"
      by (subst (2) bitmap_offsets_shift) (simp add: relr_apply_all_append)
    finally show ?thesis .
  qed
qed

text \<open>The words that are relocated can be read and written, and do not overlap each other.\<close>

definition slots_ok :: "u64 \<Rightarrow> u64 list \<Rightarrow> memory \<Rightarrow> bool" where
  "slots_ok sobase xs m \<longleftrightarrow> sorted_wrt (\<lambda>a b. disjoint_words (a + sobase) (b + sobase)) xs
     \<and> (\<forall>x \<in> set xs. word_ok PROT_READ m (x + sobase) \<and> word_ok PROT_WRITE m (x + sobase))"

definition relocated :: "u64 \<Rightarrow> u64 list \<Rightarrow> memory \<Rightarrow> memory \<Rightarrow> bool" where
  "relocated sobase xs m m' \<longleftrightarrow> prot_at m' = prot_at m
     \<and> (\<forall>x \<in> set xs. load64 m' (x + sobase) = map_option (\<lambda>v. v + sobase) (load64 m (x + sobase)))
     \<and> (\<forall>b. (\<forall>x \<in> set xs. disjoint_words (x + sobase) b) \<longrightarrow> load64 m' b = load64 m b)"

lemma word_ok_cong: "prot_at m' = prot_at m \<Longrightarrow> word_ok right m' a = word_ok right m a"
  by (simp add: word_ok_def can_def)

lemma slots_ok_cong: "prot_at m' = prot_at m \<Longrightarrow> slots_ok sobase xs m' = slots_ok sobase xs m"
  using word_ok_cong [of m' m] by (simp add: slots_ok_def)

lemma relr_apply_all_ok:
  "slots_ok sobase xs m \<Longrightarrow> \<exists>m'. relr_apply_all sobase xs m = Some m' \<and> relocated sobase xs m m'"
proof (induction xs arbitrary: m)
  case Nil
  then show ?case by (simp add: relocated_def)
next
  case (Cons x xs)
  let ?a = "x + sobase"
  have ok: "word_ok PROT_READ m ?a" "word_ok PROT_WRITE m ?a"
    and dis: "\<forall>y \<in> set xs. disjoint_words ?a (y + sobase)" and rest: "slots_ok sobase xs m"
    using Cons.prems by (auto simp: slots_ok_def)
  obtain v where v: "load64 m ?a = Some v" using load64_eq [OF ok(1)] by blast
  define m1 where "m1 = put64 ?a (v + sobase) m"
  have a1: "apkenv_apply_relr_reloc sobase x m = Some m1"
    using v store64_eq [OF ok(2)] by (simp add: apkenv_apply_relr_reloc_def m1_def)
  have p1: "prot_at m1 = prot_at m" by (simp add: m1_def)
  obtain m' where m': "relr_apply_all sobase xs m1 = Some m'" "relocated sobase xs m1 m'"
    using Cons.IH [of m1] rest p1 slots_ok_cong by blast
  have same: "load64 m1 ?a = Some (v + sobase)" using load64_put64_same [OF ok(1)] by (simp add: m1_def)
  have other: "disjoint_words ?a b \<Longrightarrow> load64 m1 b = load64 m b" for b
    using load64_put64_other by (simp add: m1_def)
  have "relocated sobase (x # xs) m m'"
    unfolding relocated_def
  proof (intro conjI ballI allI impI)
    show "prot_at m' = prot_at m" using m'(2) p1 by (simp add: relocated_def)
  next
    fix y assume y: "y \<in> set (x # xs)"
    have "load64 m' ?a = load64 m1 ?a"
      using m'(2) dis disjoint_words_sym unfolding relocated_def by blast
    moreover have "load64 m' (y + sobase) = map_option (\<lambda>v. v + sobase) (load64 m (y + sobase))" if "y \<in> set xs"
      using m'(2) that dis other by (simp add: relocated_def)
    ultimately show "load64 m' (y + sobase) = map_option (\<lambda>v. v + sobase) (load64 m (y + sobase))"
      using y same v by auto
  next
    fix b assume "\<forall>y \<in> set (x # xs). disjoint_words (y + sobase) b"
    then show "load64 m' b = load64 m b" using m'(2) other by (simp add: relocated_def)
  qed
  with a1 m'(1) show ?case by auto
qed

text \<open>The entries of the table are in memory from \<open>cur\<close> on.\<close>

primrec relr_table :: "memory \<Rightarrow> u64 \<Rightarrow> u64 list \<Rightarrow> bool" where
  "relr_table m cur [] \<longleftrightarrow> True"
| "relr_table m cur (e # es) \<longleftrightarrow> load64 m cur = Some e \<and> relr_table m (cur + 8) es"

definition table_words :: "u64 \<Rightarrow> nat \<Rightarrow> u64 list" where
  "table_words cur n = map (\<lambda>i. cur + 8 * of_nat i) [0..<n]"

lemma table_words_Suc: "table_words cur (Suc n) = cur # table_words (cur + 8) n"
  by (simp add: table_words_def map_upt_Suc algebra_simps del: upt_Suc)

lemma relr_table_stable:
  "relr_table m cur es \<Longrightarrow> (\<forall>b \<in> set (table_words cur (length es)). load64 m' b = load64 m b) \<Longrightarrow>
     relr_table m' cur es"
  by (induction es arbitrary: cur) (simp_all add: table_words_Suc)

lemma slots_ok_append: "slots_ok sobase (xs @ ys) m \<Longrightarrow> slots_ok sobase xs m \<and> slots_ok sobase ys m"
  by (auto simp: slots_ok_def sorted_wrt_append)

lemma relr_loop_eq:
  assumes "relr_table m cur es" and "slots_ok sobase (relr_decode base es) m"
    and "\<forall>x \<in> set (relr_decode base es). \<forall>b \<in> set (table_words cur (length es)). disjoint_words (x + sobase) b"
  shows "relr_loop sobase cur (length es) base m = relr_apply_all sobase (relr_decode base es) m"
  using assms
proof (induction es arbitrary: cur base m)
  case (Cons e es)
  define xs where "xs = (if bit e 0 then bitmap_offsets e base else [e])"
  define base' where "base' = (if bit e 0 then base + 504 else e + 8)"
  have dec: "relr_decode base (e # es) = xs @ relr_decode base' es" by (simp add: xs_def base'_def)
  have ok: "slots_ok sobase xs m" "slots_ok sobase (relr_decode base' es) m"
    using Cons.prems(2) slots_ok_append unfolding dec by blast+
  obtain m1 where m1: "relr_apply_all sobase xs m = Some m1" "relocated sobase xs m m1"
    using relr_apply_all_ok [OF ok(1)] by blast
  have e: "load64 m cur = Some e" "relr_table m (cur + 8) es" using Cons.prems(1) by simp_all
  have dw: "\<forall>x \<in> set xs \<union> set (relr_decode base' es). \<forall>b \<in> set (table_words (cur + 8) (length es)). disjoint_words (x + sobase) b"
    using Cons.prems(3) unfolding dec by (simp add: table_words_Suc)
  have "\<forall>b \<in> set (table_words (cur + 8) (length es)). load64 m1 b = load64 m b"
    using m1(2) dw unfolding relocated_def by blast
  with e(2) have "relr_table m1 (cur + 8) es" by (rule relr_table_stable)
  moreover have "slots_ok sobase (relr_decode base' es) m1"
    using ok(2) m1(2) slots_ok_cong unfolding relocated_def by blast
  ultimately have IH: "relr_loop sobase (cur + 8) (length es) base' m1 = relr_apply_all sobase (relr_decode base' es) m1"
    using dw by (intro Cons.IH) auto
  have "relr_loop sobase cur (length (e # es)) base m =
      do { m \<leftarrow> relr_apply_all sobase xs m; relr_loop sobase (cur + 8) (length es) base' m }"
    using e(1) and_one_neq_zero [of e] by (auto simp: xs_def base'_def relr_bits_eq)
  with m1(1) IH show ?case unfolding dec by (simp add: relr_apply_all_append)
qed simp

section \<open>Tables of relative relocations\<close>

lemma wrapper_create_id [simp]: "wrapper_create name a = a"
  by (simp add: wrapper_create_def)

primrec rela_table :: "memory \<Rightarrow> u64 \<Rightarrow> rela list \<Rightarrow> bool" where
  "rela_table m p [] \<longleftrightarrow> True"
| "rela_table m p (e # es) \<longleftrightarrow> read_rela m p = Some e \<and> rela_table m (p + 24) es"

definition is_relative :: "arch \<Rightarrow> rela \<Rightarrow> bool" where
  "is_relative ar e \<longleftrightarrow> ELF_R_SYM (r_info e) = 0
     \<and> ELF_R_TYPE (r_info e) = (case ar of X86_64 \<Rightarrow> R_X86_64_RELATIVE | AARCH64 \<Rightarrow> R_AARCH64_RELATIVE)"

lemma reloc_entry_relative:
  assumes "is_relative ar e" and "word_ok PROT_WRITE (mem st) (r_offset e + so_base (so st r))"
  shows "reloc_entry host ar r e st = Some (Inr (), st\<lparr>mem :=
    put64 (r_offset e + so_base (so st r)) (so_base (so st r) + r_addend e) (mem st)\<rparr>)"
  using assms store64_eq [OF assms(2)]
  by (cases ar) (simp_all add: is_relative_def reloc_entry_def apply_x86_64_def apply_aarch64_def
      store_at_def x86_types aarch64_types)

lemma rela_table_stable:
  "rela_table m p es \<Longrightarrow> (\<forall>b \<in> set (table_words p (3 * length es)). load64 m' b = load64 m b) \<Longrightarrow>
     rela_table m' p es"
proof (induction es arbitrary: p)
  case (Cons e es)
  have "table_words p (3 * length (e # es)) = p # (p + 8) # (p + 16) # table_words (p + 24) (3 * length es)"
    by (simp add: table_words_Suc numeral_3_eq_3 algebra_simps)
  with Cons show ?case by (simp add: read_rela_def)
qed simp

text \<open>
  A table of RELATIVE relocations, on either machine: the whole table is processed without a
  fault, every place then holds the load address plus its addend, and no other word changes. The
  places must be writable words that overlap neither each other nor the table.
\<close>

lemma reloc_relative_table:
  assumes "rela_table (mem st) p es" and "\<forall>e \<in> set es. is_relative ar e"
    and "slots_ok (so_base (so st r)) (map r_offset es) (mem st)"
    and "\<forall>e \<in> set es. \<forall>b \<in> set (table_words p (3 * length es)). disjoint_words (r_offset e + so_base (so st r)) b"
  shows "\<exists>m'. apkenv_reloc_library host ar r p (length es) st = Some (0, st\<lparr>mem := m'\<rparr>)
    \<and> prot_at m' = prot_at (mem st)
    \<and> (\<forall>e \<in> set es. load64 m' (r_offset e + so_base (so st r)) = Some (so_base (so st r) + r_addend e))
    \<and> (\<forall>b. (\<forall>e \<in> set es. disjoint_words (r_offset e + so_base (so st r)) b) \<longrightarrow> load64 m' b = load64 (mem st) b)"
  using assms
proof (induction es arbitrary: p st)
  case Nil
  then show ?case by (intro exI [of _ "mem st"]) simp
next
  case (Cons e es)
  let ?base = "so_base (so st r)"
  let ?a = "r_offset e + ?base"
  define m1 where "m1 = put64 ?a (?base + r_addend e) (mem st)"
  define st1 where "st1 = st\<lparr>mem := m1\<rparr>"
  have ok: "word_ok PROT_READ (mem st) ?a" "word_ok PROT_WRITE (mem st) ?a"
    and dis: "\<forall>e' \<in> set es. disjoint_words ?a (r_offset e' + ?base)"
    using Cons.prems(3) by (auto simp: slots_ok_def)
  have one: "reloc_entry host ar r e st = Some (Inr (), st1)"
    using reloc_entry_relative [OF _ ok(2)] Cons.prems(2) by (simp add: st1_def m1_def)
  have other: "disjoint_words ?a b \<Longrightarrow> load64 m1 b = load64 (mem st) b" for b
    using load64_put64_other by (simp add: m1_def)
  have tw: "table_words p (3 * length (e # es)) = p # (p + 8) # (p + 16) # table_words (p + 24) (3 * length es)"
    by (simp add: table_words_Suc numeral_3_eq_3 algebra_simps)
  have "rela_table (mem st) (p + 24) es" using Cons.prems(1) by simp
  moreover have "\<forall>b \<in> set (table_words (p + 24) (3 * length es)). load64 m1 b = load64 (mem st) b"
    using Cons.prems(4) other unfolding tw by simp
  ultimately have t: "rela_table m1 (p + 24) es" by (rule rela_table_stable)
  have "slots_ok ?base (map r_offset es) (mem st)" using Cons.prems(3) by (simp add: slots_ok_def)
  then have s: "slots_ok ?base (map r_offset es) m1"
    using slots_ok_cong [of m1 "mem st"] by (simp add: m1_def)
  obtain m' where m': "apkenv_reloc_library host ar r (p + 24) (length es) st1 = Some (0, st1\<lparr>mem := m'\<rparr>)"
    "prot_at m' = prot_at m1"
    "\<forall>e \<in> set es. load64 m' (r_offset e + ?base) = Some (?base + r_addend e)"
    "\<forall>b. (\<forall>e \<in> set es. disjoint_words (r_offset e + ?base) b) \<longrightarrow> load64 m' b = load64 m1 b"
  proof -
    have f: "mem st1 = m1" "so st1 = so st" by (simp_all add: st1_def)
    have "\<forall>e \<in> set es. is_relative ar e" using Cons.prems(2) by simp
    moreover have "\<forall>e \<in> set es. \<forall>b \<in> set (table_words (p + 24) (3 * length es)). disjoint_words (r_offset e + ?base) b"
      using Cons.prems(4) unfolding tw by simp
    ultimately show ?thesis using that Cons.IH [of st1 "p + 24"] t s unfolding f by blast
  qed
  have "load64 m' ?a = load64 m1 ?a" using m'(4) dis disjoint_words_sym by blast
  also have "\<dots> = Some (?base + r_addend e)" using load64_put64_same [OF ok(1)] by (simp add: m1_def)
  finally have "load64 m' ?a = Some (?base + r_addend e)" .
  moreover have "apkenv_reloc_library host ar r p (length (e # es)) st = Some (0, st\<lparr>mem := m'\<rparr>)"
    using Cons.prems(1) one m'(1) by (simp add: st1_def)
  moreover have "prot_at m' = prot_at (mem st)" using m'(2) by (simp add: m1_def)
  ultimately show ?case using m'(3,4) other by (intro exI [of _ m']) auto
qed

section \<open>Properties\<close>

lemma mem_str_c_string: "mem_str m a = Some s \<Longrightarrow> c_string s"
proof (induction s arbitrary: a)
  case (Cons c s)
  from Cons.prems obtain b where b: "b \<noteq> 0" "c = char_of (unat (b :: u8))" "mem_str m (a + 1) = Some s"
    by (subst (asm) mem_str.simps) (auto split: bind_splits if_splits)
  then have "c \<noteq> NUL"
  proof -
    have "(of_char c :: u8) \<noteq> of_char NUL" using b(1,2) by simp
    then show ?thesis by auto
  qed
  with Cons.IH [OF b(3)] show ?case by simp
qed simp

lemma found_symbol_fields:
  assumes "provided_by st syms name l s" and "\<forall>n \<in> syms l. st_value (mem st) (sym_at (so st l) (ucast n)) \<noteq> None"
  shows "\<exists>v info. st_value (mem st) s = Some v \<and> st_info (mem st) s = Some info"
  using assms by (auto simp: provided_by_def exported_def is_symbol_global_and_defined_def split: bind_splits)

text \<open>A host that knows no symbol and no file.\<close>

definition host0 :: os where
  "host0 = \<lparr>os_opens = (\<lambda>_. False), os_read = (\<lambda>_. Inl Call_lseek), os_realpath = (\<lambda>_. None),
     os_realdir = (\<lambda>_. None), os_fnmatch = (\<lambda>_ _. False), os_mmap = (\<lambda>_ _ _ _. None),
     os_dlopen = (\<lambda>_ _. 0), os_dlsym = (\<lambda>_. 0), os_call = (\<lambda>_ m. Some m), os_env = (\<lambda>_. None),
     os_isfunc = (\<lambda>_. False), os_egl = (\<lambda>_. 0), os_sigsetjmp = 0x7000, os_stub = (\<lambda>_. 0x7100),
     os_r_debug = 0x7200\<rparr>"



text \<open>
  C6. What a relocation of x86_64 stores, for every type that is supported: the symbol's address
  plus the addend (GLOB_DAT, JUMP_SLOT, 64 and 32), less the place for PC32, the load address plus the
  addend for RELATIVE; exactly the eight bytes at the place change. NONE does nothing, RELATIVE with
  a symbol and every other type are errors that leave the memory alone.
\<close>

theorem reloc_entry_x86_64:
  assumes "word_ok PROT_WRITE (mem st') (r_offset rel + so_base (so st r))"
    and "if ELF_R_SYM (r_info rel) = 0 then S = 0 \<and> st' = st
         else resolve_symbol host X86_64 r (ELF_R_SYM (r_info rel)) (ELF_R_TYPE (r_info rel))
                (r_offset rel + so_base (so st r)) st = Some (Inr S, st')"
    and "so st' = so st"
  shows "let type = ELF_R_TYPE (r_info rel); sy = ELF_R_SYM (r_info rel); base = so_base (so st r);
      P = r_offset rel + base; A = r_addend rel; write = (\<lambda>v. Some (Inr (), st'\<lparr>mem := put64 P v (mem st')\<rparr>))
    in reloc_entry host X86_64 r rel st =
      (if type = 0 then Some (Inr (), st)
       else if type \<in> {R_X86_64_GLOB_DAT, R_X86_64_JUMP_SLOT, R_X86_64_64, R_X86_64_32} then write (S + A)
       else if type = R_X86_64_PC32 then write (S + A - P)
       else if type = R_X86_64_RELATIVE \<and> sy = 0 then write (base + A)
       else if type = R_X86_64_RELATIVE then Some (Inl (), dl_err OddRelative st')
       else Some (Inl (), dl_err (UnknownReloc type) st'))"
proof (cases "ELF_R_SYM (r_info rel) = 0")
  case True
  with assms(1,2) show ?thesis
    by (simp add: reloc_entry_def apply_x86_64_def store_at_def x86_types Let_def store64_eq)
next
  case False
  with assms show ?thesis
    by (simp add: reloc_entry_def apply_x86_64_def store_at_def x86_types Let_def store64_eq)
qed

theorem reloc_entry_x86_64_witness:
  "reloc_entry host0 X86_64 Libdl \<lparr>r_offset = 0x50, r_info = 8, r_addend = 0x20\<rparr> demo_state
     = Some (Inr (), demo_state\<lparr>mem := put64 0x1050 0x1020 demo_mem\<rparr>)"
proof -
  have b: "so_base demo_sysv = 0x1000" by (simp add: demo_sysv_def)
  have w: "word_ok PROT_WRITE demo_mem 0x1050" unfolding word_ok_list by code_simp
  show ?thesis
    using reloc_entry_x86_64 [where st' = demo_state and st = demo_state and r = Libdl and host = host0 and S = 0
        and rel = "\<lparr>r_offset = 0x50, r_info = 8, r_addend = 0x20\<rparr>"] b w
    by (simp add: ELF_R_SYM_def ELF_R_TYPE_def x86_types Let_def drop_bit_eq_div)
qed

text \<open>A page with one relocation table entry at its start and a zero word at offset 0x50.\<close>

definition reloc_demo :: linker where
  "reloc_demo = (static_linker sa0 (image 0x1000
     ([0x50,0,0,0,0,0,0,0, 8,0,0,0,0,0,0,0, 0x20,0,0,0,0,0,0,0] @ [0x50,0,0,0,0,0,0,0, 5,0,0,0,0,0,0,0])))
     \<lparr>so := (\<lambda>_. zero_soinfo\<lparr>so_base := 0x1000, so_relr := 0x1018, so_relr_count := 2\<rparr>)\<rparr>"

lemma reloc_demo_fields [simp]:
  "so_base (so reloc_demo r) = 0x1000" "so_relr (so reloc_demo r) = 0x1018" "so_relr_count (so reloc_demo r) = 2"
  by (simp_all add: reloc_demo_def)

lemma reloc_demo_words:
  "word_ok PROT_READ (mem reloc_demo) 0x1050" "word_ok PROT_WRITE (mem reloc_demo) 0x1050"
  "word_ok PROT_READ (mem reloc_demo) 0x1060" "word_ok PROT_WRITE (mem reloc_demo) 0x1060"
  unfolding word_ok_list by code_simp+

text \<open>
  C7. The compressed table of relative relocations: when its entries are \<open>es\<close>, the words at the
  offsets that \<open>es\<close> encodes (an even entry is an offset, an odd one a bitmap of the 63 words that
  follow) each grow by the load address, and no other word changes.
\<close>

theorem relocate_relr_correct:
  assumes "relr_table (mem st) (so_relr (so st r)) es" and "length es = unat (so_relr_count (so st r))"
    and "slots_ok (so_base (so st r)) (relr_decode 0 es) (mem st)"
    and "\<forall>x \<in> set (relr_decode 0 es). \<forall>b \<in> set (table_words (so_relr (so st r)) (length es)).
           disjoint_words (x + so_base (so st r)) b"
  shows "\<exists>m'. apkenv_relocate_relr r st = Some (True, st\<lparr>mem := m'\<rparr>)
    \<and> relocated (so_base (so st r)) (relr_decode 0 es) (mem st) m'"
  using relr_loop_eq [OF assms(1,3,4)] relr_apply_all_ok [OF assms(3)] assms(2)
  by (auto simp: apkenv_relocate_relr_def)

theorem relocate_relr_correct_witness:
  "\<exists>m'. apkenv_relocate_relr Libdl reloc_demo = Some (True, reloc_demo\<lparr>mem := m'\<rparr>)
    \<and> load64 m' 0x1050 = Some 0x1000 \<and> load64 m' 0x1060 = Some 0x1000"
proof -
  have t: "relr_table (mem reloc_demo) 0x1018 [0x50, 5]" by code_simp
  have d: "relr_decode 0 [0x50, 5] = [0x50, 0x60]" by code_simp
  have "disjoint_words 0x1050 0x1060" unfolding disjoint_words_word by code_simp
  then have s: "slots_ok 0x1000 [0x50, 0x60] (mem reloc_demo)" using reloc_demo_words by (simp add: slots_ok_def)
  have w: "\<forall>x \<in> set [0x50, 0x60]. \<forall>b \<in> set (table_words 0x1018 (Suc (Suc 0))). disjoint_words (x + 0x1000) b"
    unfolding disjoint_words_word by code_simp
  have z: "load64 (mem reloc_demo) 0x1050 = Some 0" "load64 (mem reloc_demo) 0x1060 = Some 0" by code_simp+
  obtain m' where "apkenv_relocate_relr Libdl reloc_demo = Some (True, reloc_demo\<lparr>mem := m'\<rparr>)"
    "relocated 0x1000 [0x50, 0x60] (mem reloc_demo) m'"
    using relocate_relr_correct [of reloc_demo Libdl "[0x50, 5]"] t s w unfolding d by auto
  with z show ?thesis by (auto simp: relocated_def)
qed

text \<open>
  The checked relocations of aarch64 (ABS32, ABS16, PREL32, PREL16) compare with the sign extended
  minimum as an unsigned number, which is above the maximum: no value passes, so each of them is
  reported as out of range.
\<close>

lemma aarch64_checked_always_fails:
  "add_checked INT32_MIN_addr UINT32_MAX_addr a v st
     = map_option (\<lambda>_. (Inl (), dl_err RelocOutOfRange st)) (load64 (mem st) a)
   \<and> add_checked INT16_MIN_addr UINT16_MAX_addr a v st
     = map_option (\<lambda>_. (Inl (), dl_err RelocOutOfRange st)) (load64 (mem st) a)"
proof -
  have "\<not> (INT32_MIN_addr \<le> x \<and> x \<le> UINT32_MAX_addr)" "\<not> (INT16_MIN_addr \<le> x \<and> x \<le> UINT16_MAX_addr)" for x
    unfolding INT32_MIN_addr_def UINT32_MAX_addr_def INT16_MIN_addr_def UINT16_MAX_addr_def
    by (auto simp: word_le_nat_alt)
  then have "(INT32_MIN_addr \<le> x \<and> x \<le> UINT32_MAX_addr) = False" "(INT16_MIN_addr \<le> x \<and> x \<le> UINT16_MAX_addr) = False" for x
    by blast+
  then show ?thesis by (cases "load64 (mem st) a") (simp_all only: add_checked_def bind.simps if_False option.map)
qed

end
