(* ===== verification/Link.thy ===== *)
theory Link
  imports Elf_Reloc
begin

text \<open>
  Linking and unloading (\<open>linker/linker.c\<close>): constructors and destructors, the dynamic section,
  the needed libraries, relocation, the protection of the relocated data, and the reference counts.

  Finding a library may load it, which links it, which finds the libraries it needs. The model of
  \<open>apkenv_find_library\<close> has a bound on the depth of this recursion; \<open>link_image\<close> and its loops take the
  function that finds a library as an argument. A loop over a dynamic section ends at its DT_NULL.
\<close>

section \<open>Constructors and destructors\<close>

text \<open>A call of a function of a loaded library: the trace records it.\<close>

definition call_fun :: "os \<Rightarrow> u64 \<Rightarrow> linker \<Rightarrow> linker option" where
  "call_fun host a st = do { m \<leftarrow> os_call host a (mem st); Some (st\<lparr>mem := m, trace := trace st @ [a]\<rparr>) }"

fun call_array_loop :: "os \<Rightarrow> u64 \<Rightarrow> nat \<Rightarrow> u64 \<Rightarrow> linker \<Rightarrow> linker option" where
  "call_array_loop host ctor 0 inc st = Some st"
| "call_array_loop host ctor (Suc n) inc st = do {
     func \<leftarrow> load64 (mem st) ctor;
     st \<leftarrow> (if func = 0 \<or> func = -1 then Some st else call_fun host func st);
     call_array_loop host (ctor + inc) n inc st
   }"

text \<open>The count is an \<open>int\<close>; the callers pass a \<open>size_t\<close>.\<close>

definition int_count :: "u64 \<Rightarrow> int" where
  "int_count n = sint (ucast n :: u32)"

definition apkenv_call_array :: "os \<Rightarrow> u64 \<Rightarrow> int \<Rightarrow> bool \<Rightarrow> linker \<Rightarrow> linker option" where
  "apkenv_call_array host ctor count backwards st =
     (if backwards then call_array_loop host (ctor + 8 * word_of_int (count - 1)) (nat count) (-8) st
      else call_array_loop host ctor (nat count) 8 st)"

text \<open>The loop over the needed libraries, with the recursive call \<open>rec\<close>.\<close>

partial_function (option) ctors_needed ::
  "(soref \<Rightarrow> linker \<Rightarrow> linker option) \<Rightarrow> soref \<Rightarrow> u64 \<Rightarrow> linker \<Rightarrow> linker option" where
  "ctors_needed rec r d st = do {
     tag \<leftarrow> load64 (mem st) d;
     if tag = DT_NULL then Some st
     else if tag = DT_NEEDED then do {
       v \<leftarrow> load64 (mem st) (d + 8);
       if \<not> apkenv_validate_soinfo st v
       then ctors_needed rec r (d + 16) (dl_err (BadNeededPointer (so_name (so st r))) st)
       else do {
         lsi \<leftarrow> so_at st v;
         st \<leftarrow> rec lsi st;
         ctors_needed rec r (d + 16) st
       }
     }
     else ctors_needed rec r (d + 16) st
   }"

fun apkenv_call_constructors_recursive :: "os \<Rightarrow> nat \<Rightarrow> soref \<Rightarrow> linker \<Rightarrow> linker option" where
  "apkenv_call_constructors_recursive host 0 r st = None"
| "apkenv_call_constructors_recursive host (Suc n) r st =
     (if so_constructors_called (so st r) then Some st
      else do {
        let st = upd_so r (\<lambda>i. i\<lparr>so_constructors_called := True\<rparr>) st;
        st \<leftarrow> apkenv_call_array host (so_preinit_array (so st r)) (int_count (so_preinit_array_count (so st r))) False st;
        st \<leftarrow> (if so_dynamic (so st r) \<noteq> 0
               then ctors_needed (apkenv_call_constructors_recursive host n) r (so_dynamic (so st r)) st
               else Some st);
        st \<leftarrow> (if so_init_func (so st r) \<noteq> 0 then call_fun host (so_init_func (so st r)) st else Some st);
        if so_init_array (so st r) \<noteq> 0
        then apkenv_call_array host (so_init_array (so st r)) (int_count (so_init_array_count (so st r))) False st
        else Some st
      })"

definition apkenv_call_destructors :: "os \<Rightarrow> soref \<Rightarrow> linker \<Rightarrow> linker option" where
  "apkenv_call_destructors host r st = do {
     st \<leftarrow> (if so_fini_array (so st r) \<noteq> 0
            then apkenv_call_array host (so_fini_array (so st r)) (int_count (so_fini_array_count (so st r))) True st
            else Some st);
     if so_fini_func (so st r) \<noteq> 0 then call_fun host (so_fini_func (so st r)) st else Some st
   }"

section \<open>The dynamic section\<close>

definition DT_PLTRELSZ :: u64 where "DT_PLTRELSZ = 2"
definition DT_PLTGOT :: u64 where "DT_PLTGOT = 3"
definition DT_HASH :: u64 where "DT_HASH = 4"
definition DT_STRTAB :: u64 where "DT_STRTAB = 5"
definition DT_SYMTAB :: u64 where "DT_SYMTAB = 6"
definition DT_RELA :: u64 where "DT_RELA = 7"
definition DT_RELASZ :: u64 where "DT_RELASZ = 8"
definition DT_INIT :: u64 where "DT_INIT = 12"
definition DT_FINI :: u64 where "DT_FINI = 13"
definition DT_REL :: u64 where "DT_REL = 17"
definition DT_RELSZ :: u64 where "DT_RELSZ = 18"
definition DT_DEBUG :: u64 where "DT_DEBUG = 21"
definition DT_JMPREL :: u64 where "DT_JMPREL = 23"
definition DT_INIT_ARRAY :: u64 where "DT_INIT_ARRAY = 25"
definition DT_FINI_ARRAY :: u64 where "DT_FINI_ARRAY = 26"
definition DT_INIT_ARRAYSZ :: u64 where "DT_INIT_ARRAYSZ = 27"
definition DT_FINI_ARRAYSZ :: u64 where "DT_FINI_ARRAYSZ = 28"
definition DT_PREINIT_ARRAY :: u64 where "DT_PREINIT_ARRAY = 32"
definition DT_PREINIT_ARRAYSZ :: u64 where "DT_PREINIT_ARRAYSZ = 33"
definition DT_RELRSZ :: u64 where "DT_RELRSZ = 35"
definition DT_RELR :: u64 where "DT_RELR = 36"
definition DT_ANDROID_RELR :: u64 where "DT_ANDROID_RELR = 0x6fffe000"
definition DT_ANDROID_RELRSZ :: u64 where "DT_ANDROID_RELRSZ = 0x6fffe001"
definition DT_GNU_HASH :: u64 where "DT_GNU_HASH = 0x6ffffef5"

lemmas dt_defs = DT_NULL_def DT_NEEDED_def DT_PLTRELSZ_def DT_PLTGOT_def DT_HASH_def DT_STRTAB_def
  DT_SYMTAB_def DT_RELA_def DT_RELASZ_def DT_INIT_def DT_FINI_def DT_REL_def DT_RELSZ_def DT_DEBUG_def
  DT_JMPREL_def DT_INIT_ARRAY_def DT_FINI_ARRAY_def DT_INIT_ARRAYSZ_def DT_FINI_ARRAYSZ_def
  DT_PREINIT_ARRAY_def DT_PREINIT_ARRAYSZ_def DT_RELRSZ_def DT_RELR_def DT_ANDROID_RELR_def
  DT_ANDROID_RELRSZ_def DT_GNU_HASH_def

definition powerof2 :: "u32 \<Rightarrow> bool" where "powerof2 x \<longleftrightarrow> (x - 1) AND x = 0"

text \<open>DT_HASH and DT_GNU_HASH read the header of the table at \<open>p\<close>.\<close>

definition dyn_hash :: "memory \<Rightarrow> u64 \<Rightarrow> soinfo \<Rightarrow> soinfo option" where
  "dyn_hash m p si =
     (if so_nbucket si \<noteq> 0 then Some si
      else do {
        nb \<leftarrow> load32 m p;
        nc \<leftarrow> load32 m (p + 4);
        Some (si\<lparr>so_nbucket := ucast nb, so_nchain := ucast nc, so_bucket := p + 8,
                 so_chain := p + 8 + ucast nb * 4\<rparr>)
      })"

text \<open>The result \<open>False\<close> is the early \<open>return false\<close> on a bad number of mask words.\<close>

definition dyn_gnu_hash :: "memory \<Rightarrow> u64 \<Rightarrow> soinfo \<Rightarrow> (bool \<times> soinfo) option" where
  "dyn_gnu_hash m p si = do {
     let si = (if so_nbucket si \<noteq> 0 then si\<lparr>so_nchain := 0\<rparr> else si);
     nb \<leftarrow> load32 m p;
     maskwords \<leftarrow> load32 m (p + 8);
     shift2 \<leftarrow> load32 m (p + 12);
     symndx \<leftarrow> load32 m (p + 4);
     let bucket = p + 16 + 8 * ucast maskwords;
     let si = si\<lparr>so_nbucket := ucast nb, so_gnu_maskwords := maskwords, so_gnu_shift2 := shift2,
                so_gnu_bloom_filter := p + 16, so_bucket := bucket,
                so_chain := bucket + 4 * (ucast nb - ucast symndx)\<rparr>;
     if \<not> powerof2 maskwords then Some (False, si)
     else Some (True, si\<lparr>so_gnu_maskwords := maskwords - 1, so_flags := so_flags si OR FLAG_GNU_HASH\<rparr>)
   }"

text \<open>The entries that only store a field.\<close>

definition dyn_field :: "u64 \<Rightarrow> u64 \<Rightarrow> soinfo \<Rightarrow> soinfo" where
  "dyn_field tag v si =
     (let p = so_base si + v
      in if tag = DT_STRTAB then si\<lparr>so_strtab := p\<rparr>
      else if tag = DT_SYMTAB then si\<lparr>so_symtab := p\<rparr>
      else if tag = DT_JMPREL then si\<lparr>so_plt_rela := p\<rparr>
      else if tag = DT_PLTRELSZ then si\<lparr>so_plt_rela_count := v div 24\<rparr>
      else if tag = DT_PLTGOT then si\<lparr>so_plt_got := p\<rparr>
      else if tag = DT_RELA then si\<lparr>so_rela := p\<rparr>
      else if tag = DT_RELASZ then si\<lparr>so_rela_count := v div 24\<rparr>
      else if tag = DT_RELR \<or> tag = DT_ANDROID_RELR then si\<lparr>so_relr := p\<rparr>
      else if tag = DT_RELRSZ \<or> tag = DT_ANDROID_RELRSZ then si\<lparr>so_relr_count := v div 8\<rparr>
      else if tag = DT_INIT then si\<lparr>so_init_func := p\<rparr>
      else if tag = DT_FINI then si\<lparr>so_fini_func := p\<rparr>
      else if tag = DT_INIT_ARRAY then si\<lparr>so_init_array := p\<rparr>
      else if tag = DT_INIT_ARRAYSZ then si\<lparr>so_init_array_count := v div 8\<rparr>
      else if tag = DT_FINI_ARRAY then si\<lparr>so_fini_array := p\<rparr>
      else if tag = DT_FINI_ARRAYSZ then si\<lparr>so_fini_array_count := v div 8\<rparr>
      else if tag = DT_PREINIT_ARRAY then si\<lparr>so_preinit_array := p\<rparr>
      else if tag = DT_PREINIT_ARRAYSZ then si\<lparr>so_preinit_array_count := v div 8\<rparr>
      else si)"

text \<open>
  One entry at address \<open>d\<close>. \<open>Inl\<close> is \<open>return false\<close>, that is a return of 0 from \<open>apkenv_link_image\<close>.
\<close>

definition dyn_entry ::
  "os \<Rightarrow> soref \<Rightarrow> u64 \<Rightarrow> u64 \<Rightarrow> u64 \<Rightarrow> linker \<Rightarrow> ((unit + unit) \<times> linker) option" where
  "dyn_entry host r d tag v st =
     (let si = so st r; p = so_base si + v
      in if tag = DT_HASH then do {
           si \<leftarrow> dyn_hash (mem st) p si; Some (Inr (), upd_so r (\<lambda>_. si) st)
         }
         else if tag = DT_GNU_HASH then do {
           (ok, si) \<leftarrow> dyn_gnu_hash (mem st) p si;
           let st = upd_so r (\<lambda>_. si) st;
           Some (if ok then (Inr (), st) else (Inl (), dl_err (InvalidMaskwords (so_name si)) st))
         }
         else if tag = DT_DEBUG then do {
           m \<leftarrow> store64 (mem st) (d + 8) (os_r_debug host); Some (Inr (), st\<lparr>mem := m\<rparr>)
         }
         else if tag = DT_REL then Some (Inl (), dl_err (UnsupportedRel (so_name si)) st)
         else if tag = DT_RELSZ then Some (Inl (), dl_err (UnsupportedRelsz (so_name si)) st)
         else Some (Inr (), upd_so r (dyn_field tag v) st))"

partial_function (option) dyn_loop ::
  "os \<Rightarrow> soref \<Rightarrow> u64 \<Rightarrow> linker \<Rightarrow> ((unit + unit) \<times> linker) option" where
  "dyn_loop host r d st = do {
     tag \<leftarrow> load64 (mem st) d;
     if tag = DT_NULL then Some (Inr (), st)
     else do {
       v \<leftarrow> load64 (mem st) (d + 8);
       (res, st) \<leftarrow> dyn_entry host r d tag v st;
       case res of Inl _ \<Rightarrow> Some (Inl (), st) | Inr _ \<Rightarrow> dyn_loop host r (d + 16) st
     }
   }"

section \<open>The program headers of the executable\<close>

definition mem_phdr :: "memory \<Rightarrow> u64 \<Rightarrow> phdr option" where
  "mem_phdr m a = do {
     t \<leftarrow> load32 m a; f \<leftarrow> load32 m (a + 4); off \<leftarrow> load64 m (a + 8);
     v \<leftarrow> load64 m (a + 16); fs \<leftarrow> load64 m (a + 32); ms \<leftarrow> load64 m (a + 40);
     Some \<lparr>p_type = t, p_flags = f, p_offset = off, p_vaddr = v, p_filesz = fs, p_memsz = ms\<rparr>
   }"

definition exe_load :: "soref \<Rightarrow> phdr \<Rightarrow> linker \<Rightarrow> linker" where
  "exe_load r p st =
     (let base = so_base (so st r);
          st = upd_so r (\<lambda>i. if p_vaddr p + p_memsz p > so_size i then i\<lparr>so_size := p_vaddr p + p_memsz p\<rparr> else i) st
      in if p_flags p AND PF_W \<noteq> 0 then st
         else let e = page_up (base + p_vaddr p + p_memsz p);
                  st = upd_so r (\<lambda>i. if base + p_vaddr p < ucast (so_wrprotect_start i)
                         then i\<lparr>so_wrprotect_start := ucast (base + p_vaddr p)\<rparr> else i) st;
                  st = upd_so r (\<lambda>i. if ucast (so_wrprotect_end i) <s e then i\<lparr>so_wrprotect_end := ucast e\<rparr> else i) st
              in st\<lparr>mem := fst (mprotect (mem st) (base + p_vaddr p) (p_memsz p) (PFLAGS_TO_PROT (p_flags p) OR PROT_WRITE))\<rparr>)"

definition exe_phdr :: "soref \<Rightarrow> phdr \<Rightarrow> linker \<Rightarrow> (unit + unit) \<times> linker" where
  "exe_phdr r p st =
     (if p_type p = PT_LOAD then (Inr (), exe_load r p st)
      else if p_type p = PT_DYNAMIC
      then if so_dynamic (so st r) \<noteq> -1 then (Inl (), dl_err (MultipleDynamic (so_name (so st r))) st)
           else (Inr (), upd_so r (\<lambda>i. i\<lparr>so_dynamic := so_base i + p_vaddr p\<rparr>) st)
      else if p_type p = PT_GNU_RELRO
      then (case load_relro r p st of (res, st) \<Rightarrow> (map_sum id (\<lambda>_. ()) res, st))
      else (Inr (), st))"

fun exe_phdrs :: "soref \<Rightarrow> u64 \<Rightarrow> nat \<Rightarrow> linker \<Rightarrow> ((unit + unit) \<times> linker) option" where
  "exe_phdrs r a 0 st = Some (Inr (), st)"
| "exe_phdrs r a (Suc n) st = do {
     p \<leftarrow> mem_phdr (mem st) a;
     (case exe_phdr r p st of
        (Inl _, st) \<Rightarrow> Some (Inl (), st)
      | (Inr _, st) \<Rightarrow> exe_phdrs r (a + 56) n st)
   }"

section \<open>Linking\<close>

type_synonym finder = "string \<Rightarrow> linker \<Rightarrow> ((soref option \<times> u64) \<times> linker) option"

text \<open>
  The loop that loads the needed libraries. A library that cannot be loaded is replaced by the
  built-in object. The address of the object takes the place of the name's offset in the entry.
\<close>

partial_function (option) needed_loop ::
  "finder \<Rightarrow> soref \<Rightarrow> u64 \<Rightarrow> linker \<Rightarrow> linker option" where
  "needed_loop find_lib r d st = do {
     tag \<leftarrow> load64 (mem st) d;
     if tag = DT_NULL then Some st
     else if tag = DT_NEEDED then do {
       v \<leftarrow> load64 (mem st) (d + 8);
       name \<leftarrow> mem_str (mem st) (so_strtab (so st r) + v);
       ((q, _), st) \<leftarrow> find_lib name st;
       let lsi = (case q of None \<Rightarrow> Libdl | Some l \<Rightarrow> l);
       m \<leftarrow> store64 (mem st) (d + 8) (so_ptr st lsi);
       let st = upd_so lsi (\<lambda>i. i\<lparr>so_refcount := so_refcount i + 1\<rparr>) (st\<lparr>mem := m\<rparr>);
       needed_loop find_lib r (d + 16) st
     }
     else needed_loop find_lib r (d + 16) st
   }"

text \<open>
  \<open>apkenv_create_latehook_wrappers\<close>: \<open>wrapper_create\<close> has no effect, so what is left of it are the
  reads of the symbol table.
\<close>

fun apkenv_create_latehook_wrappers :: "memory \<Rightarrow> soinfo \<Rightarrow> nat \<Rightarrow> u64 \<Rightarrow> unit option" where
  "apkenv_create_latehook_wrappers m si 0 n = Some ()"
| "apkenv_create_latehook_wrappers m si (Suc k) n = do {
     let s = sym_at si n;
     info \<leftarrow> st_info m s;
     (if ELF_ST_BIND info = STB_GLOBAL \<or> ELF_ST_BIND info = STB_WEAK then do {
        x \<leftarrow> st_shndx m s;
        (if x \<noteq> 0 \<and> ELF_ST_TYPE info = STT_FUNC then do {
           _ \<leftarrow> st_name m s;
           _ \<leftarrow> st_value m s;
           Some ()
         } else Some ())
      } else Some ());
     apkenv_create_latehook_wrappers m si k (n + 1)
   }"

text \<open>Write protection of the text, then of the relocated data; the result tells a failure of the second.\<close>

definition protect_text :: "soref \<Rightarrow> linker \<Rightarrow> linker" where
  "protect_text r st =
     (let si = so st r
      in if so_wrprotect_start si \<noteq> 0xffffffff \<and> so_wrprotect_end si \<noteq> 0
         then st\<lparr>mem := fst (mprotect (mem st) (ucast (so_wrprotect_start si))
                   (ucast (so_wrprotect_end si - so_wrprotect_start si)) (PROT_READ OR PROT_EXEC))\<rparr>
         else st)"

definition relro_range :: "soinfo \<Rightarrow> u64 \<times> u64" where
  "relro_range si =
     (let start = page_of (so_gnu_relro_start si)
      in (start, (so_gnu_relro_start si - start) + ucast (so_gnu_relro_len si)))"

definition has_relro :: "soinfo \<Rightarrow> bool" where
  "has_relro si \<longleftrightarrow> so_gnu_relro_start si \<noteq> 0 \<and> so_gnu_relro_len si \<noteq> 0"

definition protect_relro :: "soref \<Rightarrow> linker \<Rightarrow> bool \<times> linker" where
  "protect_relro r st =
     (if has_relro (so st r)
      then let (start, len) = relro_range (so st r); (m, rc) = mprotect (mem st) start len PROT_READ
           in if rc < 0 then (False, dl_err (RelroProtectFailed (so_name (so st r))) (st\<lparr>mem := m\<rparr>))
              else (True, st\<lparr>mem := m\<rparr>)
      else (True, st))"

definition link_fail :: "soref \<Rightarrow> linker \<Rightarrow> int \<times> linker" where
  "link_fail r st = (-1, upd_so r (\<lambda>i. i\<lparr>so_flags := so_flags i OR FLAG_ERROR\<rparr>) st)"

text \<open>The relocations of a library: \<open>False\<close> when one of the tables fails.\<close>

definition link_relocate :: "os \<Rightarrow> arch \<Rightarrow> soref \<Rightarrow> linker \<Rightarrow> (bool \<times> linker) option" where
  "link_relocate host ar r st = do {
     (rc, st) \<leftarrow> (if so_plt_rela (so st r) \<noteq> 0
        then apkenv_reloc_library host ar r (so_plt_rela (so st r)) (unat (so_plt_rela_count (so st r))) st
        else Some (0, st));
     if rc \<noteq> 0 then Some (False, st)
     else do {
       (rc, st) \<leftarrow> (if so_rela (so st r) \<noteq> 0
          then apkenv_reloc_library host ar r (so_rela (so st r)) (unat (so_rela_count (so st r))) st
          else Some (0, st));
       if rc \<noteq> 0 then Some (False, st)
       else if so_relr (so st r) \<noteq> 0 then apkenv_relocate_relr r st
       else Some (True, st)
     }
   }"

text \<open>
  The end of \<open>apkenv_link_image\<close>, once the needed libraries are loaded. \<open>apkenv_program_is_setuid\<close> is
  never set, so \<open>apkenv_nullify_closed_stdio\<close> is not called.
\<close>

definition link_finish :: "os \<Rightarrow> arch \<Rightarrow> soref \<Rightarrow> linker \<Rightarrow> (int \<times> linker) option" where
  "link_finish host ar r st = do {
     (ok, st) \<leftarrow> link_relocate host ar r st;
     if \<not> ok then Some (link_fail r st)
     else do {
       apkenv_create_latehook_wrappers (mem st) (so st r) (unat (so_nchain (so st r))) 0;
       let st = upd_so r (\<lambda>i. i\<lparr>so_flags := so_flags i OR FLAG_LINKED\<rparr>) st;
       let st = protect_text r st;
       let (ok, st) = protect_relro r st;
       if \<not> ok then Some (link_fail r st)
       else do { st \<leftarrow> apkenv_notify_gdb_of_load r st; Some (0, st) }
     }
   }"

text \<open>
  The beginning of \<open>apkenv_link_image\<close>, up to the needed libraries; \<open>Inl\<close> is an early return. The static
  array of preload names is never filled, so the executable's preloads are the empty list.
\<close>

definition link_prepare :: "os \<Rightarrow> soref \<Rightarrow> linker \<Rightarrow> ((int + unit) \<times> linker) option" where
  "link_prepare host r st = do {
     let fail = (\<lambda>st. map_prod Inl id (link_fail r st));
     (res, st) \<leftarrow> (if so_flags (so st r) AND (FLAG_EXE OR FLAG_LINKER) \<noteq> 0
        then exe_phdrs r (so_phdr (so st r)) (nat (int_count (so_phnum (so st r))))
               (upd_so r (\<lambda>i. i\<lparr>so_size := 0\<rparr>) st)
        else Some (Inr (), st));
     if isl res then Some (fail st)
     else if so_dynamic (so st r) = -1 then Some (fail (dl_err MissingDynamic st))
     else do {
       (res, st) \<leftarrow> dyn_loop host r (so_dynamic (so st r)) st;
       if isl res then Some (Inl 0, st)
       else if so_strtab (so st r) = 0 \<or> so_symtab (so st r) = 0 then Some (fail (dl_err MissingTables st))
       else Some (Inr (), if has_flag FLAG_EXE (so st r) then st\<lparr>preloads := []\<rparr> else st)
     }
   }"

definition apkenv_link_image ::
  "os \<Rightarrow> arch \<Rightarrow> finder \<Rightarrow> soref \<Rightarrow> linker \<Rightarrow> (int \<times> linker) option" where
  "apkenv_link_image host ar find_lib r st = do {
     (res, st) \<leftarrow> link_prepare host r st;
     case res of
       Inl rc \<Rightarrow> Some (rc, st)
     | Inr _ \<Rightarrow> do {
         st \<leftarrow> needed_loop find_lib r (so_dynamic (so st r)) st;
         link_finish host ar r st
       }
   }"

definition apkenv_init_library ::
  "os \<Rightarrow> arch \<Rightarrow> finder \<Rightarrow> soref \<Rightarrow> linker \<Rightarrow> (soref option \<times> linker) option" where
  "apkenv_init_library host ar find_lib r st = do {
     (rc, st) \<leftarrow> apkenv_link_image host ar find_lib r st;
     Some (if rc \<noteq> 0
           then (None, st\<lparr>mem := munmap (mem st) (so_base (so st r)) (so_size (so st r))\<rparr>)
           else (Some r, st))
   }"

section \<open>Finding a library\<close>

definition strip_prefix :: "string \<Rightarrow> string" where
  "strip_prefix name =
     (if take 12 name = ''/system/lib/'' then drop 12 name
      else if take 14 name = ''/system/lib64/'' then drop 14 name
      else name)"

definition apply_override :: "(string \<times> string) list \<Rightarrow> string \<Rightarrow> string" where
  "apply_override ov name = (case map_of ov name of None \<Rightarrow> name | Some t \<Rightarrow> t)"

text \<open>The loop over the loaded libraries: the first one of the name.\<close>

partial_function (option) by_name_loop :: "linker \<Rightarrow> string \<Rightarrow> soref option \<Rightarrow> soref option option" where
  "by_name_loop st bname p = (case p of None \<Rightarrow> Some None
     | Some r \<Rightarrow> if so_name (so st r) = bname then Some (Some r) else by_name_loop st bname (next_of st r))"

text \<open>\<open>wrapper_set_cpp_demangler\<close> does nothing; the lookup in front of it reads the symbol.\<close>

definition set_demangler :: "soref \<Rightarrow> string \<Rightarrow> linker \<Rightarrow> unit option" where
  "set_demangler r bname st =
     (if bname = ''libstdc++.so'' then do {
        s \<leftarrow> apkenv_lookup_in_library st r ''__cxa_demangle'';
        if s \<noteq> 0 then do { info \<leftarrow> st_info (mem st) s;
          if ELF_ST_BIND info = STB_GLOBAL then do {
            x \<leftarrow> st_shndx (mem st) s;
            if x \<noteq> 0 then do { _ \<leftarrow> st_value (mem st) s; Some () } else Some () }
          else Some () }
        else Some ()
      } else Some ())"

text \<open>
  \<open>apkenv_find_library\<close> for a name that is not NULL (for NULL it returns \<open>apkenv_somain\<close>). The first
  argument bounds the depth of nested loads.
\<close>

fun apkenv_find_library ::
  "os \<Rightarrow> arch \<Rightarrow> nat \<Rightarrow> bool \<Rightarrow> u32 \<Rightarrow> bool \<Rightarrow> string \<Rightarrow> linker \<Rightarrow> ((soref option \<times> u64) \<times> linker) option" where
  "apkenv_find_library host ar 0 try_glibc glibc_flag want name st = None"
| "apkenv_find_library host ar (Suc n) try_glibc glibc_flag want name st = do {
     let name = apply_override (lib_override_map st) (strip_prefix name);
     let bname = base_name name;
     q \<leftarrow> by_name_loop st bname (solist st);
     case q of
       Some r \<Rightarrow>
         if has_flag FLAG_ERROR (so st r) then Some ((None, 0), dl_err (FailedPreviously bname) st)
         else if has_flag FLAG_LINKED (so st r) then Some ((Some r, 0), st)
         else Some ((None, 0), dl_err (RecursiveLink (so_name (so st r))) st)
     | None \<Rightarrow> do {
         ((q, h), st) \<leftarrow> apkenv_load_library host name try_glibc glibc_flag want st;
         case q of
           None \<Rightarrow> Some ((None, h), st)
         | Some r \<Rightarrow> do {
             (q, st) \<leftarrow> apkenv_init_library host ar
               (apkenv_find_library host ar n True RTLD_NOW False) r st;
             case q of
               None \<Rightarrow> Some ((None, h), st)
             | Some r \<Rightarrow> do { set_demangler r bname st; Some ((Some r, h), st) }
           }
       }
   }"

section \<open>Unloading\<close>

text \<open>The loop over the needed libraries; \<open>rec\<close> is the recursive call.\<close>

partial_function (option) unload_needed ::
  "(soref \<Rightarrow> linker \<Rightarrow> (u32 \<times> linker) option) \<Rightarrow> soref \<Rightarrow> u64 \<Rightarrow> linker \<Rightarrow> linker option" where
  "unload_needed rec r d st = do {
     tag \<leftarrow> load64 (mem st) d;
     if tag = DT_NULL then Some st
     else if tag = DT_NEEDED then do {
       v \<leftarrow> load64 (mem st) (d + 8);
       m \<leftarrow> store64 (mem st) (d + 8) 0;
       let st = st\<lparr>mem := m\<rparr>;
       if apkenv_validate_soinfo st v then do {
         lsi \<leftarrow> so_at st v;
         (_, st) \<leftarrow> rec lsi st;
         unload_needed rec r (d + 16) st
       }
       else unload_needed rec r (d + 16) (dl_err (NeededUnloadFailed (so_name (so st r))) st)
     }
     else unload_needed rec r (d + 16) st
   }"

definition unprotect_relro :: "soref \<Rightarrow> linker \<Rightarrow> linker" where
  "unprotect_relro r st =
     (if has_relro (so st r)
      then let (start, len) = relro_range (so st r);
               (m, rc) = mprotect (mem st) start len (PROT_READ OR PROT_WRITE)
           in if rc < 0 then dl_err (RelroUndoFailed (so_name (so st r))) (st\<lparr>mem := m\<rparr>) else st\<lparr>mem := m\<rparr>
      else st)"

text \<open>The first argument bounds the depth of nested unloads. The result is the reference count
  that is left, as an \<open>unsigned int\<close>.\<close>

fun apkenv_unload_library :: "os \<Rightarrow> nat \<Rightarrow> soref \<Rightarrow> linker \<Rightarrow> (u32 \<times> linker) option" where
  "apkenv_unload_library host 0 r st = None"
| "apkenv_unload_library host (Suc n) r st =
     (if so_refcount (so st r) = 1 then do {
        st \<leftarrow> apkenv_call_destructors host r st;
        let st = unprotect_relro r st;
        st \<leftarrow> unload_needed (apkenv_unload_library host n) r (so_dynamic (so st r)) st;
        let st = st\<lparr>mem := munmap (mem st) (so_base (so st r)) (so_size (so st r))\<rparr>;
        st \<leftarrow> apkenv_notify_gdb_of_unload r st;
        st \<leftarrow> apkenv_free_info r st;
        Some (0, upd_so r (\<lambda>i. i\<lparr>so_refcount := 0\<rparr>) st)
      }
      else do {
        let st = upd_so r (\<lambda>i. i\<lparr>so_refcount := so_refcount i - 1\<rparr>) st;
        Some (ucast (so_refcount (so st r)), st)
      })"

end
