(* ===== verification/Link_Invariants.thy ===== *)
theory Link_Invariants
  imports Link
begin

text \<open>
  The registry of libraries under everything that the linker does. Only \<open>apkenv_alloc_info\<close> and
  \<open>apkenv_free_info\<close> change the lists of \<open>Soinfo_Pool\<close>; every other operation leaves them alone, which
  is the relation \<open>same_pool\<close>. From this follow the invariant of \<open>apkenv_find_library\<close> and that its
  recursion ends: each nested load takes a slot.
\<close>

section \<open>Operations that leave the registry alone\<close>

named_theorems pool_frame "operations that leave the registry alone"

definition same_pool :: "linker \<Rightarrow> linker \<Rightarrow> bool" where
  "same_pool st st' \<longleftrightarrow> (\<forall>r. so_next (so st' r) = so_next (so st r)) \<and> solist st' = solist st
     \<and> freelist st' = freelist st \<and> sonext st' = sonext st \<and> socount st' = socount st
     \<and> lib_override_map st' = lib_override_map st \<and> sopool_addr st' = sopool_addr st
     \<and> libdl_addr st' = libdl_addr st"

lemma same_pool_refl [simp]: "same_pool st st"
  by (simp add: same_pool_def)

lemma same_pool_trans: "same_pool a b \<Longrightarrow> same_pool b c \<Longrightarrow> same_pool a c"
  by (simp add: same_pool_def)

lemma same_pool_fields [simp]:
  "same_pool st (st'\<lparr>mem := m\<rparr>) = same_pool st st'" "same_pool st (st'\<lparr>trace := t\<rparr>) = same_pool st st'"
  "same_pool st (st'\<lparr>last_library_used := n\<rparr>) = same_pool st st'" "same_pool st (st'\<lparr>preloads := p\<rparr>) = same_pool st st'"
  "same_pool st (st'\<lparr>r_state := s\<rparr>) = same_pool st st'" "same_pool st (st'\<lparr>r_debug_head := h\<rparr>) = same_pool st st'"
  "same_pool st (st'\<lparr>r_debug_tail := h\<rparr>) = same_pool st st'" "same_pool st (st'\<lparr>sys_map := f\<rparr>) = same_pool st st'"
  "same_pool st (dl_err e st') = same_pool st st'"
  by (simp_all add: same_pool_def dl_err_def)

lemma same_pool_upd_so:
  "(\<And>i. so_next (f i) = so_next i) \<Longrightarrow> same_pool st (upd_so r f st') = same_pool st st'"
  by (auto simp: same_pool_def upd_so_def)

lemma same_pool_upd_lm [simp]: "same_pool st (upd_lm q f st') = same_pool st st'"
  by (cases q) (simp_all add: upd_lm.simps same_pool_upd_so)

lemma pool_lists_same: "same_pool st st' \<Longrightarrow> pool_lists st' ls fs = pool_lists st ls fs"
  by (rule pool_lists_cong) (simp_all add: same_pool_def)

lemma same_pool_inv: "same_pool st st' \<Longrightarrow> pool_inv st \<Longrightarrow> pool_inv st' \<and> loaded st' = loaded st"
  by (metis pool_inv_def pool_lists_loaded pool_lists_same)

text \<open>Lookups, relocations and calls.\<close>

lemma do_lookup_frame [pool_frame]: "apkenv__do_lookup r name st = Some (x, st') \<Longrightarrow> same_pool st st'"
  by (auto simp: apkenv__do_lookup_def Let_def split: bind_splits if_splits option.splits sum.splits prod.splits)

lemma resolve_symbol_frame [pool_frame]:
  "resolve_symbol host ar r sy type reloc st = Some (x, st') \<Longrightarrow> same_pool st st'"
  by (auto simp: resolve_symbol_def Let_def split: bind_splits if_splits option.splits prod.splits dest!: do_lookup_frame)

lemma store_at_frame [pool_frame]: "store_at a v st = Some (x, st') \<Longrightarrow> same_pool st st'"
  by (auto simp: store_at_def split: bind_splits)

lemma add_at_frame [pool_frame]: "add_at a v st = Some (x, st') \<Longrightarrow> same_pool st st'"
  by (auto simp: add_at_def split: bind_splits dest: store_at_frame)

lemma add_checked_frame [pool_frame]: "add_checked lo hi a v st = Some (x, st') \<Longrightarrow> same_pool st st'"
  by (auto simp: add_checked_def split: bind_splits if_splits dest: store_at_frame)

lemma apply_x86_64_frame [pool_frame]: "apply_x86_64 r type sy reloc a rel st = Some (x, st') \<Longrightarrow> same_pool st st'"
  by (auto simp: apply_x86_64_def split: if_splits dest: store_at_frame)

lemma apply_aarch64_frame [pool_frame]: "apply_aarch64 r type sy reloc a rel st = Some (x, st') \<Longrightarrow> same_pool st st'"
  by (auto simp: apply_aarch64_def Let_def split: if_splits dest: store_at_frame add_at_frame add_checked_frame)

lemma reloc_entry_frame [pool_frame]:
  assumes "reloc_entry host ar r rel st = Some (x, st')" shows "same_pool st st'"
proof (cases "ELF_R_TYPE (r_info rel) = 0")
  case True
  with assms show ?thesis by (simp add: reloc_entry_def)
next
  case False
  let ?res = "if ELF_R_SYM (r_info rel) \<noteq> 0 then resolve_symbol host ar r (ELF_R_SYM (r_info rel)) (ELF_R_TYPE (r_info rel))
      (r_offset rel + so_base (so st r)) st else Some (Inr 0, st)"
  obtain y st1 where y: "?res = Some (y, st1)"
    using assms False by (auto simp: reloc_entry_def Let_def split: bind_splits)
  then have "same_pool st st1" by (auto split: if_splits dest: resolve_symbol_frame)
  moreover have "same_pool st1 st'"
    using assms False y by (auto simp: reloc_entry_def Let_def split: sum.splits arch.splits
        dest: apply_x86_64_frame apply_aarch64_frame)
  ultimately show ?thesis by (rule same_pool_trans)
qed

lemma reloc_library_frame [pool_frame]:
  "apkenv_reloc_library host ar r p n st = Some (x, st') \<Longrightarrow> same_pool st st'"
proof (induction n arbitrary: p st)
  case (Suc n)
  then obtain rel y st1 where "reloc_entry host ar r rel st = Some (y, st1)"
    "(case y of Inl _ \<Rightarrow> Some (-1, st1) | Inr _ \<Rightarrow> apkenv_reloc_library host ar r (p + 24) n st1) = Some (x, st')"
    by (auto split: bind_splits)
  moreover from this(1) have "same_pool st st1" by (rule reloc_entry_frame)
  ultimately show ?case using Suc.IH [of "p + 24" st1]
    by (auto split: sum.splits) (blast intro: same_pool_trans)+
qed simp

lemma relocate_relr_frame [pool_frame]: "apkenv_relocate_relr r st = Some (x, st') \<Longrightarrow> same_pool st st'"
  by (auto simp: apkenv_relocate_relr_def Let_def split: bind_splits)

lemma link_relocate_frame [pool_frame]:
  "link_relocate host ar r st = Some (x, st') \<Longrightarrow> same_pool st st'"
  by (auto simp: link_relocate_def split: bind_splits if_splits dest!: reloc_library_frame relocate_relr_frame)
    (blast intro: same_pool_trans)+

lemma call_fun_frame [pool_frame]: "call_fun host a st = Some st' \<Longrightarrow> same_pool st st'"
  by (auto simp: call_fun_def split: bind_splits)

lemma call_array_loop_frame [pool_frame]: "call_array_loop host c n i st = Some st' \<Longrightarrow> same_pool st st'"
  by (induction n arbitrary: c st)
    (fastforce split: bind_splits if_splits dest: call_fun_frame intro: same_pool_trans)+

lemma call_array_frame [pool_frame]: "apkenv_call_array host c n b st = Some st' \<Longrightarrow> same_pool st st'"
  by (auto simp: apkenv_call_array_def split: if_splits dest: call_array_loop_frame)

lemma call_destructors_frame [pool_frame]: "apkenv_call_destructors host r st = Some st' \<Longrightarrow> same_pool st st'"
  by (auto simp: apkenv_call_destructors_def split: bind_splits if_splits
      dest!: call_array_frame call_fun_frame intro: same_pool_trans)

text \<open>The debugger's list.\<close>

lemma insert_map_frame [pool_frame]: "same_pool st (apkenv_insert_soinfo_into_debug_map r st')
    = same_pool st st'"
  by (simp add: apkenv_insert_soinfo_into_debug_map_def Let_def split: option.splits)

lemma remove_map_frame [pool_frame]: "same_pool st (apkenv_remove_soinfo_from_debug_map r st')
    = same_pool st st'"
  by (simp add: apkenv_remove_soinfo_from_debug_map_def Let_def split: option.splits)

lemma notify_libraries_frame [pool_frame]:
  "apkenv_notify_gdb_of_libraries st = Some (st', seen) \<Longrightarrow> same_pool st st'"
  by (auto simp: apkenv_notify_gdb_of_libraries_def Let_def split: bind_splits)

lemma notify_load_frame [pool_frame]: "apkenv_notify_gdb_of_load r st = Some st' \<Longrightarrow> same_pool st st'"
  by (fastforce simp: apkenv_notify_gdb_of_load_def Let_def insert_map_frame split: if_splits bind_splits
      dest!: notify_libraries_frame intro: same_pool_trans [rotated])

lemma notify_unload_frame [pool_frame]: "apkenv_notify_gdb_of_unload r st = Some st' \<Longrightarrow> same_pool st st'"
  by (fastforce simp: apkenv_notify_gdb_of_unload_def Let_def remove_map_frame split: if_splits bind_splits
      dest!: notify_libraries_frame intro: same_pool_trans [rotated])

text \<open>Loading.\<close>

lemma same_pool_upd_const:
  "so_next i = so_next (so st' r) \<Longrightarrow> same_pool st (upd_so r (\<lambda>_. i) st') = same_pool st st'"
  by (auto simp: same_pool_def upd_so_def)

lemma is_prelinked_frame [pool_frame]: "apkenv_is_prelinked bs st = (x, st') \<Longrightarrow> same_pool st st'"
  by (auto simp: apkenv_is_prelinked_def Let_def split: if_splits)

lemma get_lib_extents_frame [pool_frame]:
  "apkenv_get_lib_extents name bs st = Some (x, st') \<Longrightarrow> same_pool st st'"
  by (auto simp: apkenv_get_lib_extents_def split: bind_splits if_splits prod.splits dest: is_prelinked_frame)

lemma map_anon_frame [simp]: "same_pool st (map_anon a len p st') = same_pool st st'"
  by (simp add: map_anon_def)

lemma map_file_frame [simp]: "same_pool st (map_file a len p bs off st') = same_pool st st'"
  by (simp add: map_file_def Let_def)

lemma reserve_mem_region_frame [pool_frame]:
  "apkenv_reserve_mem_region host r st = (x, st') \<Longrightarrow> same_pool st st'"
  by (auto simp: apkenv_reserve_mem_region_def Let_def split: option.splits if_splits)

lemma alloc_mem_region_frame [pool_frame]:
  "apkenv_alloc_mem_region host r st = (x, st') \<Longrightarrow> same_pool st st'"
  by (auto simp: apkenv_alloc_mem_region_def same_pool_upd_so split: option.splits if_splits
      dest: reserve_mem_region_frame)

lemma so_next_note_wrprotect [simp]: "so_next (note_wrprotect a len i) = so_next i"
  by (simp add: note_wrprotect_def Let_def)

lemma load_segment_frame [pool_frame]:
  "load_segment host bs r p st = Some (x, st') \<Longrightarrow> same_pool st st'"
  by (auto simp: load_segment_def Let_def same_pool_upd_so split: bind_splits option.splits if_splits)

lemma load_relro_frame [pool_frame]: "load_relro r p st = (x, st') \<Longrightarrow> same_pool st st'"
  by (auto simp: load_relro_def Let_def same_pool_upd_so split: if_splits)

lemma load_phdr_frame [pool_frame]: "load_phdr host bs r p st = Some (x, st') \<Longrightarrow> same_pool st st'"
  by (auto simp: load_phdr_def same_pool_upd_so split: if_splits dest: load_segment_frame load_relro_frame)

lemma load_phdrs_frame [pool_frame]: "load_phdrs host bs r ps sz st = Some (x, st') \<Longrightarrow> same_pool st st'"
proof (induction ps arbitrary: sz st)
  case (Cons p ps)
  then obtain y st1 where y: "load_phdr host bs r p st = Some (y, st1)"
    "(case y of Inl _ \<Rightarrow> Some (Inl (), st1) | Inr len \<Rightarrow> load_phdrs host bs r ps (sz + len) st1) = Some (x, st')"
    by (auto split: bind_splits)
  then have "same_pool st st1" by (intro load_phdr_frame)
  with y(2) Cons.IH show ?case by (auto split: sum.splits) (blast intro: same_pool_trans)+
qed simp

lemma load_segments_frame [pool_frame]:
  assumes "apkenv_load_segments host bs r st = Some (x, st')" shows "same_pool st st'"
proof -
  obtain ps y st1 where y: "load_phdrs host bs r ps 0
      (upd_so r (\<lambda>i. i\<lparr>so_wrprotect_start := 0xffffffff, so_wrprotect_end := 0\<rparr>) st) = Some (y, st1)"
    and st': "same_pool st1 st1 \<Longrightarrow> same_pool st1 st'"
    using assms by (auto simp: apkenv_load_segments_def Let_def same_pool_upd_so split: bind_splits sum.splits if_splits)
  have "same_pool st (upd_so r (\<lambda>i. i\<lparr>so_wrprotect_start := 0xffffffff, so_wrprotect_end := 0\<rparr>) st)"
    by (simp add: same_pool_upd_so)
  with load_phdrs_frame [OF y] st' show ?thesis by (blast intro: same_pool_trans same_pool_refl)
qed

text \<open>The dynamic section and the headers of an executable.\<close>

lemma so_next_dyn_field [simp]: "so_next (dyn_field tag v i) = so_next i"
  by (simp add: dyn_field_def Let_def)

lemma so_next_dyn_hash: "dyn_hash m p i = Some i' \<Longrightarrow> so_next i' = so_next i"
  by (auto simp: dyn_hash_def split: bind_splits if_splits)

lemma so_next_dyn_gnu_hash: "dyn_gnu_hash m p i = Some (b, i') \<Longrightarrow> so_next i' = so_next i"
  by (auto simp: dyn_gnu_hash_def Let_def split: bind_splits if_splits)

lemma dyn_hash_frame: "dyn_hash m p (so st r) = Some i \<Longrightarrow> same_pool st (upd_so r (\<lambda>_. i) st)"
  by (simp add: same_pool_upd_const so_next_dyn_hash)

lemma dyn_gnu_hash_frame: "dyn_gnu_hash m p (so st r) = Some (b, i) \<Longrightarrow> same_pool st (upd_so r (\<lambda>_. i) st)"
  by (simp add: same_pool_upd_const so_next_dyn_gnu_hash)

lemma dyn_entry_frame [pool_frame]: "dyn_entry host r d tag v st = Some (x, st') \<Longrightarrow> same_pool st st'"
  by (auto simp: dyn_entry_def Let_def same_pool_upd_so split: bind_splits if_splits
      dest!: dyn_hash_frame dyn_gnu_hash_frame)

lemma dyn_loop_frame [pool_frame]:
  assumes "dyn_loop host r d st = Some (x, st')" shows "same_pool st st'"
proof -
  have "same_pool st (snd (x, st'))"
    using _ assms
  proof (rule dyn_loop.raw_induct [where P = "\<lambda>host r d st y. same_pool st (snd y)"])
    fix f host r d st and y :: "(unit + unit) \<times> linker"
    assume IH: "\<And>host r d st y. f host r d st = Some y \<Longrightarrow> same_pool st (snd y)"
      and eq: "load64 (mem st) d \<bind> (\<lambda>tag. if tag = DT_NULL then Some (Inr (), st)
        else load64 (mem st) (d + 8) \<bind> (\<lambda>v. dyn_entry host r d tag v st \<bind> (\<lambda>(res, st).
          case res of Inl x \<Rightarrow> Some (Inl (), st) | Inr x \<Rightarrow> f host r (d + 16) st))) = Some y"
    show "same_pool st (snd y)"
    proof (cases "load64 (mem st) d = Some DT_NULL")
      case True
      with eq show ?thesis by auto
    next
      case False
      with eq obtain tag v z st1 where z: "dyn_entry host r d tag v st = Some (z, st1)"
        "(case z of Inl _ \<Rightarrow> Some (Inl (), st1) | Inr _ \<Rightarrow> f host r (d + 16) st1) = Some y"
        by (auto split: bind_splits if_splits)
      then have "same_pool st st1" by (intro dyn_entry_frame)
      moreover have "same_pool st1 (snd y)" using z(2) IH by (auto split: sum.splits)
      ultimately show ?thesis by (rule same_pool_trans)
    qed
  qed
  then show ?thesis by simp
qed

lemma exe_load_frame [pool_frame]: "same_pool st (exe_load r p st)"
  by (simp add: exe_load_def Let_def same_pool_upd_so)

lemma exe_phdr_frame [pool_frame]: "exe_phdr r p st = (x, st') \<Longrightarrow> same_pool st st'"
  by (auto simp: exe_phdr_def same_pool_upd_so exe_load_frame split: if_splits prod.splits dest: load_relro_frame)

lemma exe_phdrs_frame [pool_frame]: "exe_phdrs r a n st = Some (x, st') \<Longrightarrow> same_pool st st'"
proof (induction n arbitrary: a st)
  case (Suc n)
  then obtain p y st1 where "exe_phdr r p st = (y, st1)"
    and y: "(case y of Inl _ \<Rightarrow> Some (Inl (), st1) | Inr _ \<Rightarrow> exe_phdrs r (a + 56) n st1) = Some (x, st')"
    by (auto split: bind_splits prod.splits sum.splits)
  then have "same_pool st st1" by (intro exe_phdr_frame)
  with y Suc.IH show ?case by (auto split: sum.splits) (blast intro: same_pool_trans)+
qed simp

lemma protect_text_frame [simp]: "same_pool st (protect_text r st') = same_pool st st'"
  by (simp add: protect_text_def Let_def)

lemma protect_relro_frame [pool_frame]: "protect_relro r st = (x, st') \<Longrightarrow> same_pool st st'"
  by (auto simp: protect_relro_def Let_def split: if_splits prod.splits)

lemma unprotect_relro_frame [simp]: "same_pool st (unprotect_relro r st') = same_pool st st'"
  by (simp add: unprotect_relro_def Let_def split: prod.splits)

lemma link_fail_frame [pool_frame]: "link_fail r st = (x, st') \<Longrightarrow> same_pool st st'"
  by (auto simp: link_fail_def same_pool_upd_so)

lemma link_prepare_frame [pool_frame]:
  assumes "link_prepare host r st = Some (x, st')" shows "same_pool st st'"
proof -
  let ?e = "if so_flags (so st r) AND (FLAG_EXE OR FLAG_LINKER) \<noteq> 0
    then exe_phdrs r (so_phdr (so st r)) (nat (int_count (so_phnum (so st r)))) (upd_so r (\<lambda>i. i\<lparr>so_size := 0\<rparr>) st)
    else Some (Inr (), st)"
  obtain y st1 where y: "?e = Some (y, st1)"
    using assms unfolding link_prepare_def Let_def by (cases ?e) auto
  have "same_pool st (upd_so r (\<lambda>i. i\<lparr>so_size := 0\<rparr>) st)" by (simp add: same_pool_upd_so)
  with y have 1: "same_pool st st1" by (auto split: if_splits dest: exe_phdrs_frame intro: same_pool_trans)
  have "same_pool st1 st'"
    using assms y unfolding link_prepare_def Let_def
    by (auto simp: link_fail_def same_pool_upd_so split: if_splits bind_splits dest!: dyn_loop_frame)
  with 1 show ?thesis by (rule same_pool_trans)
qed

lemma link_finish_frame [pool_frame]:
  assumes "link_finish host ar r st = Some (x, st')" shows "same_pool st st'"
proof -
  obtain ok st1 where l: "link_relocate host ar r st = Some (ok, st1)"
    using assms by (auto simp: link_finish_def split: bind_splits)
  then have 1: "same_pool st st1" by (rule link_relocate_frame)
  show ?thesis
  proof (cases ok)
    case False
    with assms l 1 show ?thesis by (auto simp: link_finish_def link_fail_def same_pool_upd_so)
  next
    case True
    let ?st = "protect_text r (upd_so r (\<lambda>i. i\<lparr>so_flags := so_flags i OR FLAG_LINKED\<rparr>) st1)"
    obtain ok2 st2 where p: "protect_relro r ?st = (ok2, st2)" by fastforce
    have "same_pool st ?st" using 1 by (simp add: same_pool_upd_so)
    with protect_relro_frame [OF p] have 2: "same_pool st st2" by (blast intro: same_pool_trans)
    have "(if \<not> ok2 then Some (link_fail r st2)
        else do { st \<leftarrow> apkenv_notify_gdb_of_load r st2; Some (0, st) }) = Some (x, st')"
      using assms l True p by (auto simp: link_finish_def Let_def split: bind_splits)
    then have "same_pool st2 st'"
      by (auto simp: link_fail_def same_pool_upd_so split: if_splits bind_splits dest: notify_load_frame)
    with 2 show ?thesis by (rule same_pool_trans)
  qed
qed

section \<open>Loading and the registry\<close>

lemma load_mapped_frame [pool_frame]:
  assumes "load_mapped host bs path b e r st = Some (x, st')" shows "same_pool st st'"
proof -
  let ?st = "upd_so r (\<lambda>i. i\<lparr>so_fullpath := take (SOINFO_NAME_LEN - 1) path, so_base := b,
                so_size := e, so_flags := 0, so_entry := 0, so_dynamic := -1\<rparr>) st"
  obtain a st1 where a: "apkenv_alloc_mem_region host r ?st = (a, st1)" by fastforce
  have "same_pool st ?st" by (simp add: same_pool_upd_so)
  then have 1: "same_pool st st1" using alloc_mem_region_frame [OF a] by (rule same_pool_trans)
  show ?thesis
  proof (cases "a < 0")
    case True
    with assms a 1 show ?thesis by (auto simp: load_mapped_def Let_def)
  next
    case False
    with assms a obtain l st2 where "apkenv_load_segments host bs r st1 = Some (l, st2)" "same_pool st2 st'"
      by (auto simp: load_mapped_def Let_def same_pool_upd_so split: bind_splits if_splits)
    with 1 show ?thesis by (blast intro: same_pool_trans load_segments_frame)
  qed
qed

lemma alloc_info_override: "apkenv_alloc_info name st = Some (q, st') \<Longrightarrow> lib_override_map st' = lib_override_map st"
  by (auto simp: apkenv_alloc_info_def take_fresh_slot_def Let_def dl_err_def split: if_splits bind_splits)

lemma free_info_override: "apkenv_free_info r st = Some st' \<Longrightarrow> lib_override_map st' = lib_override_map st"
  by (auto simp: apkenv_free_info_def Let_def dl_err_def split: if_splits bind_splits)

definition option_list :: "'a option \<Rightarrow> 'a list" where
  "option_list q = (case q of None \<Rightarrow> [] | Some r \<Rightarrow> [r])"

lemma option_list_simps [simp]: "option_list None = []" "option_list (Some r) = [r]"
  by (simp_all add: option_list_def)

lemma override_dl_err [simp]: "lib_override_map (dl_err e st) = lib_override_map st"
  by (simp add: dl_err_def)

lemma load_library_registry:
  assumes "apkenv_load_library host name tg gf want st = Some ((q, h), st')"
    and inv: "pool_inv st" and name: "c_string name"
  shows "pool_inv st' \<and> lib_override_map st' = lib_override_map st \<and> loaded st' = loaded st @ option_list q"
proof (cases "apkenv_open_library host st name")
  case None
  with assms show ?thesis
    by (auto simp: apkenv_load_library_def Let_def pool_inv_dl_err loaded_dl_err split: if_splits)
next
  case (Some path)
  show ?thesis
  proof (cases "os_read host path")
    case (Inl c)
    with Some assms show ?thesis
      by (auto simp: apkenv_load_library_def pool_inv_dl_err loaded_dl_err)
  next
    case bs: (Inr bs)
    obtain rb ext st1 where e: "apkenv_get_lib_extents name bs st = Some ((rb, ext), st1)"
      using assms(1) Some bs by (auto simp: apkenv_load_library_def split: bind_splits)
    have 1: "pool_inv st1" "loaded st1 = loaded st" "lib_override_map st1 = lib_override_map st"
      using get_lib_extents_frame [OF e] same_pool_inv [of st st1] inv by (auto simp: same_pool_def)
    show ?thesis
    proof (cases "rb = -1")
      case True
      with assms(1) Some bs e 1 show ?thesis by (auto simp: apkenv_load_library_def)
    next
      case False
      obtain p st2 where al: "apkenv_alloc_info (base_name name) st1 = Some (p, st2)" "pool_inv st2"
        "loaded st2 = loaded st1 @ option_list p"
        using sopool.alloc_returns [OF 1(1), of "base_name name"] name by (auto simp: option_list_def)
      note o2 = alloc_info_override [OF al(1)]
      show ?thesis
      proof (cases p)
        case None
        with assms(1) Some bs e False al o2 1 show ?thesis by (auto simp: apkenv_load_library_def)
      next
        case r: (Some r)
        obtain ok st3 where lm: "load_mapped host bs path rb ext r st2 = Some (ok, st3)"
          using assms(1) Some bs e False al r by (auto simp: apkenv_load_library_def split: bind_splits)
        have 3: "pool_inv st3" "loaded st3 = loaded st2" "lib_override_map st3 = lib_override_map st2"
          using load_mapped_frame [OF lm] same_pool_inv al(2) by (auto simp: same_pool_def)
        show ?thesis
        proof (cases ok)
          case True
          with assms(1) Some bs e False al r lm 1 3 o2 show ?thesis by (auto simp: apkenv_load_library_def)
        next
          case nok: False
          have "r \<in> set (loaded st3)" "r \<notin> set (loaded st)"
            using 1 3 al r pool_inv_loaded(1) [OF al(2)] by auto
          then obtain st4 where "apkenv_free_info r st3 = Some st4" "pool_inv st4" "loaded st4 = remove1 r (loaded st3)"
            using sopool.release_ok [OF 3(1)] by blast
          moreover have "remove1 r (loaded st3) = loaded st"
            using 1 3 al r \<open>r \<notin> set (loaded st)\<close> by (simp add: remove1_append)
          ultimately show ?thesis
            using assms(1) Some bs e False al r lm nok 1 3 o2 free_info_override
            by (auto simp: apkenv_load_library_def)
        qed
      qed
    qed
  qed
qed

section \<open>The contract of finding a library\<close>

text \<open>
  What linking relies on: a property of the linker that no work outside the registry can break
  is kept by a call of the function that finds libraries. Then linking keeps it as well.
\<close>

locale library_finder =
  fixes find_lib :: finder and good :: "linker \<Rightarrow> bool"
  assumes good_frame: "good st \<Longrightarrow> same_pool st st' \<Longrightarrow> good st'"
    and find_keeps: "good st \<Longrightarrow> c_string name \<Longrightarrow> find_lib name st = Some (q, st') \<Longrightarrow> good st'"
begin

lemma needed_loop_keeps:
  assumes "needed_loop find_lib r d st = Some st'" and "good st"
  shows "good st'"
proof -
  have "find_lib = find_lib \<longrightarrow> good st \<longrightarrow> good st'"
    using _ assms(1)
  proof (rule needed_loop.raw_induct [where P = "\<lambda>fl r d st y. fl = find_lib \<longrightarrow> good st \<longrightarrow> good y"])
    fix f :: "finder \<Rightarrow> soref \<Rightarrow> u64 \<Rightarrow> linker \<Rightarrow> linker option" and fl r d st y
    assume IH: "\<And>fl r d st y. f fl r d st = Some y \<Longrightarrow> fl = find_lib \<longrightarrow> good st \<longrightarrow> good y"
      and eq: "do {
     tag \<leftarrow> load64 (mem st) d;
     if tag = DT_NULL then Some st
     else if tag = DT_NEEDED then do {
       v \<leftarrow> load64 (mem st) (d + 8);
       name \<leftarrow> mem_str (mem st) (so_strtab (so st r) + v);
       ((q, _), st) \<leftarrow> fl name st;
       let lsi = (case q of None \<Rightarrow> Libdl | Some l \<Rightarrow> l);
       m \<leftarrow> store64 (mem st) (d + 8) (so_ptr st lsi);
       let st = upd_so lsi (\<lambda>i. i\<lparr>so_refcount := so_refcount i + 1\<rparr>) (st\<lparr>mem := m\<rparr>);
       f fl r (d + 16) st
     }
     else f fl r (d + 16) st
   } = Some y"
    show "fl = find_lib \<longrightarrow> good st \<longrightarrow> good y"
    proof (intro impI)
      assume fl: "fl = find_lib" and g: "good st"
      obtain tag where tag: "load64 (mem st) d = Some tag" using eq by (auto split: bind_splits)
      consider "tag = DT_NULL" | "tag \<noteq> DT_NULL" "tag \<noteq> DT_NEEDED" | "tag \<noteq> DT_NULL" "tag = DT_NEEDED" by blast
      then show "good y"
      proof cases
        case 1
        with eq tag g show ?thesis by simp
      next
        case 2
        with eq tag g fl IH [of find_lib] show ?thesis by simp
      next
        case 3
        with eq tag fl obtain v name q h st1 where v: "mem_str (mem st) v = Some name"
          "find_lib name st = Some ((q, h), st1)"
          and y: "(let lsi = (case q of None \<Rightarrow> Libdl | Some l \<Rightarrow> l)
            in store64 (mem st1) (d + 8) (so_ptr st1 lsi) \<bind> (\<lambda>m.
              let st = upd_so lsi (\<lambda>i. i\<lparr>so_refcount := so_refcount i + 1\<rparr>) (st1\<lparr>mem := m\<rparr>)
              in f find_lib r (d + 16) st)) = Some y"
          by (auto simp: bind_eq_Some_conv)
        then obtain m lsi where y: "f find_lib r (d + 16)
            (upd_so lsi (\<lambda>i. i\<lparr>so_refcount := so_refcount i + 1\<rparr>) (st1\<lparr>mem := m\<rparr>)) = Some y"
          by (auto simp: Let_def bind_eq_Some_conv)
        have "good st1" using find_keeps [OF g mem_str_c_string [OF v(1)] v(2)] .
        moreover have "same_pool st1 (upd_so lsi (\<lambda>i. i\<lparr>so_refcount := so_refcount i + 1\<rparr>) (st1\<lparr>mem := m\<rparr>))"
          by (simp add: same_pool_upd_so)
        ultimately show ?thesis using IH [OF y] good_frame by blast
      qed
    qed
  qed
  with assms(2) show ?thesis by simp
qed

lemma link_image_keeps:
  assumes "apkenv_link_image host ar find_lib r st = Some (x, st')" and g: "good st"
  shows "good st'"
proof -
  obtain y st1 where y: "link_prepare host r st = Some (y, st1)"
    using assms(1) by (auto simp: apkenv_link_image_def split: bind_splits)
  with g have g1: "good st1" using good_frame link_prepare_frame by blast
  show ?thesis
  proof (cases y)
    case (Inl rc)
    with assms(1) y g1 show ?thesis by (simp add: apkenv_link_image_def)
  next
    case (Inr u)
    with assms(1) y obtain st2 where n: "needed_loop find_lib r (so_dynamic (so st1 r)) st1 = Some st2"
      "link_finish host ar r st2 = Some (x, st')"
      by (auto simp: apkenv_link_image_def split: bind_splits)
    from n(1) g1 have "good st2" by (rule needed_loop_keeps)
    with link_finish_frame [OF n(2)] show ?thesis using good_frame by blast
  qed
qed

lemma init_library_keeps:
  assumes "apkenv_init_library host ar find_lib r st = Some (q, st')" and "good st"
  shows "good st'"
proof -
  obtain rc st1 where l: "apkenv_link_image host ar find_lib r st = Some (rc, st1)"
    using assms(1) by (auto simp: apkenv_init_library_def split: bind_splits)
  then have "good st1" using assms(2) by (rule link_image_keeps)
  moreover have "same_pool st1 st'" using assms(1) l by (auto simp: apkenv_init_library_def split: if_splits)
  ultimately show ?thesis by (rule good_frame)
qed

end

section \<open>Two finders that agree\<close>

text \<open>Linking with two functions that find the same libraries has the same result.\<close>

locale finder_pair = library_finder +
  fixes find_lib' :: finder
  assumes agree: "good st \<Longrightarrow> c_string name \<Longrightarrow> find_lib name st = find_lib' name st"
begin

lemma needed_loop_le:
  assumes "needed_loop find_lib r d st = Some st'" and "good st"
  shows "needed_loop find_lib' r d st = Some st'"
proof -
  have "find_lib = find_lib \<longrightarrow> good st \<longrightarrow> needed_loop find_lib' r d st = Some st'"
    using _ assms(1)
  proof (rule needed_loop.raw_induct
      [where P = "\<lambda>fl r d st y. fl = find_lib \<longrightarrow> good st \<longrightarrow> needed_loop find_lib' r d st = Some y"])
    fix f :: "finder \<Rightarrow> soref \<Rightarrow> u64 \<Rightarrow> linker \<Rightarrow> linker option" and fl r d st y
    assume IH: "\<And>fl r d st y. f fl r d st = Some y \<Longrightarrow>
        fl = find_lib \<longrightarrow> good st \<longrightarrow> needed_loop find_lib' r d st = Some y"
      and eq: "do {
     tag \<leftarrow> load64 (mem st) d;
     if tag = DT_NULL then Some st
     else if tag = DT_NEEDED then do {
       v \<leftarrow> load64 (mem st) (d + 8);
       name \<leftarrow> mem_str (mem st) (so_strtab (so st r) + v);
       ((q, _), st) \<leftarrow> fl name st;
       let lsi = (case q of None \<Rightarrow> Libdl | Some l \<Rightarrow> l);
       m \<leftarrow> store64 (mem st) (d + 8) (so_ptr st lsi);
       let st = upd_so lsi (\<lambda>i. i\<lparr>so_refcount := so_refcount i + 1\<rparr>) (st\<lparr>mem := m\<rparr>);
       f fl r (d + 16) st
     }
     else f fl r (d + 16) st
   } = Some y"
    show "fl = find_lib \<longrightarrow> good st \<longrightarrow> needed_loop find_lib' r d st = Some y"
    proof (intro impI)
      assume fl: "fl = find_lib" and g: "good st"
      obtain tag where tag: "load64 (mem st) d = Some tag" using eq by (auto split: bind_splits)
      consider "tag = DT_NULL" | "tag \<noteq> DT_NULL" "tag \<noteq> DT_NEEDED" | "tag \<noteq> DT_NULL" "tag = DT_NEEDED" by blast
      then show "needed_loop find_lib' r d st = Some y"
      proof cases
        case 1
        with eq tag show ?thesis by (subst needed_loop.simps) simp
      next
        case 2
        with eq tag g fl IH [of find_lib] show ?thesis by (subst needed_loop.simps) simp
      next
        case 3
        with eq tag fl obtain v name q h st1 where v: "load64 (mem st) (d + 8) = Some v"
          "mem_str (mem st) (so_strtab (so st r) + v) = Some name" "find_lib name st = Some ((q, h), st1)"
          and y: "(let lsi = (case q of None \<Rightarrow> Libdl | Some l \<Rightarrow> l)
            in store64 (mem st1) (d + 8) (so_ptr st1 lsi) \<bind> (\<lambda>m.
              let st = upd_so lsi (\<lambda>i. i\<lparr>so_refcount := so_refcount i + 1\<rparr>) (st1\<lparr>mem := m\<rparr>)
              in f find_lib r (d + 16) st)) = Some y"
          by (auto simp: bind_eq_Some_conv)
        define lsi where "lsi = (case q of None \<Rightarrow> Libdl | Some l \<Rightarrow> l)"
        obtain m where m: "store64 (mem st1) (d + 8) (so_ptr st1 lsi) = Some m"
          "f find_lib r (d + 16) (upd_so lsi (\<lambda>i. i\<lparr>so_refcount := so_refcount i + 1\<rparr>) (st1\<lparr>mem := m\<rparr>)) = Some y"
          using y by (auto simp: Let_def lsi_def bind_eq_Some_conv)
        note nm = mem_str_c_string [OF v(2)]
        have "good st1" using find_keeps [OF g nm v(3)] .
        moreover have "same_pool st1 (upd_so lsi (\<lambda>i. i\<lparr>so_refcount := so_refcount i + 1\<rparr>) (st1\<lparr>mem := m\<rparr>))"
          by (simp add: same_pool_upd_so)
        ultimately have "needed_loop find_lib' r (d + 16)
            (upd_so lsi (\<lambda>i. i\<lparr>so_refcount := so_refcount i + 1\<rparr>) (st1\<lparr>mem := m\<rparr>)) = Some y"
          using IH [OF m(2)] good_frame by blast
        with 3 tag v m(1) agree [OF g nm] show ?thesis
          by (subst needed_loop.simps) (simp add: Let_def lsi_def)
      qed
    qed
  qed
  with assms(2) show ?thesis by simp
qed

lemma link_image_le:
  assumes "apkenv_link_image host ar find_lib r st = Some x" and g: "good st"
  shows "apkenv_link_image host ar find_lib' r st = Some x"
proof -
  obtain y st1 where y: "link_prepare host r st = Some (y, st1)"
    using assms(1) by (auto simp: apkenv_link_image_def split: bind_splits)
  with g have g1: "good st1" using good_frame link_prepare_frame by blast
  show ?thesis
  proof (cases y)
    case (Inl rc)
    with assms(1) y show ?thesis by (simp add: apkenv_link_image_def)
  next
    case (Inr u)
    with assms(1) y obtain st2 where n: "needed_loop find_lib r (so_dynamic (so st1 r)) st1 = Some st2"
      "link_finish host ar r st2 = Some x"
      by (auto simp: apkenv_link_image_def split: bind_splits)
    with needed_loop_le [OF n(1) g1] y Inr show ?thesis by (simp add: apkenv_link_image_def)
  qed
qed

lemma init_library_le:
  "apkenv_init_library host ar find_lib r st = Some x \<Longrightarrow> good st \<Longrightarrow>
     apkenv_init_library host ar find_lib' r st = Some x"
  using link_image_le by (fastforce simp: apkenv_init_library_def split: bind_splits)

end

section \<open>Finding a library keeps the registry\<close>

definition names_ok :: "linker \<Rightarrow> bool" where
  "names_ok st \<longleftrightarrow> (\<forall>e \<in> set (lib_override_map st). c_string (snd e))"

text \<open>The libraries \<open>L\<close> are loaded, in this order, and perhaps others after them.\<close>

definition registry :: "soref list \<Rightarrow> linker \<Rightarrow> bool" where
  "registry L st \<longleftrightarrow> pool_inv st \<and> names_ok st \<and> (\<exists>more. loaded st = L @ more)"

lemma registry_frame: "registry L st \<Longrightarrow> same_pool st st' \<Longrightarrow> registry L st'"
  using same_pool_inv [of st st'] by (auto simp: registry_def names_ok_def same_pool_def)

lemma registry_dl_err [simp]: "registry L st \<Longrightarrow> registry L (dl_err e st)"
  by (erule registry_frame) simp

lemma c_string_override:
  assumes "names_ok st" and "c_string name"
  shows "c_string (apply_override (lib_override_map st) name)"
  using assms by (auto simp: apply_override_def names_ok_def split: option.splits dest!: map_of_SomeD)

lemma c_string_strip [simp]: "c_string name \<Longrightarrow> c_string (strip_prefix name)"
  by (simp add: strip_prefix_def)

text \<open>The cases of a call, by what the search of the loaded libraries and the load give.\<close>

lemma find_library_cases:
  assumes "apkenv_find_library host ar (Suc n) tg gf want name st = Some (q, st')"
  obtains (known) "st' = st \<or> (\<exists>e. st' = dl_err e st)"
      "\<forall>r. fst q = Some r \<longrightarrow> by_name_loop st (base_name (apply_override (lib_override_map st) (strip_prefix name))) (solist st) = Some (Some r)"
  | (not_loaded) h where "apkenv_load_library host (apply_override (lib_override_map st) (strip_prefix name)) tg gf want st
      = Some ((None, h), st')" "q = (None, h)"
  | (linked) r h st1 p where "apkenv_load_library host (apply_override (lib_override_map st) (strip_prefix name)) tg gf want st
      = Some ((Some r, h), st1)"
      "apkenv_init_library host ar (apkenv_find_library host ar n True RTLD_NOW False) r st1 = Some (p, st')"
      "fst q = None \<or> fst q = Some r"
proof -
  let ?name = "apply_override (lib_override_map st) (strip_prefix name)"
  obtain p where p: "by_name_loop st (base_name ?name) (solist st) = Some p"
    using assms by (auto simp: Let_def bind_eq_Some_conv)
  show ?thesis
  proof (cases p)
    case (Some r)
    with assms p show ?thesis by (intro known) (auto simp: Let_def split: if_splits)
  next
    case None
    with assms p obtain z h st1 where l: "apkenv_load_library host ?name tg gf want st = Some ((z, h), st1)"
      by (auto simp: Let_def bind_eq_Some_conv)
    show ?thesis
    proof (cases z)
      case None
      with assms p \<open>p = None\<close> l show ?thesis by (intro not_loaded) (auto simp: Let_def)
    next
      case (Some r)
      with assms p \<open>p = None\<close> l obtain w where
        w: "apkenv_init_library host ar (apkenv_find_library host ar n True RTLD_NOW False) r st1 = Some (w, st')"
        by (auto simp: Let_def bind_eq_Some_conv split: option.splits)
      then have "w = None \<or> w = Some r" by (auto simp: apkenv_init_library_def split: bind_splits if_splits)
      with assms p \<open>p = None\<close> l Some w have "fst q = None \<or> fst q = Some r"
        by (auto simp: Let_def bind_eq_Some_conv split: option.splits)
      with l Some w show ?thesis by (intro linked) auto
    qed
  qed
qed

lemma find_library_registry:
  "apkenv_find_library host ar n tg gf want name st = Some (q, st') \<Longrightarrow> c_string name \<Longrightarrow>
     registry L st \<Longrightarrow> registry L st'"
proof (induction n arbitrary: tg gf want name st q st')
  case (Suc n)
  let ?name = "apply_override (lib_override_map st) (strip_prefix name)"
  have nm: "c_string ?name" using Suc.prems(2,3) by (intro c_string_override) (simp_all add: registry_def)
  have load: "registry L st1" if "apkenv_load_library host ?name tg gf want st = Some ((z, h), st1)" for z h st1
    using load_library_registry [OF that _ nm] Suc.prems(3) by (auto simp: registry_def names_ok_def)
  from Suc.prems(1) show ?case
  proof (cases rule: find_library_cases)
    case known
    with Suc.prems(3) show ?thesis by auto
  next
    case (not_loaded h)
    then show ?thesis using load by blast
  next
    case (linked r h st1 p)
    have "library_finder (apkenv_find_library host ar n True RTLD_NOW False) (registry L)"
      by (unfold_locales; (erule (1) registry_frame | rule Suc.IH; assumption))
    then show ?thesis
      using linked(2) load [OF linked(1)] by (rule library_finder.init_library_keeps)
  qed
qed simp

interpretation finder: library_finder "apkenv_find_library host ar n tg gf want" "registry L"
  for host ar n tg gf want L
proof unfold_locales
  show "registry L st \<Longrightarrow> same_pool st st' \<Longrightarrow> registry L st'" for st st' by (rule registry_frame)
  show "registry L st \<Longrightarrow> c_string name \<Longrightarrow> apkenv_find_library host ar n tg gf want name st = Some (q, st')
      \<Longrightarrow> registry L st'" for st name q st'
    by (rule find_library_registry)
qed

lemma by_name_loop_eq:
  "so_seq (next_of st) p rs \<Longrightarrow> by_name_loop st bname p = Some (find (\<lambda>r. so_name (so st r) = bname) rs)"
  by (induction rs arbitrary: p) (subst by_name_loop.simps; auto)+

lemma find_by_name:
  assumes "pool_lists st ls fs"
  shows "by_name_loop st bname (solist st) = Some (find (\<lambda>r. so_name (so st r) = bname) (Libdl # ls))"
  using assms by (intro by_name_loop_eq) (simp add: pool_lists_def)

text \<open>A library that is returned is the built-in object or one of those loaded at the end.\<close>

lemma find_library_member:
  assumes "apkenv_find_library host ar n tg gf want name st = Some ((Some r, h), st')"
    and "c_string name" and reg: "registry L st"
  shows "r \<in> set (Libdl # loaded st')"
proof -
  obtain k where n: "n = Suc k" using assms(1) by (cases n) auto
  let ?name = "apply_override (lib_override_map st) (strip_prefix name)"
  have nm: "c_string ?name" using assms(2) reg by (intro c_string_override) (simp_all add: registry_def)
  have inv: "pool_inv st" using reg by (simp add: registry_def)
  from assms(1) [unfolded n] show ?thesis
  proof (cases rule: find_library_cases)
    case known
    obtain ls fs where pl: "pool_lists st ls fs" using inv by (auto simp: pool_inv_def)
    then have "find (\<lambda>x. so_name (so st x) = base_name ?name) (Libdl # ls) = Some r"
      using known(2) find_by_name [OF pl] by simp
    then have "r \<in> set (Libdl # ls)" by (metis (mono_tags, lifting) find_Some_iff nth_mem)
    moreover have "loaded st' = ls" using known(1) pool_lists_loaded [OF pl] loaded_dl_err [OF inv] by auto
    ultimately show ?thesis by simp
  next
    case (linked q h' st1 p)
    have "registry (loaded st @ [q]) st1"
      using load_library_registry [OF linked(1) inv nm] reg by (auto simp: registry_def names_ok_def)
    from finder.init_library_keeps [OF linked(2) this] linked(3) show ?thesis
      by (auto simp: registry_def)
  qed simp
qed

section \<open>The recursion ends\<close>

text \<open>A nested load happens with one library more, so a bound above the number of free slots is enough.\<close>

lemma init_library_fuel:
  assumes "\<And>name st. registry L st \<Longrightarrow> c_string name \<Longrightarrow>
      apkenv_find_library host ar n tg gf want name st = apkenv_find_library host ar k tg gf want name st"
    and "registry L st"
  shows "apkenv_init_library host ar (apkenv_find_library host ar n tg gf want) r st
    = apkenv_init_library host ar (apkenv_find_library host ar k tg gf want) r st" (is "?a = ?b")
proof -
  have p: "finder_pair (apkenv_find_library host ar n tg gf want) (registry L) (apkenv_find_library host ar k tg gf want)"
    using assms(1) by (intro finder_pair.intro finder_pair_axioms.intro finder.library_finder_axioms)
  have q: "finder_pair (apkenv_find_library host ar k tg gf want) (registry L) (apkenv_find_library host ar n tg gf want)"
    using assms(1) by (intro finder_pair.intro finder_pair_axioms.intro finder.library_finder_axioms) simp
  show ?thesis
  proof (cases ?a)
    case (Some x)
    then show ?thesis using finder_pair.init_library_le [OF p _ assms(2)] by simp
  next
    case None
    then show ?thesis using finder_pair.init_library_le [OF q _ assms(2)] by (cases ?b) force+
  qed
qed

lemma find_library_fuel:
  assumes "SO_MAX - length (loaded st) < n" and "SO_MAX - length (loaded st) < k"
    and "c_string name" and "registry [] st"
  shows "apkenv_find_library host ar n tg gf want name st = apkenv_find_library host ar k tg gf want name st"
  using assms
proof (induction n arbitrary: k st name tg gf want)
  case (Suc n)
  then obtain k' where k: "k = Suc k'" by (cases k) auto
  let ?name = "apply_override (lib_override_map st) (strip_prefix name)"
  have nm: "c_string ?name" using Suc.prems(3,4) by (intro c_string_override) (simp_all add: registry_def)
  have eq: "apkenv_init_library host ar (apkenv_find_library host ar n True RTLD_NOW False) r st1
      = apkenv_init_library host ar (apkenv_find_library host ar k' True RTLD_NOW False) r st1"
    if l: "apkenv_load_library host ?name tg gf want st = Some ((Some r, h), st1)" for r h st1
  proof (rule init_library_fuel [where L = "loaded st @ [r]"])
    show r1: "registry (loaded st @ [r]) st1"
      using load_library_registry [OF l _ nm] Suc.prems(4) by (auto simp: registry_def names_ok_def)
    fix nme st2 assume g: "registry (loaded st @ [r]) st2" and c: "c_string nme"
    have "length (loaded st2) \<le> SO_MAX" "length (loaded st) < length (loaded st2)"
      using g pool_inv_loaded(2) [of st2] by (auto simp: registry_def)
    then have "SO_MAX - length (loaded st2) < n" "SO_MAX - length (loaded st2) < k'"
      using Suc.prems(1,2) k by auto
    moreover have "registry [] st2" using g by (auto simp: registry_def)
    ultimately show "apkenv_find_library host ar n True RTLD_NOW False nme st2
        = apkenv_find_library host ar k' True RTLD_NOW False nme st2"
      using c by (intro Suc.IH)
  qed
  show ?case
  proof (cases "by_name_loop st (base_name ?name) (solist st)")
    case (Some p)
    show ?thesis
    proof (cases p)
      case None
      show ?thesis
      proof (cases "apkenv_load_library host ?name tg gf want st")
        case (Some l)
        obtain z h st1 where l: "l = ((z, h), st1)" by (cases l; cases "fst l") auto
        with Some \<open>by_name_loop st _ _ = Some p\<close> None k eq show ?thesis
          by (cases z) (simp_all add: Let_def)
      qed (use \<open>by_name_loop st _ _ = Some p\<close> None k in \<open>simp add: Let_def\<close>)
    qed (use Some k in \<open>simp add: Let_def\<close>)
  qed (use k in \<open>simp add: Let_def\<close>)
qed simp

text \<open>Two bounds that are both above the size of the pool, as an instance of the interface.\<close>

interpretation enough: finder_pair "apkenv_find_library host ar (Suc (SO_MAX + n)) tg gf want" "registry L"
    "apkenv_find_library host ar (Suc (SO_MAX + k)) tg gf want"
  for host ar n k tg gf want L
proof unfold_locales
  show "registry L st \<Longrightarrow> c_string name \<Longrightarrow> apkenv_find_library host ar (Suc (SO_MAX + n)) tg gf want name st
      = apkenv_find_library host ar (Suc (SO_MAX + k)) tg gf want name st" for st name
    by (intro find_library_fuel) (auto simp: registry_def simp del: apkenv_find_library.simps)
qed

section \<open>Protection of relocated data\<close>

lemma takeWhile_length_all: "length (takeWhile P xs) = length xs \<Longrightarrow> takeWhile P xs = xs"
  by (metis takeWhile_eq_take take_all order_refl)

lemma mprotect_ok:
  assumes "mprotect m a len prot = (m', rc)" and "0 \<le> rc"
  shows "\<forall>p \<in> set (pages a (unat len)). prot_at m' p = Some prot"
proof -
  define ps where "ps = pages a (unat len)"
  define ok where "ok = takeWhile (\<lambda>q. prot_at m q \<noteq> None) ps"
  have e: "m' = set_prot ok (Some prot) m" "length ok = length ps"
    using assms unfolding mprotect_def Let_def ps_def [symmetric] ok_def [symmetric] by (auto split: if_splits)
  then have "ok = ps" unfolding ok_def by (intro takeWhile_length_all)
  with e(1) show ?thesis by (simp add: set_prot_def ps_def)
qed

lemma upd_lm_mem [simp]: "mem (upd_lm q f st) = mem st"
  by (cases q) (simp_all add: upd_lm.simps)

lemma notify_libraries_mem: "apkenv_notify_gdb_of_libraries st = Some (st', seen) \<Longrightarrow> mem st' = mem st"
  by (auto simp: apkenv_notify_gdb_of_libraries_def Let_def split: bind_splits)

lemma notify_load_mem: "apkenv_notify_gdb_of_load r st = Some st' \<Longrightarrow> mem st' = mem st"
  by (auto simp: apkenv_notify_gdb_of_load_def apkenv_insert_soinfo_into_debug_map_def Let_def
      split: if_splits bind_splits option.splits dest!: notify_libraries_mem)

text \<open>The fields of an object that the debugger's list does not touch.\<close>

definition core :: "soinfo \<Rightarrow> soinfo" where
  "core i = i\<lparr>so_linkmap := so_linkmap zero_soinfo\<rparr>"

lemma core_upd_lm [simp]: "core (so (upd_lm q f st) r) = core (so st r)"
  by (cases q) (simp_all add: upd_lm.simps upd_so_def core_def)

lemma notify_load_core: "apkenv_notify_gdb_of_load r st = Some st' \<Longrightarrow> core (so st' q) = core (so st q)"
  by (auto simp: apkenv_notify_gdb_of_load_def apkenv_notify_gdb_of_libraries_def
      apkenv_insert_soinfo_into_debug_map_def Let_def split: if_splits bind_splits option.splits)

lemma core_fields:
  "core a = core b \<Longrightarrow> so_flags a = so_flags b \<and> so_gnu_relro_start a = so_gnu_relro_start b
     \<and> so_gnu_relro_len a = so_gnu_relro_len b"
  by (drule arg_cong [where f = "\<lambda>i. (so_flags i, so_gnu_relro_start i, so_gnu_relro_len i)"]) (simp add: core_def)

lemma no_write_prot: "prot_at m (page_of a) = Some PROT_READ \<Longrightarrow> store8 m a v = None"
  by (simp add: store8_def can_def PROT_READ_def PROT_WRITE_def)

lemma protect_relro_ok:
  assumes "protect_relro r st = (True, st')"
  shows "so st' = so st \<and> (has_relro (so st r) \<longrightarrow>
    (\<forall>p \<in> set (pages (fst (relro_range (so st r))) (unat (snd (relro_range (so st r))))). prot_at (mem st') p = Some PROT_READ))"
  using assms mprotect_ok [of "mem st" "fst (relro_range (so st r))" "snd (relro_range (so st r))" PROT_READ]
  by (auto simp: protect_relro_def Let_def split: if_splits prod.splits)

lemma protect_text_so [simp]: "so (protect_text r st) = so st"
  by (simp add: protect_text_def Let_def)

section \<open>Properties\<close>

text \<open>
  C3. Finding a library keeps the registry well formed, whatever it loads on the way: the
  libraries that were loaded stay loaded and in their order, new ones come behind them, and a library that is
  returned is one of them or the built-in object.
\<close>

theorem find_library_keeps_registry:
  assumes "pool_inv st" and "names_ok st" and "c_string name"
    and "apkenv_find_library host ar n tg gf want name st = Some ((q, h), st')"
  shows "pool_inv st' \<and> names_ok st' \<and> (\<exists>more. loaded st' = loaded st @ more)
    \<and> (\<forall>r. q = Some r \<longrightarrow> r \<in> set (Libdl # loaded st'))"
proof -
  have r: "registry (loaded st) st" using assms(1,2) by (simp add: registry_def)
  have "r \<in> set (Libdl # loaded st')" if "q = Some r" for r
    using find_library_member [OF assms(4) [unfolded that] assms(3) r] .
  with find_library_registry [OF assms(4,3) r] show ?thesis by (simp add: registry_def)
qed

theorem find_library_keeps_registry_witness:
  "\<exists>st'. apkenv_find_library host0 X86_64 (Suc 0) False 0 False ''libfoo.so'' (static_linker sa0 m0) = Some ((None, 0), st')
    \<and> pool_inv st'"
proof -
  have pl: "pool_lists (static_linker sa0 m0) [] []"
    by (simp add: pool_lists_def static_linker_def next_of_def apkenv_libdl_info_def zero_soinfo_def)
  have b: "by_name_loop (static_linker sa0 m0) ''libfoo.so'' (solist (static_linker sa0 m0)) = Some None"
    by (subst find_by_name [OF pl]) (simp add: static_linker_def apkenv_libdl_info_def)
  have n: "names_ok (static_linker sa0 m0)" "lib_override_map (static_linker sa0 m0) = []"
    by (simp_all add: names_ok_def static_linker_def)
  have "base_name ''libfoo.so'' = ''libfoo.so''" "strip_prefix ''libfoo.so'' = ''libfoo.so''" by code_simp+
  moreover have "apkenv_open_library host0 (static_linker sa0 m0) ''libfoo.so'' = None" by code_simp
  ultimately have f: "apkenv_find_library host0 X86_64 (Suc 0) False 0 False ''libfoo.so'' (static_linker sa0 m0)
      = Some ((None, 0), dl_err (LibraryNotFound ''libfoo.so'') (static_linker sa0 m0))"
    using b n by (simp add: Let_def apply_override_def apkenv_load_library_def)
  with find_library_keeps_registry [OF pool_inv_static n(1) _ f] show ?thesis by simp
qed

text \<open>
  C8. The nesting of loads is bounded by the pool: with a well-formed registry every bound above
  \<open>SO_MAX\<close> gives the same result, so the bound never cuts a run of \<open>apkenv_find_library\<close> short.
\<close>

theorem find_library_depth:
  assumes "pool_inv st" and "names_ok st" and "c_string name" and "SO_MAX < n" and "SO_MAX < k"
  shows "apkenv_find_library host ar n tg gf want name st = apkenv_find_library host ar k tg gf want name st"
  using assms by (intro find_library_fuel) (auto simp: registry_def)

theorem find_library_depth_witness:
  "apkenv_find_library host0 X86_64 129 True 0 True ''libfoo.so'' (static_linker sa0 m0)
   = apkenv_find_library host0 X86_64 1000 True 0 True ''libfoo.so'' (static_linker sa0 m0)"
proof (rule find_library_depth)
  show "pool_inv (static_linker sa0 m0)" by (rule pool_inv_static)
  show "names_ok (static_linker sa0 m0)" by (simp add: names_ok_def static_linker_def)
qed (simp_all add: SO_MAX_def)




text \<open>A library without relocations whose first page is a GNU_RELRO segment.\<close>

definition relro_demo :: linker where
  "relro_demo = gdb_demo\<lparr>mem := image 0x1000 [], so := (\<lambda>_. zero_soinfo\<lparr>so_gnu_relro_start := 0x1000, so_gnu_relro_len := 16\<rparr>)\<rparr>"

lemma relro_demo_links: "\<exists>st'. link_finish host0 X86_64 (Pool 0) relro_demo = Some (0, st') \<and> has_relro (so st' (Pool 0))
  \<and> relro_range (so st' (Pool 0)) = (0x1000, 16)"
proof -
  let ?i = "zero_soinfo\<lparr>so_gnu_relro_start := 0x1000, so_gnu_relro_len := 16\<rparr>"
  let ?r = "Pool 0"
  define st1 where "st1 = upd_so ?r (\<lambda>i. i\<lparr>so_flags := so_flags i OR FLAG_LINKED\<rparr>) relro_demo"
  have l: "link_relocate host0 X86_64 ?r relro_demo = Some (True, relro_demo)"
    by (simp add: link_relocate_def relro_demo_def zero_soinfo_def)
  have pt: "protect_text ?r st1 = st1"
    by (simp add: protect_text_def st1_def relro_demo_def zero_soinfo_def upd_so_def)
  have rng: "relro_range (so st1 ?r) = (0x1000, 16)" "has_relro (so st1 ?r)"
    by (simp_all add: relro_range_def has_relro_def st1_def relro_demo_def upd_so_def page_of_def PAGE_MASK_def)
  have "snd (mprotect (image 0x1000 []) 0x1000 16 PROT_READ) = 0" by code_simp
  then obtain m where "mprotect (image 0x1000 []) 0x1000 16 PROT_READ = (m, 0)" by (metis prod.collapse)
  then have m: "mprotect (mem st1) 0x1000 16 PROT_READ = (m, 0)"
    by (simp add: st1_def relro_demo_def upd_so_def)
  then have pr: "protect_relro ?r st1 = (True, st1\<lparr>mem := m\<rparr>)" using rng by (simp add: protect_relro_def)
  let ?st = "(apkenv_insert_soinfo_into_debug_map ?r ((st1\<lparr>mem := m\<rparr>)\<lparr>r_state := RT_ADD\<rparr>))\<lparr>r_state := RT_CONSISTENT\<rparr>"
  have "debug_list ((st1\<lparr>mem := m\<rparr>)\<lparr>r_state := RT_ADD\<rparr>) []" "sys_list ((st1\<lparr>mem := m\<rparr>)\<lparr>r_state := RT_ADD\<rparr>) [SysMap 0]"
    by (simp_all add: debug_list_def sys_list_def st1_def relro_demo_def gdb_demo_def static_linker_def nxt_def lm.simps
        upd_so_def zero_soinfo_def)
  then have "debug_list ?st [SoMap ?r]" "sys_list ?st [SysMap 0]"
    using insert_debug_list [of _ "[]" ?r] insert_sys_list [of _ "[]" ?r] by fastforce+
  then obtain st' seen where "apkenv_notify_gdb_of_libraries ?st = Some (st', seen)"
    using notify_libraries [of ?st "[SoMap ?r]" "[SysMap 0]"] by auto
  moreover have "\<not> has_flag FLAG_EXE (so st1 ?r)"
    by (simp add: has_flag_def st1_def relro_demo_def upd_so_def zero_soinfo_def flag_defs)
  ultimately have n: "apkenv_notify_gdb_of_load ?r (st1\<lparr>mem := m\<rparr>) = Some st'"
    by (simp add: apkenv_notify_gdb_of_load_def Let_def)
  have c: "apkenv_create_latehook_wrappers (mem relro_demo) (so relro_demo ?r) (unat (so_nchain (so relro_demo ?r))) 0 = Some ()"
    by (simp add: relro_demo_def zero_soinfo_def)
  have "link_finish host0 X86_64 ?r relro_demo = Some (0, st')"
    using l c pt pr n by (simp add: link_finish_def Let_def st1_def [symmetric])
  moreover have "core (so st' ?r) = core (so st1 ?r)" using notify_load_core [OF n, of ?r] by simp
  from core_fields [OF this]
  have "relro_range (so st' ?r) = relro_range (so st1 ?r)" "has_relro (so st' ?r) = has_relro (so st1 ?r)"
    by (simp_all add: relro_range_def has_relro_def)
  ultimately show ?thesis using rng by auto
qed



definition rel_demo :: linker where
  "rel_demo = (static_linker sa0 (image 0x1000 [17,0,0,0,0,0,0,0, 0,0,0,0,0,0,0,0]))\<lparr>so := (\<lambda>_. zero_soinfo\<lparr>so_dynamic := 0x1000\<rparr>)\<rparr>"


end
