(* ===== verification/Constructors.thy ===== *)
theory Constructors
  imports Link_Invariants
begin

text \<open>
  Constructors and destructors: \<open>apkenv_call_constructors_recursive\<close> is a depth-first walk over the
  needed libraries that runs the functions of a library after those of the libraries it needs,
  and of each library once. The functions themselves are code of the libraries; here they are
  assumed to leave the memory that the linker reads alone.
\<close>

section \<open>The order of a depth-first walk\<close>

fun dfs :: "('r \<Rightarrow> 'r list) \<Rightarrow> nat \<Rightarrow> 'r \<Rightarrow> 'r set \<Rightarrow> 'r list"
  and dfs_list :: "('r \<Rightarrow> 'r list) \<Rightarrow> nat \<Rightarrow> 'r list \<Rightarrow> 'r set \<Rightarrow> 'r list" where
  "dfs deps 0 r V = []"
| "dfs deps (Suc n) r V = (if r \<in> V then [] else dfs_list deps n (deps r) (insert r V) @ [r])"
| "dfs_list deps n [] V = []"
| "dfs_list deps n (d # ds) V = (let o1 = dfs deps n d V in o1 @ dfs_list deps n ds (V \<union> set o1))"

text \<open>Each library once, and none that was visited before.\<close>

lemma dfs_distinct:
  "distinct (dfs deps n r V) \<and> set (dfs deps n r V) \<inter> V = {}"
  "distinct (dfs_list deps n ds V) \<and> set (dfs_list deps n ds V) \<inter> V = {}"
proof (induction deps n r V and deps n ds V rule: dfs_dfs_list.induct)
  case (2 deps n r V)
  then show ?case by auto
next
  case (4 deps n d ds V)
  then show ?case by (auto simp: Let_def)
qed auto

text \<open>With a rank that goes down along the dependencies, a bound above the rank is enough.\<close>

definition ranked :: "('r \<Rightarrow> 'r list) \<Rightarrow> ('r \<Rightarrow> nat) \<Rightarrow> bool" where
  "ranked deps rank \<longleftrightarrow> (\<forall>r. \<forall>d \<in> set (deps r). rank d < rank r)"

lemma dfs_visits:
  assumes "ranked deps rank"
  shows "rank r < n \<Longrightarrow> r \<in> V \<union> set (dfs deps n r V)"
    and "(\<And>d. d \<in> set ds \<Longrightarrow> rank d < n) \<Longrightarrow> set ds \<subseteq> V \<union> set (dfs_list deps n ds V)"
proof -
  show v: "r \<in> V \<union> set (dfs deps n r V)" if "rank r < n" for r n V
    using that by (cases n) auto
  show "set ds \<subseteq> V \<union> set (dfs_list deps n ds V)" if "\<And>d. d \<in> set ds \<Longrightarrow> rank d < n"
    using that
  proof (induction ds arbitrary: V)
    case (Cons d ds)
    have "d \<in> V \<union> set (dfs deps n d V)" using Cons.prems v by simp
    moreover have "set ds \<subseteq> (V \<union> set (dfs deps n d V)) \<union> set (dfs_list deps n ds (V \<union> set (dfs deps n d V)))"
      using Cons by simp
    ultimately show ?case by (auto simp: Let_def)
  qed simp
qed

text \<open>A list is in dependency order when each library stands behind those it needs.\<close>

definition deps_first :: "('r \<Rightarrow> 'r list) \<Rightarrow> 'r set \<Rightarrow> 'r list \<Rightarrow> bool" where
  "deps_first deps V xs \<longleftrightarrow> (\<forall>i < length xs. set (deps (xs ! i)) \<subseteq> V \<union> set (take i xs))"

lemma deps_first_append:
  "deps_first deps V xs \<Longrightarrow> deps_first deps (V \<union> set xs) ys \<Longrightarrow> deps_first deps V (xs @ ys)"
proof -
  assume a: "deps_first deps V xs" and b: "deps_first deps (V \<union> set xs) ys"
  have "set (deps ((xs @ ys) ! i)) \<subseteq> V \<union> set (take i (xs @ ys))" if i: "i < length (xs @ ys)" for i
  proof (cases "i < length xs")
    case True
    then show ?thesis using a by (simp add: deps_first_def nth_append)
  next
    case False
    then have "i - length xs < length ys" using i by simp
    then have "set (deps (ys ! (i - length xs))) \<subseteq> (V \<union> set xs) \<union> set (take (i - length xs) ys)"
      using b unfolding deps_first_def by blast
    with False show ?thesis by (simp add: nth_append Un_assoc)
  qed
  then show "deps_first deps V (xs @ ys)" by (simp add: deps_first_def)
qed

lemma deps_first_snoc: "deps_first deps V xs \<Longrightarrow> set (deps r) \<subseteq> V \<union> set xs \<Longrightarrow> deps_first deps V (xs @ [r])"
  by (rule deps_first_append) (auto simp: deps_first_def)

lemma deps_first_weaken:
  assumes "deps_first deps (insert r V) xs" and "\<forall>x \<in> set xs. r \<notin> set (deps x)"
  shows "deps_first deps V xs"
  using assms by (fastforce simp: deps_first_def dest: nth_mem)

lemma dfs_ranks:
  "ranked deps rank \<Longrightarrow> \<forall>x \<in> set (dfs deps n r V). rank x \<le> rank r"
  "ranked deps rank \<Longrightarrow> \<forall>x \<in> set (dfs_list deps n ds V). \<exists>d \<in> set ds. rank x \<le> rank d"
proof (induction deps n r V and deps n ds V rule: dfs_dfs_list.induct)
  case (2 deps n r V)
  show ?case
  proof (cases "r \<in> V")
    case False
    have "rank x \<le> rank r" if x: "x \<in> set (dfs_list deps n (deps r) (insert r V))" for x
    proof -
      obtain d where "d \<in> set (deps r)" "rank x \<le> rank d" using 2 False x by blast
      moreover from this(1) have "rank d < rank r" using 2(2) by (simp add: ranked_def)
      ultimately show ?thesis by linarith
    qed
    then show ?thesis by auto
  qed simp
next
  case (4 deps n d ds V)
  then show ?case by (fastforce simp: Let_def)
qed auto

lemma dfs_deps_first:
  "ranked deps rank \<Longrightarrow> rank r < n \<Longrightarrow> deps_first deps V (dfs deps n r V)"
  "ranked deps rank \<Longrightarrow> (\<forall>d \<in> set ds. rank d < n) \<Longrightarrow> deps_first deps V (dfs_list deps n ds V)"
proof (induction deps n r V and deps n ds V rule: dfs_dfs_list.induct)
  case (2 deps n r V)
  show ?case
  proof (cases "r \<in> V")
    case True
    then show ?thesis by (simp add: deps_first_def)
  next
    case False
    let ?xs = "dfs_list deps n (deps r) (insert r V)"
    have low: "\<forall>d \<in> set (deps r). rank d < n"
      using 2(2,3) by (metis ranked_def less_Suc_eq_le order_less_le_trans)
    have 1: "deps_first deps (insert r V) ?xs" using 2 False low by simp
    have "rank x < rank r" if "x \<in> set ?xs" for x
      using dfs_ranks(2) [OF 2(2), of n "deps r" "insert r V"] that 2(2) by (fastforce simp: ranked_def)
    then have "\<forall>x \<in> set ?xs. r \<notin> set (deps x)" using 2(2) by (metis less_asym ranked_def)
    with 1 have w: "deps_first deps V ?xs" by (rule deps_first_weaken)
    have "set (deps r) \<subseteq> insert r V \<union> set ?xs" using dfs_visits(2) [OF 2(2)] low by blast
    moreover have "r \<notin> set (deps r)" using 2(2) by (auto simp: ranked_def)
    ultimately have "set (deps r) \<subseteq> V \<union> set ?xs" by blast
    with w False show ?thesis by (simp add: deps_first_snoc)
  qed
next
  case (4 deps n d ds V)
  then show ?case by (auto simp: Let_def intro: deps_first_append)
qed (auto simp: deps_first_def)

section \<open>The constructors of one library\<close>

text \<open>The functions in an array of \<open>n\<close> pointers.\<close>

fun fun_array :: "memory \<Rightarrow> u64 \<Rightarrow> nat \<Rightarrow> u64 \<Rightarrow> u64 list option" where
  "fun_array m a 0 inc = Some []"
| "fun_array m a (Suc n) inc = do {
     f \<leftarrow> load64 m a; fs \<leftarrow> fun_array m (a + inc) n inc;
     Some (if f = 0 \<or> f = -1 then fs else f # fs) }"

definition quiet :: "os \<Rightarrow> bool" where
  "quiet host \<longleftrightarrow> (\<forall>a m. os_call host a m = Some m)"

lemma call_fun_quiet: "quiet host \<Longrightarrow> call_fun host a st = Some (st\<lparr>trace := trace st @ [a]\<rparr>)"
  by (simp add: quiet_def call_fun_def)

lemma call_array_loop_quiet:
  "quiet host \<Longrightarrow> fun_array (mem st) a n inc = Some fs \<Longrightarrow>
     call_array_loop host a n inc st = Some (st\<lparr>trace := trace st @ fs\<rparr>)"
  by (induction n arbitrary: a st fs) (auto simp: call_fun_quiet split: bind_splits if_splits)

text \<open>The initialisation functions of an object: \<open>init_func\<close>, then those of \<open>init_array\<close>.\<close>

definition init_array_of :: "memory \<Rightarrow> soinfo \<Rightarrow> u64 list option" where
  "init_array_of m si = (if so_init_array si = 0 then Some []
     else fun_array m (so_init_array si) (nat (int_count (so_init_array_count si))) 8)"

definition inits :: "memory \<Rightarrow> soinfo \<Rightarrow> u64 list" where
  "inits m si = (if so_init_func si = 0 then [] else [so_init_func si]) @ the (init_array_of m si)"

text \<open>\<open>marked\<close>: the libraries \<open>V\<close> have run their constructors and the calls so far are \<open>tr\<close>.\<close>

definition marked :: "linker \<Rightarrow> soref set \<Rightarrow> u64 list \<Rightarrow> linker" where
  "marked st V tr = st\<lparr>so := (\<lambda>r. (so st r)\<lparr>so_constructors_called := r \<in> V\<rparr>), trace := tr\<rparr>"

lemma marked_fields [simp]:
  "mem (marked st V tr) = mem st" "trace (marked st V tr) = tr" "sopool_addr (marked st V tr) = sopool_addr st"
  "libdl_addr (marked st V tr) = libdl_addr st"
  "so (marked st V tr) r = (so st r)\<lparr>so_constructors_called := r \<in> V\<rparr>"
  "(marked st V tr)\<lparr>trace := tr'\<rparr> = marked st V tr'"
  by (simp_all add: marked_def)

lemma marked_self: "marked st {r. so_constructors_called (so st r)} (trace st) = st"
  by (simp add: marked_def)

lemma marked_mark: "upd_so r (\<lambda>i. i\<lparr>so_constructors_called := True\<rparr>) (marked st V tr) = marked st (insert r V) tr"
  by (auto simp: marked_def upd_so_def fun_eq_iff)

lemma marked_ptrs [simp]:
  "so_at (marked st V tr) p = so_at st p" "apkenv_validate_soinfo (marked st V tr) p = apkenv_validate_soinfo st p"
  by (simp_all add: so_at_def apkenv_validate_soinfo_def)

text \<open>
  The shape of the loaded libraries that the walk relies on: no DT_PREINIT_ARRAY, which is for executables
  only, a readable \<open>init_array\<close>, and needed libraries \<open>deps r\<close> that \<open>apkenv_link_image\<close> stored.
\<close>

definition ctor_ok :: "linker \<Rightarrow> (soref \<Rightarrow> soref list) \<Rightarrow> soref \<Rightarrow> bool" where
  "ctor_ok st deps r \<longleftrightarrow> so_preinit_array_count (so st r) = 0 \<and> init_array_of (mem st) (so st r) \<noteq> None
     \<and> (if so_dynamic (so st r) = 0 then deps r = [] else (\<exists>ds. needed_ok st r ds (deps r)))"

lemma ctors_needed_eq:
  assumes "dyn_seq (mem st) d ds" and "map (so_at st) (needed_ptrs ds) = map Some ls"
    and "\<forall>v \<in> set (needed_ptrs ds). apkenv_validate_soinfo st v"
    and "\<And>l V tr. l \<in> set ls \<Longrightarrow> rec l (marked st V tr) =
       Some (marked st (V \<union> set (dfs deps n l V)) (tr @ concat (map f (dfs deps n l V))))"
  shows "ctors_needed rec r d (marked st V tr) =
    Some (marked st (V \<union> set (dfs_list deps n ls V)) (tr @ concat (map f (dfs_list deps n ls V))))"
  using assms
proof (induction ds arbitrary: d ls V tr)
  case Nil
  then show ?case by (subst ctors_needed.simps) (simp add: needed_ptrs_def)
next
  case (Cons e ds)
  show ?case
  proof (cases "fst e = DT_NEEDED")
    case False
    with Cons.prems Cons.IH [of "d + 16" ls V tr] show ?thesis
      by (subst ctors_needed.simps) (simp add: needed_ptrs_def)
  next
    case True
    then obtain l ls' where l: "ls = l # ls'" "so_at st (snd e) = Some l"
      "map (so_at st) (needed_ptrs ds) = map Some ls'" "apkenv_validate_soinfo st (snd e)"
      using Cons.prems(2,3) by (auto simp: needed_ptrs_def)
    let ?o = "dfs deps n l V"
    have "ctors_needed rec r (d + 16) (marked st (V \<union> set ?o) (tr @ concat (map f ?o))) =
        Some (marked st ((V \<union> set ?o) \<union> set (dfs_list deps n ls' (V \<union> set ?o)))
          ((tr @ concat (map f ?o)) @ concat (map f (dfs_list deps n ls' (V \<union> set ?o)))))"
      using Cons.prems l True by (intro Cons.IH) (auto simp: needed_ptrs_def)
    then show ?thesis
      using True l Cons.prems(1) Cons.prems(4) [of l]
      by (subst ctors_needed.simps) (simp add: Let_def Un_assoc DT_NEEDED_def DT_NULL_def)
  qed
qed

lemma call_constructors_eq:
  assumes "quiet host" and "\<forall>r. ctor_ok st deps r" and "ranked deps rank"
  shows "rank r < n \<Longrightarrow> apkenv_call_constructors_recursive host n r (marked st V tr) =
    Some (marked st (V \<union> set (dfs deps n r V))
      (tr @ concat (map (\<lambda>x. inits (mem st) (so st x)) (dfs deps n r V))))"
proof (induction n arbitrary: r V tr)
  case (Suc n)
  show ?case
  proof (cases "r \<in> V")
    case True
    then show ?thesis by simp
  next
    case False
    let ?f = "\<lambda>x. inits (mem st) (so st x)" and ?W = "insert r V"
    let ?o = "dfs_list deps n (deps r) ?W"
    have ok: "so_preinit_array_count (so st r) = 0" "init_array_of (mem st) (so st r) \<noteq> None"
      "if so_dynamic (so st r) = 0 then deps r = [] else (\<exists>ds. needed_ok st r ds (deps r))"
      using assms(2) by (auto simp: ctor_ok_def)
    have pre: "apkenv_call_array host a (int_count 0) False s = Some s" for a s
      by (simp add: apkenv_call_array_def int_count_def)
    have need: "(if so_dynamic (so st r) \<noteq> 0
        then ctors_needed (apkenv_call_constructors_recursive host n) r (so_dynamic (so st r)) (marked st ?W tr)
        else Some (marked st ?W tr)) = Some (marked st (?W \<union> set ?o) (tr @ concat (map ?f ?o)))"
    proof (cases "so_dynamic (so st r) = 0")
      case True
      then show ?thesis using ok(3) by simp
    next
      case dyn: False
      then obtain ds where ds: "needed_ok st r ds (deps r)" using ok(3) by auto
      have "rank l < n" if "l \<in> set (deps r)" for l
        using that Suc.prems assms(3) by (fastforce simp: ranked_def)
      then have "ctors_needed (apkenv_call_constructors_recursive host n) r (so_dynamic (so st r)) (marked st ?W tr)
          = Some (marked st (?W \<union> set ?o) (tr @ concat (map ?f ?o)))"
        using ds Suc.IH by (intro ctors_needed_eq) (auto simp: needed_ok_def)
      with dyn show ?thesis by simp
    qed
    obtain fs where fs: "init_array_of (mem st) (so st r) = Some fs" using ok(2) by auto
    have arr: "(if so_init_array (so st r) \<noteq> 0
        then apkenv_call_array host (so_init_array (so st r)) (int_count (so_init_array_count (so st r))) False (marked st W' t')
        else Some (marked st W' t')) = Some (marked st W' (t' @ fs))" for W' t'
      using fs call_array_loop_quiet [OF assms(1), of "marked st W' t'"]
      by (auto simp: init_array_of_def apkenv_call_array_def split: if_splits)
    have "inits (mem st) (so st r) = (if so_init_func (so st r) = 0 then [] else [so_init_func (so st r)]) @ fs"
      by (simp add: inits_def fs)
    then have "tr @ concat (map ?f ?o) @ inits (mem st) (so st r)
        = ((tr @ concat (map ?f ?o)) @ (if so_init_func (so st r) = 0 then [] else [so_init_func (so st r)])) @ fs"
      by simp
    moreover have "apkenv_call_constructors_recursive host (Suc n) r (marked st V tr) =
        Some (marked st (?W \<union> set ?o)
          (((tr @ concat (map ?f ?o)) @ (if so_init_func (so st r) = 0 then [] else [so_init_func (so st r)])) @ fs))"
    proof -
      let ?rest = "\<lambda>st. (if so_init_func (so st r) \<noteq> 0 then call_fun host (so_init_func (so st r)) st else Some st) \<bind>
        (\<lambda>st. if so_init_array (so st r) \<noteq> 0
          then apkenv_call_array host (so_init_array (so st r)) (int_count (so_init_array_count (so st r))) False st
          else Some st)"
      have "apkenv_call_constructors_recursive host (Suc n) r (marked st V tr) =
        ((if so_dynamic (so st r) \<noteq> 0
          then ctors_needed (apkenv_call_constructors_recursive host n) r (so_dynamic (so st r)) (marked st ?W tr)
          else Some (marked st ?W tr)) \<bind> ?rest)"
        using False ok(1) by (simp add: Let_def marked_mark pre cong: if_cong split del: if_split)
      also have "\<dots> = ?rest (marked st (?W \<union> set ?o) (tr @ concat (map ?f ?o)))"
        unfolding need by simp
      also have "\<dots> = Some (marked st (?W \<union> set ?o)
          (((tr @ concat (map ?f ?o)) @ (if so_init_func (so st r) = 0 then [] else [so_init_func (so st r)])) @ fs))"
        by (cases "so_init_func (so st r) = 0")
          (simp_all add: call_fun_quiet [OF assms(1)] arr cong: if_cong split del: if_split)
      finally show ?thesis .
    qed
    ultimately show ?thesis using False by simp
  qed
qed simp

section \<open>Destructors\<close>

definition keep_fun :: "u64 \<Rightarrow> u64 list" where
  "keep_fun f = (if f = 0 \<or> f = -1 then [] else [f])"

lemma fun_array_Suc:
  "fun_array m a (Suc n) inc = do { f \<leftarrow> load64 m a; fs \<leftarrow> fun_array m (a + inc) n inc; Some (keep_fun f @ fs) }"
  by (auto simp: keep_fun_def split: bind_splits)

lemma fun_array_snoc:
  "fun_array m a (Suc n) 8 = do { fs \<leftarrow> fun_array m a n 8; f \<leftarrow> load64 m (a + 8 * of_nat n); Some (fs @ keep_fun f) }"
proof (induction n arbitrary: a)
  case 0
  then show ?case by (simp add: fun_array_Suc del: fun_array.simps(2))
next
  case (Suc n)
  have e: "a + 8 + 8 * of_nat n = a + 8 * of_nat (Suc n)" by (simp add: algebra_simps)
  have "fun_array m a (Suc (Suc n)) 8 = do { g \<leftarrow> load64 m a; fs \<leftarrow> fun_array m (a + 8) n 8;
      f \<leftarrow> load64 m (a + 8 * of_nat (Suc n)); Some (keep_fun g @ fs @ keep_fun f) }"
    unfolding fun_array_Suc [of m a "Suc n"] Suc.IH e by (simp del: of_nat_Suc split: bind_splits)
  then show ?case
    unfolding fun_array_Suc [of m a n] by (simp del: fun_array.simps split: bind_splits)
qed

lemma fun_array_backwards:
  "fun_array m a n 8 = Some fs \<Longrightarrow> fun_array m (a + 8 * of_nat n - 8) n (-8) = Some (rev fs)"
proof (induction n arbitrary: fs)
  case (Suc n)
  obtain gs f where g: "fun_array m a n 8 = Some gs" "load64 m (a + 8 * of_nat n) = Some f" "fs = gs @ keep_fun f"
    using Suc.prems unfolding fun_array_snoc by (auto split: bind_splits)
  have "a + 8 * of_nat (Suc n) - 8 = a + 8 * of_nat n" by (simp add: algebra_simps)
  moreover have "a + 8 * of_nat n + - 8 = a + 8 * of_nat n - 8" by simp
  moreover have "rev (keep_fun f) = keep_fun f" by (simp add: keep_fun_def)
  ultimately show ?case
    using Suc.IH [OF g(1)] g(2,3) by (simp only: fun_array_Suc bind.simps rev_append)
qed simp

section \<open>Properties\<close>


definition ctor_demo :: linker where
  "ctor_demo = (static_linker sa0 m0)\<lparr>so := (\<lambda>_. zero_soinfo)(Libdl := zero_soinfo\<lparr>so_init_func := 0x5000\<rparr>)\<rparr>"


text \<open>
  Destructors run the functions of \<open>fini_array\<close> from the last to the first, skipping the entries 0
  and -1, and then \<open>fini_func\<close>, once each; nothing but the trace changes.
\<close>

lemma destructors_in_order:
  assumes "quiet host"
    and "if so_fini_array (so st r) = 0 then fs = []
         else fun_array (mem st) (so_fini_array (so st r)) (nat (int_count (so_fini_array_count (so st r)))) 8 = Some fs
           \<and> 0 < int_count (so_fini_array_count (so st r))"
  shows "apkenv_call_destructors host r st = Some (st\<lparr>trace := trace st @ rev fs
    @ (if so_fini_func (so st r) = 0 then [] else [so_fini_func (so st r)])\<rparr>)"
proof (cases "so_fini_array (so st r) = 0")
  case True
  with assms show ?thesis by (simp add: apkenv_call_destructors_def call_fun_quiet)
next
  case False
  let ?n = "int_count (so_fini_array_count (so st r))" and ?a = "so_fini_array (so st r)"
  have f: "fun_array (mem st) ?a (nat ?n) 8 = Some fs" "0 < ?n" using assms(2) False by auto
  have "?a + 8 * word_of_int (?n - 1) = ?a + 8 * of_nat (nat ?n) - 8"
    using f(2) by (simp add: algebra_simps of_nat_nat)
  then have "apkenv_call_array host ?a ?n True st = Some (st\<lparr>trace := trace st @ rev fs\<rparr>)"
    using call_array_loop_quiet [OF assms(1) fun_array_backwards [OF f(1)]]
    by (simp add: apkenv_call_array_def algebra_simps)
  with False assms(1) show ?thesis by (simp add: apkenv_call_destructors_def call_fun_quiet)
qed

end
