(* ===== verification/Unload.thy ===== *)
theory Unload
  imports Link_Invariants
begin

text \<open>
  Unloading: what \<open>apkenv_unload_library\<close> and the recursion over the needed libraries do to the
  registry, and what happens when the last user of the built-in object goes away.
\<close>

section \<open>Unloading shrinks the registry\<close>

text \<open>The loaded libraries afterwards are those from before without some of them, in the same order.\<close>

definition shrinks :: "linker \<Rightarrow> linker \<Rightarrow> bool" where
  "shrinks st st' \<longleftrightarrow> (pool_inv st \<longrightarrow>
     pool_inv st' \<and> (\<exists>gone. loaded st' = filter (\<lambda>l. l \<notin> gone) (loaded st)))"

lemma shrinks_frame: "same_pool st st' \<Longrightarrow> shrinks st st'"
  using same_pool_inv [of st st'] by (auto simp: shrinks_def intro!: exI [of _ "{}"])

lemma shrinks_trans:
  assumes "shrinks a b" "shrinks b c" shows "shrinks a c"
proof (unfold shrinks_def, intro impI)
  assume a: "pool_inv a"
  then obtain g where b: "pool_inv b" "loaded b = filter (\<lambda>l. l \<notin> g) (loaded a)"
    using assms(1) by (auto simp: shrinks_def)
  then obtain h where "pool_inv c" "loaded c = filter (\<lambda>l. l \<notin> h) (loaded b)"
    using assms(2) by (auto simp: shrinks_def)
  with b show "pool_inv c \<and> (\<exists>gone. loaded c = filter (\<lambda>l. l \<notin> gone) (loaded a))"
    by (auto simp: conj_commute intro!: exI [of _ "g \<union> h"])
qed

text \<open>
  The contract of an operation that unloads a library, and what the loop over the needed
  libraries makes of it.
\<close>

locale unloader =
  fixes unload :: "soref \<Rightarrow> linker \<Rightarrow> (u32 \<times> linker) option" and keeps :: "linker \<Rightarrow> linker \<Rightarrow> bool"
  assumes unload_keeps: "unload r st = Some (c, st') \<Longrightarrow> keeps st st'"
    and keeps_frame: "same_pool st st' \<Longrightarrow> keeps st st'"
    and keeps_trans: "keeps st st' \<Longrightarrow> keeps st' st'' \<Longrightarrow> keeps st st''"
begin

lemma unload_needed_keeps:
  assumes "unload_needed unload r d st = Some st'"
  shows "keeps st st'"
proof -
  have "unload = unload \<longrightarrow> keeps st st'"
    using _ assms
  proof (rule unload_needed.raw_induct [where P = "\<lambda>ul r d st y. ul = unload \<longrightarrow> keeps st y"])
    fix f :: "(soref \<Rightarrow> linker \<Rightarrow> (u32 \<times> linker) option) \<Rightarrow> soref \<Rightarrow> u64 \<Rightarrow> linker \<Rightarrow> linker option" and ul r d st y
    assume IH: "\<And>ul r d st y. f ul r d st = Some y \<Longrightarrow> ul = unload \<longrightarrow> keeps st y"
      and eq: "do {
     tag \<leftarrow> load64 (mem st) d;
     if tag = DT_NULL then Some st
     else if tag = DT_NEEDED then do {
       v \<leftarrow> load64 (mem st) (d + 8);
       m \<leftarrow> store64 (mem st) (d + 8) 0;
       let st = st\<lparr>mem := m\<rparr>;
       if apkenv_validate_soinfo st v then do {
         lsi \<leftarrow> so_at st v;
         (_, st) \<leftarrow> ul lsi st;
         f ul r (d + 16) st
       }
       else f ul r (d + 16) (dl_err (NeededUnloadFailed (so_name (so st r))) st)
     }
     else f ul r (d + 16) st
   } = Some y"
    show "ul = unload \<longrightarrow> keeps st y"
    proof
      assume ul: "ul = unload"
      obtain tag where tag: "load64 (mem st) d = Some tag" using eq by (auto split: bind_splits)
      consider "tag = DT_NULL" | "tag \<noteq> DT_NULL" "tag \<noteq> DT_NEEDED" | "tag \<noteq> DT_NULL" "tag = DT_NEEDED" by blast
      then show "keeps st y"
      proof cases
        case 1
        with eq tag show ?thesis by (simp add: keeps_frame)
      next
        case 2
        with eq tag IH [of ul r "d + 16" st y] ul show ?thesis by simp
      next
        case 3
        with eq tag obtain v m where v: "load64 (mem st) (d + 8) = Some v" "store64 (mem st) (d + 8) 0 = Some m"
          and y: "(let st = st\<lparr>mem := m\<rparr> in
            if apkenv_validate_soinfo st v then do { lsi \<leftarrow> so_at st v; (_, st) \<leftarrow> ul lsi st; f ul r (d + 16) st }
            else f ul r (d + 16) (dl_err (NeededUnloadFailed (so_name (so st r))) st)) = Some y"
          by (auto simp: bind_eq_Some_conv)
        have k: "keeps st (st\<lparr>mem := m\<rparr>)" "keeps st (dl_err e (st\<lparr>mem := m\<rparr>))" for e
          by (simp_all add: keeps_frame)
        show ?thesis
        proof (cases "apkenv_validate_soinfo (st\<lparr>mem := m\<rparr>) v")
          case True
          with y obtain lsi c st1 where u: "ul lsi (st\<lparr>mem := m\<rparr>) = Some (c, st1)" "f ul r (d + 16) st1 = Some y"
            by (auto simp: Let_def bind_eq_Some_conv)
          with ul have "keeps (st\<lparr>mem := m\<rparr>) st1" "keeps st1 y"
            using unload_keeps IH by blast+
          with k(1) show ?thesis using keeps_trans by blast
        next
          case False
          with y have "f ul r (d + 16) (dl_err (NeededUnloadFailed (so_name (so st r))) (st\<lparr>mem := m\<rparr>)) = Some y"
            by (simp add: Let_def)
          with IH ul k(2) show ?thesis using keeps_trans by blast
        qed
      qed
    qed
  qed
  then show ?thesis by simp
qed

end

lemma free_info_shrinks:
  assumes "apkenv_free_info r st = Some st'"
  shows "shrinks st st' \<and> (pool_inv st \<longrightarrow> r \<notin> set (loaded st'))"
proof (cases "pool_inv st")
  case True
  then obtain ls fs where pl: "pool_lists st ls fs" by (auto simp: pool_inv_def)
  note l = pool_lists_loaded [OF pl]
  consider "r = Libdl" | "r \<in> set ls" | "r \<notin> set (Libdl # ls)" by auto
  then show ?thesis
  proof cases
    case 1
    with assms free_info_Libdl [OF pl] show ?thesis by simp
  next
    case 2
    with free_info_success [OF True, of r] l assms have "pool_inv st'" "loaded st' = remove1 r (loaded st)" by auto
    moreover have "remove1 r (loaded st) = filter (\<lambda>l. l \<notin> {r}) (loaded st)"
      using pool_inv_loaded(1) [OF True] by (simp add: distinct_remove1_removeAll removeAll_filter_not_eq neq_commute)
    ultimately show ?thesis by (auto simp: shrinks_def intro!: exI [of _ "{r}"])
  next
    case 3
    with free_info_absent [OF pl 3] assms True l show ?thesis
      by (auto simp: shrinks_def pool_inv_dl_err loaded_dl_err intro!: exI [of _ "{}"])
  qed
qed (simp add: shrinks_def)

lemma unload_library_cases:
  assumes "apkenv_unload_library host (Suc n) r st = Some (c, st')" "so_refcount (so st r) = 1"
  obtains st1 st2 st3 st4 where "same_pool st st1"
    "unload_needed (apkenv_unload_library host n) r (so_dynamic (so st1 r)) st1 = Some st2"
    "same_pool st2 st3" "apkenv_free_info r st3 = Some st4"
    "st' = upd_so r (\<lambda>i. i\<lparr>so_refcount := 0\<rparr>) st4" "c = 0"
proof -
  obtain s1 st2 where s1: "apkenv_call_destructors host r st = Some s1"
    and st2: "unload_needed (apkenv_unload_library host n) r (so_dynamic (so (unprotect_relro r s1) r)) (unprotect_relro r s1) = Some st2"
    using assms by (auto simp: bind_eq_Some_conv Let_def)
  let ?s = "st2\<lparr>mem := munmap (mem st2) (so_base (so st2 r)) (so_size (so st2 r))\<rparr>"
  obtain st3 st4 where st3: "apkenv_notify_gdb_of_unload r ?s = Some st3" "apkenv_free_info r st3 = Some st4"
    "st' = upd_so r (\<lambda>i. i\<lparr>so_refcount := 0\<rparr>) st4" "c = 0"
    using assms s1 st2 by (auto simp: bind_eq_Some_conv Let_def)
  have "same_pool st (unprotect_relro r s1)"
    using call_destructors_frame [OF s1] unprotect_relro_frame same_pool_trans by blast
  moreover have "same_pool st2 st3"
    using notify_unload_frame [OF st3(1)] by (simp add: same_pool_def)
  ultimately show ?thesis using that st2 st3 by blast
qed

lemma unload_library_shrinks: "apkenv_unload_library host n r st = Some (c, st') \<Longrightarrow> shrinks st st'"
proof (induction n arbitrary: r st c st')
  case (Suc n)
  show ?case
  proof (cases "so_refcount (so st r) = 1")
    case True
    obtain st1 st2 st3 st4 where s: "same_pool st st1"
      "unload_needed (apkenv_unload_library host n) r (so_dynamic (so st1 r)) st1 = Some st2"
      "same_pool st2 st3" "apkenv_free_info r st3 = Some st4" "st' = upd_so r (\<lambda>i. i\<lparr>so_refcount := 0\<rparr>) st4"
      using unload_library_cases [OF Suc.prems True] by metis
    have "unloader (apkenv_unload_library host n) shrinks"
      using Suc.IH shrinks_frame shrinks_trans by unfold_locales blast+
    from unloader.unload_needed_keeps [OF this s(2)] have "shrinks st1 st2" .
    moreover have "shrinks st3 st4" using free_info_shrinks [OF s(4)] by simp
    moreover have "shrinks st4 st'" using s(5) by (intro shrinks_frame) (simp add: same_pool_upd_so)
    ultimately show ?thesis using shrinks_frame [OF s(1)] shrinks_frame [OF s(3)] shrinks_trans by blast
  next
    case False
    with Suc.prems have "st' = upd_so r (\<lambda>i. i\<lparr>so_refcount := so_refcount i - 1\<rparr>) st" by (auto simp: Let_def)
    then show ?thesis by (intro shrinks_frame) (simp add: same_pool_upd_so)
  qed
qed simp

interpretation unl: unloader "apkenv_unload_library host n" shrinks for host n
  by unfold_locales (blast intro: unload_library_shrinks shrinks_frame shrinks_trans)+

section \<open>Properties\<close>


text \<open>A library at the first slot with no needed libraries, as it is after one \<open>dlopen\<close>.\<close>

definition unload_demo :: linker where
  "unload_demo = (static_linker sa0 (image 0x1000 (replicate 16 0)))
     \<lparr>so := (so (static_linker sa0 m0))(Libdl := (apkenv_libdl_info sa0)\<lparr>so_next := Some (Pool 0)\<rparr>,
        Pool 0 := zero_soinfo\<lparr>so_name := ''a.so'', so_dynamic := 0x1000, so_refcount := 2\<rparr>),
      socount := 1, sonext := Some (Pool 0)\<rparr>"

lemma unload_demo_inv: "pool_lists unload_demo [Pool 0] []"
  by (auto simp: pool_lists_def unload_demo_def static_linker_def next_of_def zero_soinfo_def SO_MAX_def)


text \<open>
  The built-in object is not protected from unloading. When a library whose first needed entry is
  the built-in object (it named \<open>libdl.so\<close>, or a library that could not be found) is its last user,
  unloading that library follows the NULL dynamic section of the built-in object and crashes.
\<close>

lemma unload_last_user_of_libdl_crashes:
  assumes null: "prot_at (mem st) 0 = None"
    and libdl: "so_refcount (so st Libdl) = 1" "so_dynamic (so st Libdl) = 0"
      "so_fini_array (so st Libdl) = 0" "so_fini_func (so st Libdl) = 0" "\<not> has_relro (so st Libdl)"
    and lib: "so_refcount (so st r) = 1" "so_fini_array (so st r) = 0" "so_fini_func (so st r) = 0"
      "\<not> has_relro (so st r)"
    and needed: "load64 (mem st) (so_dynamic (so st r)) = Some DT_NEEDED"
      "load64 (mem st) (so_dynamic (so st r) + 8) = Some (so_ptr st Libdl)"
      "word_ok PROT_WRITE (mem st) (so_dynamic (so st r) + 8)"
  shows "apkenv_unload_library host n r st = None"
proof (cases n)
  case (Suc k)
  let ?d = "so_dynamic (so st r)" let ?st = "st\<lparr>mem := put64 (?d + 8) 0 (mem st)\<rparr>"
  have zero: "load64 m 0 = None" if "prot_at m 0 = None" for m
    using that by (simp add: load64_def load8_def can_def page_of_def PAGE_MASK_def numeral_eq_Suc)
  have crash: "apkenv_unload_library host j Libdl ?st = None" for j
  proof (cases j)
    case (Suc i)
    have "unload_needed (apkenv_unload_library host i) Libdl 0 ?st = None"
      using zero [of "mem ?st"] null by (subst unload_needed.simps) simp
    with Suc libdl show ?thesis
      by (simp add: apkenv_call_destructors_def unprotect_relro_def)
  qed simp
  have at: "so_at ?st (so_ptr st Libdl) = Some Libdl" "apkenv_validate_soinfo ?st (so_ptr st Libdl)"
    by (simp_all add: so_at_def apkenv_validate_soinfo_def)
  have "unload_needed (apkenv_unload_library host k) r ?d st = None"
    using needed at crash [of k] store64_eq [OF needed(3), of 0]
    by (subst unload_needed.simps) (simp add: DT_NULL_def DT_NEEDED_def)
  with Suc lib show ?thesis by (simp add: apkenv_call_destructors_def unprotect_relro_def)
qed simp

end
