(* ===== verification/Config.thy ===== *)
theory Config
  imports Bionic_Prelude
begin

text \<open>
  The table of library overrides and the files that fill it (\<open>linker/config.c\<close>): a growing array of
  pairs of names, the scanner for a line, and the loops over the lines of a file and the files of a
  directory. The file system is a parameter: \<open>files\<close> gives the contents of a file and \<open>dirs\<close> the
  names in a directory, in the order of \<open>readdir\<close>. The program exits on a bad file; this is the left
  side of the result.
\<close>

section \<open>The table\<close>

text \<open>
  \<open>ov_map\<close> is the block that \<open>lib_override_map\<close> points to, \<open>None\<close> for NULL. A cell that was not
  written yet holds \<open>None\<close>.
\<close>

record lib_overrides =
  ov_map :: "(string \<times> string) option list option"
  ov_len :: nat
  ov_size :: nat

definition no_overrides :: lib_overrides where
  "no_overrides = \<lparr>ov_map = None, ov_len = 0, ov_size = 0\<rparr>"

definition LIB_OVERRIDE_MAP_DEFAULT_SIZE :: nat where
  "LIB_OVERRIDE_MAP_DEFAULT_SIZE = 8"

definition lib_override_map_append :: "string \<Rightarrow> string \<Rightarrow> lib_overrides \<Rightarrow> lib_overrides option" where
  "lib_override_map_append from to st = do {
     let (cells, size) = (case ov_map st of
         None \<Rightarrow> (replicate LIB_OVERRIDE_MAP_DEFAULT_SIZE None, LIB_OVERRIDE_MAP_DEFAULT_SIZE)
       | Some cells \<Rightarrow> (cells, ov_size st));
     let (cells, size) = (if ov_len st = size then (cells @ replicate size None, size * 2) else (cells, size));
     cells \<leftarrow> arr_set cells (ov_len st) (Some (from, to));
     Some \<lparr>ov_map = Some cells, ov_len = ov_len st + 1, ov_size = size\<rparr>
   }"

section \<open>Reading the files\<close>

datatype cfg_exit = BadLine string nat | CannotOpen string

definition isspace :: "char \<Rightarrow> bool" where
  "isspace c \<longleftrightarrow> c \<in> {CHR '' '', CHR 0x09, CHR 0x0a, CHR 0x0b, CHR 0x0c, CHR 0x0d}"

text \<open>One \<open>%ms\<close> of \<open>sscanf\<close>: the next word (empty at the end of the string) and what follows it.\<close>

definition scan_word :: "string \<Rightarrow> string \<times> string" where
  "scan_word s =
     (let s = dropWhile isspace s in (takeWhile (\<lambda>c. \<not> isspace c) s, dropWhile (\<lambda>c. \<not> isspace c) s))"

text \<open>\<^verbatim>\<open>sscanf(line, "%ms %ms", &from, &to)\<close>: the pair when the return value is 2.\<close>

definition scan_pair :: "string \<Rightarrow> (string \<times> string) option" where
  "scan_pair line =
     (let (from, rest) = scan_word line; (to, _) = scan_word rest
      in if from \<noteq> [] \<and> to \<noteq> [] then Some (from, to) else None)"

definition process_cfg_line :: "string \<Rightarrow> string \<Rightarrow> nat \<Rightarrow> lib_overrides \<Rightarrow> (cfg_exit + lib_overrides) option" where
  "process_cfg_line line path linenum st = do {
     c \<leftarrow> arr_get (line @ [NUL]) 0;
     if c = CHR ''#'' \<or> c = CHR 0x0a then Some (Inr st)
     else case scan_pair (c_str line) of
       None \<Rightarrow> Some (Inl (BadLine path linenum))
     | Some (from, to) \<Rightarrow> do { st \<leftarrow> lib_override_map_append from to st; Some (Inr st) }
   }"

text \<open>The lines that successive calls of \<open>getline\<close> return, each with its newline.\<close>

function getlines :: "string \<Rightarrow> string list" where
  "getlines s =
     (if s = [] then []
      else case dropWhile (\<lambda>c. c \<noteq> CHR 0x0a) s of
             [] \<Rightarrow> [s]
           | _ # rest \<Rightarrow> (takeWhile (\<lambda>c. c \<noteq> CHR 0x0a) s @ [CHR 0x0a]) # getlines rest)"
  by pat_completeness auto
termination
proof (relation "measure length", goal_cases)
  case (2 s c rest)
  then have "Suc (length rest) \<le> length s" by (metis length_Cons length_dropWhile_le)
  then show ?case by simp
qed simp

declare getlines.simps [simp del]

fun cfg_lines_loop :: "string list \<Rightarrow> string \<Rightarrow> nat \<Rightarrow> lib_overrides \<Rightarrow> (cfg_exit + lib_overrides) option" where
  "cfg_lines_loop [] path linenum st = Some (Inr st)"
| "cfg_lines_loop (l # ls) path linenum st = do {
     res \<leftarrow> process_cfg_line l path linenum st;
     case res of Inl e \<Rightarrow> Some (Inl e) | Inr st \<Rightarrow> cfg_lines_loop ls path (linenum + 1) st
   }"

definition read_cfg_file ::
  "(string \<Rightarrow> string option) \<Rightarrow> string \<Rightarrow> lib_overrides \<Rightarrow> (cfg_exit + lib_overrides) option" where
  "read_cfg_file files path st = (case files path of
     None \<Rightarrow> Some (Inl (CannotOpen path))
   | Some text \<Rightarrow> cfg_lines_loop (getlines text) path 1 st)"

fun cfg_dir_loop ::
  "(string \<Rightarrow> string option) \<Rightarrow> string \<Rightarrow> string list \<Rightarrow> lib_overrides \<Rightarrow> (cfg_exit + lib_overrides) option" where
  "cfg_dir_loop files dir [] st = Some (Inr st)"
| "cfg_dir_loop files dir (n # ns) st =
     (if n = ''.'' \<or> n = ''..'' then cfg_dir_loop files dir ns st
      else do {
        res \<leftarrow> read_cfg_file files (dir @ ''/'' @ n) st;
        case res of Inl e \<Rightarrow> Some (Inl e) | Inr st \<Rightarrow> cfg_dir_loop files dir ns st
      })"

definition read_cfg_dir ::
  "(string \<Rightarrow> string option) \<Rightarrow> (string \<Rightarrow> string list option) \<Rightarrow> string \<Rightarrow> lib_overrides \<Rightarrow>
     (cfg_exit + lib_overrides) option" where
  "read_cfg_dir files dirs path st = (case dirs path of
     None \<Rightarrow> Some (Inr st)
   | Some ns \<Rightarrow> cfg_dir_loop files path ns st)"

section \<open>The table as a list\<close>

definition overrides_wf :: "lib_overrides \<Rightarrow> bool" where
  "overrides_wf st \<longleftrightarrow> (case ov_map st of
     None \<Rightarrow> ov_len st = 0 \<and> ov_size st = 0
   | Some cells \<Rightarrow> length cells = ov_size st \<and> 0 < ov_size st \<and> ov_len st \<le> ov_size st
       \<and> (\<forall>i < ov_len st. cells ! i \<noteq> None))"

definition overrides :: "lib_overrides \<Rightarrow> (string \<times> string) list" where
  "overrides st = (case ov_map st of None \<Rightarrow> [] | Some cells \<Rightarrow> map the (take (ov_len st) cells))"

lemma no_overrides_wf [simp]: "overrides_wf no_overrides" "overrides no_overrides = []"
  by (simp_all add: overrides_wf_def overrides_def no_overrides_def)

lemma append_cells:
  assumes "n < length cells" "\<forall>i < n. cells ! i \<noteq> None"
  shows "map the (take (Suc n) (cells[n := Some x])) = map the (take n cells) @ [x]"
    and "\<forall>i < Suc n. cells[n := Some x] ! i \<noteq> None"
  using assms by (auto simp: take_Suc_conv_app_nth nth_list_update less_Suc_eq)

lemma lib_override_map_append_ok:
  assumes "overrides_wf st"
  shows "\<exists>st'. lib_override_map_append from to st = Some st' \<and> overrides_wf st'
    \<and> overrides st' = overrides st @ [(from, to)]"
proof -
  obtain cells size where cs: "length cells = size" "ov_len st < size" "\<forall>i < ov_len st. cells ! i \<noteq> None"
    "map the (take (ov_len st) cells) = overrides st"
    "lib_override_map_append from to st = do {
       cells \<leftarrow> arr_set cells (ov_len st) (Some (from, to));
       Some \<lparr>ov_map = Some cells, ov_len = ov_len st + 1, ov_size = size\<rparr> }"
  proof (cases "ov_map st")
    case None
    with assms show ?thesis
      by (intro that [of "replicate 8 None" 8])
        (auto simp: overrides_wf_def overrides_def lib_override_map_append_def LIB_OVERRIDE_MAP_DEFAULT_SIZE_def)
  next
    case (Some cells)
    show ?thesis
    proof (cases "ov_len st = ov_size st")
      case True
      with assms Some show ?thesis
        by (intro that [of "cells @ replicate (ov_size st) None" "ov_size st * 2"])
          (auto simp: overrides_wf_def overrides_def lib_override_map_append_def nth_append)
    next
      case False
      with assms Some show ?thesis
        by (intro that [of cells "ov_size st"])
          (auto simp: overrides_wf_def overrides_def lib_override_map_append_def)
    qed
  qed
  with append_cells [of "ov_len st" cells "(from, to)"] show ?thesis
    by (auto simp: arr_set_def overrides_wf_def overrides_def)
qed

section \<open>The lines of a file\<close>

text \<open>What a line means: nothing, an entry, or an error.\<close>

definition line_entries :: "string \<Rightarrow> (string \<times> string) list option" where
  "line_entries l =
     (if l \<noteq> [] \<and> (hd l = CHR ''#'' \<or> hd l = CHR 0x0a) then Some []
      else map_option (\<lambda>e. [e]) (scan_pair (c_str l)))"

lemma process_cfg_line_eq:
  assumes "overrides_wf st"
  shows "case line_entries l of
    None \<Rightarrow> process_cfg_line l path n st = Some (Inl (BadLine path n))
  | Some es \<Rightarrow> \<exists>st'. process_cfg_line l path n st = Some (Inr st') \<and> overrides_wf st'
      \<and> overrides st' = overrides st @ es"
proof -
  have hd: "arr_get (l @ [NUL]) 0 = Some (if l = [] then NUL else hd l)"
    by (cases l) (simp_all add: arr_get_def)
  show ?thesis
  proof (cases "scan_pair (c_str l)")
    case None
    with assms hd show ?thesis by (auto simp: line_entries_def process_cfg_line_def)
  next
    case (Some e)
    with assms hd lib_override_map_append_ok [OF assms, of "fst e" "snd e"] show ?thesis
      by (cases e) (auto simp: line_entries_def process_cfg_line_def)
  qed
qed

lemma cfg_lines_loop_ok:
  assumes "overrides_wf st" and "\<forall>l \<in> set ls. line_entries l \<noteq> None"
  shows "\<exists>st'. cfg_lines_loop ls path n st = Some (Inr st') \<and> overrides_wf st'
    \<and> overrides st' = overrides st @ concat (map (the \<circ> line_entries) ls)"
  using assms
proof (induction ls arbitrary: st n)
  case (Cons l ls)
  then obtain st1 where "process_cfg_line l path n st = Some (Inr st1)" "overrides_wf st1"
    "overrides st1 = overrides st @ the (line_entries l)"
    using process_cfg_line_eq [of st l path n] by auto
  with Cons.IH [of st1 "n + 1"] Cons.prems show ?case by auto
qed simp

lemma cfg_lines_loop_bad:
  assumes "overrides_wf st" and "\<forall>l \<in> set ls. line_entries l \<noteq> None" and "line_entries b = None"
  shows "cfg_lines_loop (ls @ b # rest) path n st = Some (Inl (BadLine path (n + length ls)))"
  using assms(1,2)
proof (induction ls arbitrary: st n)
  case Nil
  with process_cfg_line_eq [of st b path n] assms(3) show ?case by simp
next
  case (Cons l ls)
  then obtain st1 where "process_cfg_line l path n st = Some (Inr st1)" "overrides_wf st1"
    using process_cfg_line_eq [of st l path n] by auto
  with Cons.IH [of st1 "n + 1"] Cons.prems show ?case by auto
qed

lemma getlines_line:
  assumes "CHR 0x0a \<notin> set l"
  shows "getlines (l @ CHR 0x0a # rest) = (l @ [CHR 0x0a]) # getlines rest"
proof -
  have "\<forall>c \<in> set l. c \<noteq> CHR 0x0a" using assms by auto
  then show ?thesis by (subst getlines.simps) (simp add: takeWhile_append2 dropWhile_append2)
qed

lemma getlines_concat:
  assumes "\<forall>l \<in> set ls. CHR 0x0a \<notin> set l"
  shows "getlines (concat (map (\<lambda>l. l @ [CHR 0x0a]) ls)) = map (\<lambda>l. l @ [CHR 0x0a]) ls"
  using assms by (induction ls) (simp_all add: getlines.simps [of "[]"] getlines_line)

section \<open>Files as a writer lays them out\<close>

text \<open>
  An entry has blanks in front of, between and behind its two names; what follows the second name
  after a blank is ignored, so it can be a comment.
\<close>

datatype cfg_item =
    Comment string
  | Blank
  | Entry string string string string string

fun item_line :: "cfg_item \<Rightarrow> string" where
  "item_line (Comment c) = CHR ''#'' # c"
| "item_line Blank = []"
| "item_line (Entry indent from gap to tail) = indent @ from @ gap @ to @ tail"

fun item_entries :: "cfg_item \<Rightarrow> (string \<times> string) list" where
  "item_entries (Entry indent from gap to tail) = [(from, to)]"
| "item_entries _ = []"

definition word :: "string \<Rightarrow> bool" where
  "word w \<longleftrightarrow> w \<noteq> [] \<and> (\<forall>c \<in> set w. \<not> isspace c) \<and> c_string w"

definition blanks :: "string \<Rightarrow> bool" where
  "blanks w \<longleftrightarrow> (\<forall>c \<in> set w. isspace c \<and> c \<noteq> CHR 0x0a)"

fun item_ok :: "cfg_item \<Rightarrow> bool" where
  "item_ok (Comment c) \<longleftrightarrow> CHR 0x0a \<notin> set c"
| "item_ok Blank \<longleftrightarrow> True"
| "item_ok (Entry indent from gap to tail) \<longleftrightarrow> blanks indent \<and> word from \<and> blanks gap \<and> gap \<noteq> [] \<and> word to
     \<and> (tail \<noteq> [] \<longrightarrow> isspace (hd tail)) \<and> CHR 0x0a \<notin> set tail
     \<and> (indent = [] \<longrightarrow> hd from \<noteq> CHR ''#'')"

definition cfg_text :: "cfg_item list \<Rightarrow> string" where
  "cfg_text items = concat (map (\<lambda>i. item_line i @ [CHR 0x0a]) items)"

lemma scan_word_eq:
  assumes "\<forall>c \<in> set indent. isspace c" "word w" "rest \<noteq> [] \<longrightarrow> isspace (hd rest)"
  shows "scan_word (indent @ w @ rest) = (w, rest)"
proof -
  obtain c w' where w: "w = c # w'" "\<not> isspace c" using assms(2) by (cases w) (auto simp: word_def)
  have d: "dropWhile isspace (indent @ w @ rest) = w @ rest"
    using assms(1) w by (simp add: dropWhile_append2)
  have nw: "\<forall>c \<in> set w. \<not> isspace c" using assms(2) by (simp add: word_def)
  have "takeWhile (\<lambda>c. \<not> isspace c) rest = []" "dropWhile (\<lambda>c. \<not> isspace c) rest = rest"
    using assms(3) by (cases rest; simp)+
  with nw show ?thesis by (simp add: scan_word_def d takeWhile_append2 dropWhile_append2)
qed

lemma isspace_not_NUL: "isspace c \<Longrightarrow> c \<noteq> NUL"
  by (auto simp: isspace_def)

lemma isspace_newline: "isspace (CHR 0x0a)"
  by (simp add: isspace_def)

lemma newline_notin: "blanks w \<Longrightarrow> CHR 0x0a \<notin> set w" "word w \<Longrightarrow> CHR 0x0a \<notin> set w"
  by (metis blanks_def, metis word_def isspace_newline)

lemma blanks_c_string: "blanks w \<Longrightarrow> c_string w"
  by (metis blanks_def c_string_def isspace_not_NUL)

lemma c_str_append: "c_string s \<Longrightarrow> c_str (s @ r) = s @ c_str r"
  by (induction s) (auto simp: c_str_def)

lemma item_line_entries:
  assumes "item_ok i"
  shows "line_entries (item_line i @ [CHR 0x0a]) = Some (item_entries i)"
proof (cases i)
  case (Entry indent fr gap to tail)
  let ?l = "item_line i @ [CHR 0x0a]"
  have ok: "blanks indent" "word fr" "blanks gap" "gap \<noteq> []" "word to"
    using assms Entry by auto
  let ?t = "c_str (tail @ [CHR 0x0a])"
  have t: "?t \<noteq> [] \<longrightarrow> isspace (hd ?t)"
    using assms Entry by (cases tail) (auto simp: c_str_def isspace_def)
  have sp: "\<forall>c \<in> set indent. isspace c" "\<forall>c \<in> set gap. isspace c" "isspace (hd gap)"
    using ok by (auto simp: blanks_def)
  have l: "c_str ?l = indent @ fr @ gap @ to @ ?t"
    using ok by (simp add: Entry c_str_append blanks_c_string word_def)
  have "scan_word (c_str ?l) = (fr, gap @ to @ ?t)"
    unfolding l using sp ok by (intro scan_word_eq) auto
  moreover have "scan_word (gap @ to @ ?t) = (to, ?t)"
    using sp ok t by (intro scan_word_eq) auto
  ultimately have "scan_pair (c_str ?l) = Some (fr, to)"
    using ok by (simp add: scan_pair_def word_def)
  moreover have "hd ?l \<noteq> CHR ''#'' \<and> hd ?l \<noteq> CHR 0x0a"
  proof (cases indent)
    case Nil
    with assms Entry ok show ?thesis by (cases fr) (auto simp: word_def isspace_def)
  next
    case (Cons c cs)
    with ok Entry show ?thesis by (auto simp: blanks_def isspace_def)
  qed
  ultimately show ?thesis by (simp add: line_entries_def Entry)
qed (simp_all add: line_entries_def)

lemma item_line_no_newline: "item_ok i \<Longrightarrow> CHR 0x0a \<notin> set (item_line i)"
  by (cases i) (simp_all add: newline_notin)

lemma getlines_cfg_text:
  "\<forall>i \<in> set items. item_ok i \<Longrightarrow>
     getlines (cfg_text items @ rest) = map (\<lambda>i. item_line i @ [CHR 0x0a]) items @ getlines rest"
  by (induction items) (simp_all add: cfg_text_def getlines_line item_line_no_newline)

lemma one_word_line:
  assumes "word w" "hd w \<noteq> CHR ''#''"
  shows "line_entries (w @ [CHR 0x0a]) = None"
proof -
  have c: "c_str (w @ [CHR 0x0a]) = w @ [CHR 0x0a]"
    using assms by (simp add: c_str_append word_def) (simp add: c_str_def)
  have "scan_word (c_str (w @ [CHR 0x0a])) = (w, [CHR 0x0a])"
    unfolding c using scan_word_eq [of "[]" w "[CHR 0x0a]"] assms by (simp add: isspace_def)
  moreover have "scan_word [CHR 0x0a] = ([], [])" by (simp add: scan_word_def isspace_def)
  moreover have "hd w \<noteq> CHR 0x0a" "w \<noteq> []" using assms by (cases w; auto simp: word_def isspace_def)+
  ultimately show ?thesis using assms by (simp add: line_entries_def scan_pair_def)
qed


definition demo_items :: "cfg_item list" where
  "demo_items = [Comment '' overrides'', Blank, Entry [] ''libc.so'' '' '' ''libc_bio.so.0'' []]"


end
