(* ===== verification/Library_Path.thy ===== *)
theory Library_Path
  imports Strlcpy Soinfo_Pool
begin

text \<open>
  \<open>dl_parse_library_path\<close> of \<open>linker/linker.c\<close>: it copies a list of directories into a static buffer,
  cuts it up in place with \<open>strsep\<close> and leaves in \<open>apkenv_ldpaths\<close> pointers into the buffer. The model
  works on the buffer and on positions in it; what other code sees of \<open>apkenv_ldpaths\<close>, the strings before
  the first NULL pointer, is the field \<open>ldpaths\<close> of the state.
\<close>

section \<open>Model\<close>

definition LDPATH_BUFSIZE :: nat where "LDPATH_BUFSIZE = 512"
definition LDPATH_MAX :: nat where "LDPATH_MAX = 8"

text \<open>
  \<open>strsep\<close> of the C library: the token that starts at the given position (NULL gives NULL); the
  separator behind it becomes NUL and the position moves behind it, or to NULL at the end.
\<close>

function sep_end :: "string \<Rightarrow> char list \<Rightarrow> nat \<Rightarrow> nat option" where
  "sep_end delim buf p = do {
     c \<leftarrow> arr_get buf p;
     if c = NUL \<or> c \<in> set delim then Some p else sep_end delim buf (p + 1)
   }"
  by pat_completeness auto
termination
  by (relation "measure (\<lambda>(delim, buf, p). length buf - p)") (auto simp: array_simps)

declare sep_end.simps [simp del]

definition strsep :: "string \<Rightarrow> nat option \<Rightarrow> char list \<Rightarrow> (nat option \<times> nat option \<times> char list) option" where
  "strsep delim stringp buf = (case stringp of
     None \<Rightarrow> Some (None, None, buf)
   | Some p \<Rightarrow> do {
       q \<leftarrow> sep_end delim buf p;
       c \<leftarrow> arr_get buf q;
       if c = NUL then Some (Some p, None, buf)
       else do { buf \<leftarrow> arr_set buf q NUL; Some (Some p, Some (q + 1), buf) }
     })"

text \<open>The loop: \<open>paths\<close> are the entries filled so far, \<open>i\<close> of the source is their number.\<close>

partial_function (option) ldpath_loop ::
  "string \<Rightarrow> nat list \<Rightarrow> nat option \<Rightarrow> char list \<Rightarrow> (nat list \<times> char list) option" where
  "ldpath_loop delim paths bufp buf =
     (if length paths < LDPATH_MAX then do {
        (tok, bufp, buf) \<leftarrow> strsep delim bufp buf;
        case tok of
          None \<Rightarrow> Some (paths, buf)
        | Some p \<Rightarrow> do {
            c \<leftarrow> arr_get buf p;
            ldpath_loop delim (if c \<noteq> NUL then paths @ [p] else paths) bufp buf
          }
      } else Some (paths, buf))"

text \<open>\<open>buf\<close> is the static buffer \<open>apkenv_ldpaths_buf\<close>, of \<open>LDPATH_BUFSIZE\<close> bytes.\<close>

definition dl_parse_library_path ::
  "string \<Rightarrow> string \<Rightarrow> char list \<Rightarrow> linker \<Rightarrow> (char list \<times> linker) option" where
  "dl_parse_library_path path delim buf st = do {
     (buf, len) \<leftarrow> apkenv_strlcpy buf (path @ [NUL]) LDPATH_BUFSIZE;
     (paths, buf) \<leftarrow> ldpath_loop delim [] (Some 0) buf;
     cut \<leftarrow> (if paths \<noteq> [] \<and> len \<ge> LDPATH_BUFSIZE
            then do { c \<leftarrow> arr_get buf (LDPATH_BUFSIZE - 2); Some (c \<noteq> NUL) } else Some False);
     let paths = (if cut then butlast paths else paths);
     Some (buf, st\<lparr>ldpaths := map (\<lambda>p. c_str (drop p buf)) paths\<rparr>)
   }"

section \<open>Cutting a string at separators\<close>

fun ld_split :: "string \<Rightarrow> string \<Rightarrow> string list" where
  "ld_split delim [] = [[]]"
| "ld_split delim (c # s) =
     (if c \<in> set delim then [] # ld_split delim s
      else case ld_split delim s of [] \<Rightarrow> [[c]] | t # ts \<Rightarrow> (c # t) # ts)"

definition ld_fields :: "string \<Rightarrow> string \<Rightarrow> string list" where
  "ld_fields delim s = filter (\<lambda>t. t \<noteq> []) (ld_split delim s)"

lemma ld_split_single: "set s \<inter> set delim = {} \<Longrightarrow> ld_split delim s = [s]"
  by (induction s) auto

lemma ld_split_append:
  "set t \<inter> set delim = {} \<Longrightarrow> c \<in> set delim \<Longrightarrow> ld_split delim (t @ c # s) = t # ld_split delim s"
  by (induction t) auto

lemma sep_end_eq:
  assumes "set t \<inter> set delim = {}" "c_string t" "c = NUL \<or> c \<in> set delim"
  shows "sep_end delim (pre @ t @ c # r) (length pre) = Some (length pre + length t)"
  using assms
proof (induction t arbitrary: pre)
  case Nil
  then show ?case by (subst sep_end.simps) simp
next
  case (Cons x t)
  then have "sep_end delim ((pre @ [x]) @ t @ c # r) (length (pre @ [x])) = Some (length (pre @ [x]) + length t)"
    by (intro Cons.IH) auto
  with Cons.prems show ?case by (subst sep_end.simps) simp
qed

lemma strsep_last:
  assumes "set t \<inter> set delim = {}" "c_string t"
  shows "strsep delim (Some (length pre)) (pre @ t @ NUL # r) = Some (Some (length pre), None, pre @ t @ NUL # r)"
  using sep_end_eq [OF assms, of NUL pre r] arr_get_append_length [of "pre @ t" NUL r]
  by (simp add: strsep_def)

lemma strsep_next:
  assumes "set t \<inter> set delim = {}" "c_string t" "c \<in> set delim" "c \<noteq> NUL"
  shows "strsep delim (Some (length pre)) (pre @ t @ c # r) =
    Some (Some (length pre), Some (length pre + length t + 1), pre @ t @ NUL # r)"
  using sep_end_eq [OF assms(1,2), of c pre r] assms(3,4)
    arr_get_append_length [of "pre @ t" c r] arr_set_append_length [of "pre @ t" c r NUL]
  by (simp add: strsep_def)

text \<open>What the loop does with a string \<open>s\<close> that starts behind \<open>pre\<close> in the buffer.\<close>

definition cut_up :: "string \<Rightarrow> nat list \<Rightarrow> char list \<Rightarrow> string \<Rightarrow> char list \<Rightarrow> nat list \<Rightarrow> string \<Rightarrow> bool" where
  "cut_up delim paths pre s r idxs s' \<longleftrightarrow>
     ldpath_loop delim paths (Some (length pre)) (pre @ s @ NUL # r) = Some (paths @ idxs, pre @ s' @ NUL # r)
     \<and> length s' = length s
     \<and> map (\<lambda>p. c_str (drop p (pre @ s' @ NUL # r))) idxs = take (LDPATH_MAX - length paths) (ld_fields delim s)
     \<and> (s \<noteq> [] \<and> last s \<notin> set delim \<longrightarrow> last s' = last s)
     \<and> (s \<noteq> [] \<and> last s \<in> set delim \<and> length paths + length (ld_fields delim s) < LDPATH_MAX \<longrightarrow> last s' = NUL)"

lemma cut_up_full: "\<not> length paths < LDPATH_MAX \<Longrightarrow> cut_up delim paths pre s r [] s"
  by (simp add: cut_up_def ldpath_loop.simps)

lemma ldpath_loop_end: "ldpath_loop delim paths None buf = Some (paths, buf)"
  by (simp add: ldpath_loop.simps strsep_def)

lemma head_at:
  "c_string t \<Longrightarrow> arr_get (pre @ t @ NUL # r) (length pre) = Some (if t = [] then NUL else hd t)"
  by (cases t) (simp_all add: arr_get_def nth_append)

lemma cut_up_last:
  assumes "length paths < LDPATH_MAX" "set s \<inter> set delim = {}" "c_string s"
  shows "cut_up delim paths pre s r (if s = [] then [] else [length pre]) s"
proof -
  have "hd s \<noteq> NUL" if "s \<noteq> []" using assms(3) that by (cases s) auto
  then have "ldpath_loop delim paths (Some (length pre)) (pre @ s @ NUL # r) =
      Some (paths @ (if s = [] then [] else [length pre]), pre @ s @ NUL # r)"
    using assms(1) by (subst ldpath_loop.simps) (simp add: strsep_last [OF assms(2,3)] head_at [OF assms(3)] ldpath_loop_end)
  moreover have "last s \<notin> set delim" if "s \<noteq> []" using assms(2) that last_in_set by blast
  ultimately show ?thesis
    using assms by (auto simp: cut_up_def ld_fields_def ld_split_single)
qed

lemma cut_up_step:
  assumes "length paths < LDPATH_MAX" "set t \<inter> set delim = {}" "c_string t" "c \<in> set delim" "c \<noteq> NUL"
    and IH: "cut_up delim (if t = [] then paths else paths @ [length pre]) (pre @ t @ [NUL]) s r idxs s'"
  shows "cut_up delim paths pre (t @ c # s) r (if t = [] then idxs else length pre # idxs) (t @ NUL # s')"
proof -
  let ?paths = "if t = [] then paths else paths @ [length pre]"
  have "hd t \<noteq> NUL" if "t \<noteq> []" using assms(3) that by (cases t) auto
  then have "ldpath_loop delim paths (Some (length pre)) (pre @ (t @ c # s) @ NUL # r) =
      ldpath_loop delim ?paths (Some (length (pre @ t @ [NUL]))) ((pre @ t @ [NUL]) @ s @ NUL # r)"
    using assms(1) strsep_next [OF assms(2-5), of pre "s @ NUL # r"] head_at [OF assms(3), of pre "s @ NUL # r"]
    by (subst ldpath_loop.simps) simp
  moreover have "ld_fields delim (t @ c # s) = (if t = [] then [] else [t]) @ ld_fields delim s"
    using assms(2,4) by (simp add: ld_fields_def ld_split_append)
  moreover have "c_str (drop (length pre) (pre @ t @ NUL # s' @ NUL # r)) = t"
    using assms(3) by simp
  ultimately show ?thesis
    using IH assms(1,4) by (cases "t = []"; cases "s = []"; auto simp: cut_up_def take_Cons' Suc_diff_Suc)
qed

lemma cut_up_exists:
  assumes "c_string s" "c_string delim"
  shows "\<exists>idxs s'. cut_up delim paths pre s r idxs s'"
  using assms(1)
proof (induction s arbitrary: paths pre rule: length_induct)
  case (1 s)
  show ?case
  proof (cases "length paths < LDPATH_MAX \<and> set s \<inter> set delim \<noteq> {}")
    case False
    then show ?thesis using cut_up_full cut_up_last 1(2) by blast
  next
    case True
    then obtain t c s2 where s: "s = t @ c # s2" "c \<in> set delim" "\<forall>x \<in> set t. x \<notin> set delim"
      using split_list_first_prop [of s "\<lambda>x. x \<in> set delim"] by blast
    then have t: "set t \<inter> set delim = {}" "c_string t" "c \<noteq> NUL" "c_string s2"
      using 1(2) by auto
    obtain idxs s' where
      "cut_up delim (if t = [] then paths else paths @ [length pre]) (pre @ t @ [NUL]) s2 r idxs s'"
      using 1(1) [rule_format, of s2] s(1) t(4) by fastforce
    from cut_up_step [OF _ t(1,2) s(2) t(3) this] True s(1) show ?thesis by blast
  qed
qed

section \<open>The result\<close>

text \<open>
  C27. Setting the search path. When the argument fits into the buffer, the search path becomes its first
  eight non-empty directories, in order. When it does not fit, only the part that was copied counts,
  and its last directory is dropped if the cut may have shortened it, that is when the copied part
  does not end in a separator. The code stays inside the buffer and always returns.
\<close>

theorem parse_library_path_correct:
  assumes "c_string path" "c_string delim" and buf: "length buf = LDPATH_BUFSIZE"
  defines "copied \<equiv> take (LDPATH_BUFSIZE - 1) path"
  shows "\<exists>buf' ps. dl_parse_library_path path delim buf st = Some (buf', st\<lparr>ldpaths := ps\<rparr>)
    \<and> length buf' = LDPATH_BUFSIZE
    \<and> (length path < LDPATH_BUFSIZE \<longrightarrow> ps = take LDPATH_MAX (ld_fields delim path))
    \<and> (length path \<ge> LDPATH_BUFSIZE \<and> last copied \<notin> set delim \<longrightarrow>
         ps = butlast (take LDPATH_MAX (ld_fields delim copied)))
    \<and> (length path \<ge> LDPATH_BUFSIZE \<and> last copied \<in> set delim \<and> length (ld_fields delim copied) < LDPATH_MAX \<longrightarrow>
         ps = ld_fields delim copied)"
proof -
  define r where "r = drop (length copied + 1) buf"
  have c: "c_string copied" "length copied < LDPATH_BUFSIZE"
    using assms(1) by (auto simp: copied_def LDPATH_BUFSIZE_def)
  have cp: "apkenv_strlcpy buf (path @ [NUL]) LDPATH_BUFSIZE = Some (copied @ NUL # r, length path)"
    using apkenv_strlcpy_spec [OF assms(1), of LDPATH_BUFSIZE buf "[]"] buf
    by (simp add: copied_def r_def Let_def LDPATH_BUFSIZE_def min_def)
  obtain idxs s' where cu: "cut_up delim [] [] copied r idxs s'"
    using cut_up_exists [OF c(1) assms(2)] by blast
  let ?buf = "s' @ NUL # r"
  have l: "ldpath_loop delim [] (Some 0) (copied @ NUL # r) = Some (idxs, ?buf)" "length s' = length copied"
    and ps: "map (\<lambda>p. c_str (drop p ?buf)) idxs = take LDPATH_MAX (ld_fields delim copied)"
    using cu by (simp_all add: cut_up_def del: drop_append)
  have len: "length ?buf = LDPATH_BUFSIZE" using l(2) c(2) buf by (simp add: r_def)
  have all: "copied = path" if "length path < LDPATH_BUFSIZE" using that by (simp add: copied_def)
  have pos: "arr_get ?buf (LDPATH_BUFSIZE - 2) = Some (last s')" "copied \<noteq> []" if "length path \<ge> LDPATH_BUFSIZE"
  proof -
    have n: "length copied = LDPATH_BUFSIZE - 1" using that by (simp add: copied_def)
    then have "s' \<noteq> []" "length s' - 1 = LDPATH_BUFSIZE - 2" using l(2) by (auto simp: LDPATH_BUFSIZE_def)
    then show "arr_get ?buf (LDPATH_BUFSIZE - 2) = Some (last s')"
      by (cases s' rule: rev_cases) (simp_all add: arr_get_def nth_append)
    show "copied \<noteq> []" using n by (auto simp: LDPATH_BUFSIZE_def)
  qed
  define ps' where "ps' = map (\<lambda>p. c_str (drop p ?buf))
    (if idxs \<noteq> [] \<and> length path \<ge> LDPATH_BUFSIZE \<and> last s' \<noteq> NUL then butlast idxs else idxs)"
  have "dl_parse_library_path path delim buf st = Some (?buf, st\<lparr>ldpaths := ps'\<rparr>)"
    using pos by (simp add: dl_parse_library_path_def cp l ps'_def)
  moreover have "ps' = take LDPATH_MAX (ld_fields delim path)" if "length path < LDPATH_BUFSIZE"
    using ps that all by (simp add: ps'_def)
  moreover have "ps' = butlast (take LDPATH_MAX (ld_fields delim copied))"
    if "length path \<ge> LDPATH_BUFSIZE" "last copied \<notin> set delim"
  proof -
    have "last s' = last copied" using cu pos(2) that by (simp add: cut_up_def)
    then have "last s' \<noteq> NUL" using c(1) pos(2) that by (metis c_string_def last_in_set)
    then show ?thesis using that ps by (auto simp: ps'_def map_butlast)
  qed
  moreover have "ps' = ld_fields delim copied"
    if "length path \<ge> LDPATH_BUFSIZE" "last copied \<in> set delim" "length (ld_fields delim copied) < LDPATH_MAX"
  proof -
    have "last s' = NUL" using cu pos(2) that by (simp add: cut_up_def)
    then show ?thesis using that ps by (simp add: ps'_def)
  qed
  ultimately show ?thesis using len by blast
qed

theorem parse_library_path_correct_witness:
  "\<exists>buf' ps. dl_parse_library_path ''/a::/b'' '':'' (replicate 512 NUL) (static_linker sa0 m0)
      = Some (buf', (static_linker sa0 m0)\<lparr>ldpaths := ps\<rparr>)
    \<and> ps = [''/a'', ''/b'']"
  using parse_library_path_correct [of "''/a::/b''" "'':''" "replicate 512 NUL" "static_linker sa0 m0"]
  by (auto simp: LDPATH_BUFSIZE_def LDPATH_MAX_def ld_fields_def)

end
