(* ===== verification/Dlfcn.thy ===== *)
theory Dlfcn
  imports Constructors Unload Config Library_Path
begin

text \<open>
  The interface that applications call (\<open>linker/dlfcn.c\<close>): \<open>dlopen\<close>, \<open>dlsym\<close>, \<open>dladdr\<close>, \<open>dlclose\<close> and
  \<open>dlerror\<close>, and the function \<open>construct\<close> that runs when the linker itself is loaded. A handle
  is the address of a \<open>soinfo\<close>, or a handle of the host's own \<open>dlopen\<close>. The lock around each of
  the functions is not modelled: calls happen one after the other.
\<close>

section \<open>Errors\<close>

datatype dlfcn_error =
    DL_ERR_CANNOT_LOAD_LIBRARY
  | DL_ERR_INVALID_LIBRARY_HANDLE
  | DL_ERR_BAD_SYMBOL_NAME
  | DL_ERR_SYMBOL_NOT_FOUND
  | DL_ERR_SYMBOL_NOT_GLOBAL

text \<open>The text of \<open>dlerror\<close> is made of one of these and of the linker's own error text.\<close>

record dl =
  dl_linker :: linker
  dl_err_str :: "(dlfcn_error \<times> dl_error option) option"

definition set_dlerror :: "dlfcn_error \<Rightarrow> dl \<Rightarrow> dl" where
  "set_dlerror e d = d\<lparr>dl_err_str := Some (e, err (dl_linker d))\<rparr>"

definition bionic_dlerror :: "dl \<Rightarrow> (dlfcn_error \<times> dl_error option) option \<times> dl" where
  "bionic_dlerror d = (dl_err_str d, d\<lparr>dl_err_str := None\<rparr>)"

section \<open>Opening and closing\<close>

text \<open>
  \<open>filename\<close> is \<open>None\<close> for NULL, for which \<open>apkenv_find_library\<close> returns \<open>apkenv_somain\<close>. The argument \<open>n\<close>
  bounds the recursions.
\<close>

definition bionic_dlopen :: "os \<Rightarrow> arch \<Rightarrow> nat \<Rightarrow> string option \<Rightarrow> u32 \<Rightarrow> dl \<Rightarrow> (u64 \<times> dl) option" where
  "bionic_dlopen host ar n filename flag d = do {
     ((ret, glibc_handle), st) \<leftarrow> (case filename of
         None \<Rightarrow> Some ((somain (dl_linker d), 0), dl_linker d)
       | Some name \<Rightarrow> apkenv_find_library host ar n True flag True name (dl_linker d));
     case ret of
       Some r \<Rightarrow> do {
         st \<leftarrow> apkenv_call_constructors_recursive host n r st;
         let st = upd_so r (\<lambda>i. i\<lparr>so_refcount := so_refcount i + 1\<rparr>) st;
         Some (so_ptr st r, d\<lparr>dl_linker := st\<rparr>)
       }
     | None \<Rightarrow>
         Some (if glibc_handle \<noteq> 0 then (glibc_handle, d\<lparr>dl_linker := st\<rparr>)
               else (0, set_dlerror DL_ERR_CANNOT_LOAD_LIBRARY (d\<lparr>dl_linker := st\<rparr>)))
   }"

text \<open>The handle is used as a \<open>soinfo\<close> without a check: another address is no object of the model.\<close>

definition bionic_dlclose :: "os \<Rightarrow> nat \<Rightarrow> u64 \<Rightarrow> dl \<Rightarrow> (int \<times> dl) option" where
  "bionic_dlclose host n handle d = do {
     r \<leftarrow> so_at (dl_linker d) handle;
     (_, st) \<leftarrow> apkenv_unload_library host n r (dl_linker d);
     Some (0, d\<lparr>dl_linker := st\<rparr>)
   }"

section \<open>Symbols and addresses\<close>

definition RTLD_DEFAULT :: u64 where "RTLD_DEFAULT = 0"
definition RTLD_NEXT :: u64 where "RTLD_NEXT = -1"

text \<open>The search for the symbol once the host has nothing: the symbol (0 for NULL) and \<open>found\<close>.\<close>

definition dlsym_search :: "u64 \<Rightarrow> u64 \<Rightarrow> bool \<Rightarrow> string \<Rightarrow> linker \<Rightarrow> (u64 \<times> soref option) option" where
  "dlsym_search ret_addr handle ours symbol st =
     (if handle = RTLD_DEFAULT then apkenv_lookup st symbol None
      else if handle = RTLD_NEXT then do {
        si \<leftarrow> apkenv_find_containing_library st ret_addr;
        case si of
          None \<Rightarrow> Some (0, None)
        | Some r \<Rightarrow> (case next_of st r of None \<Rightarrow> Some (0, None) | Some s \<Rightarrow> apkenv_lookup st symbol (Some s))
      }
      else if ours then do {
        r \<leftarrow> so_at st handle;
        s \<leftarrow> apkenv_lookup_in_library st r symbol;
        Some (s, Some r)
      }
      else Some (0, None))"

text \<open>The end of \<open>bionic_dlsym\<close>: the symbol must be global and defined.\<close>

definition dlsym_result :: "string \<Rightarrow> u64 \<times> soref option \<Rightarrow> dl \<Rightarrow> (u64 \<times> dl) option" where
  "dlsym_result symbol res d =
     (if fst res \<noteq> 0 then do {
        let m = mem (dl_linker d);
        info \<leftarrow> st_info m (fst res);
        glob \<leftarrow> (if ELF_ST_BIND info = STB_GLOBAL then do { x \<leftarrow> st_shndx m (fst res); Some (x \<noteq> 0) } else Some False);
        if glob then do {
          v \<leftarrow> st_value m (fst res);
          r \<leftarrow> snd res;
          Some (wrapper_create symbol (v + so_base (so (dl_linker d) r)), d)
        }
        else Some (0, set_dlerror DL_ERR_SYMBOL_NOT_GLOBAL d)
      }
      else Some (0, set_dlerror DL_ERR_SYMBOL_NOT_FOUND d))"

text \<open>
  \<open>host_sym h s\<close> is \<open>dlsym(h, s)\<close> of the host and \<open>ret_addr\<close> the address the function returns to. The result
  on a name that does not fit is the read behind the buffer, as in \<open>wrap_sym_name\<close>.
\<close>

definition bionic_dlsym ::
  "os \<Rightarrow> (u64 \<Rightarrow> string \<Rightarrow> u64) \<Rightarrow> u64 \<Rightarrow> u64 \<Rightarrow> string option \<Rightarrow> dl \<Rightarrow> (u64 \<times> dl) option" where
  "bionic_dlsym host host_sym ret_addr handle symbol d = (case symbol of
     None \<Rightarrow> Some (0, set_dlerror DL_ERR_BAD_SYMBOL_NAME d)
   | Some symbol \<Rightarrow> do {
       wrap \<leftarrow> wrap_sym_name symbol;
       ours \<leftarrow> do_we_have_this_handle (dl_linker d) handle;
       if \<not> ours \<and> os_dlsym host wrap \<noteq> 0 then Some (wrapper_create symbol (os_dlsym host wrap), d)
       else if \<not> ours \<and> host_sym handle symbol \<noteq> 0 then Some (wrapper_create symbol (host_sym handle symbol), d)
       else if os_dlsym host wrap \<noteq> 0 then Some (wrapper_create symbol (os_dlsym host wrap), d)
       else if os_dlsym host symbol \<noteq> 0 then Some (wrapper_create symbol (os_dlsym host symbol), d)
       else if handle = 0 then Some (0, set_dlerror DL_ERR_INVALID_LIBRARY_HANDLE d)
       else do {
         res \<leftarrow> dlsym_search ret_addr handle ours symbol (dl_linker d);
         dlsym_result symbol res d
       }
     })"

text \<open>\<open>Dl_info\<close>: the name of the library, and addresses (0 for NULL).\<close>

record Dl_info =
  dli_fname :: string
  dli_fbase :: u64
  dli_sname :: u64
  dli_saddr :: u64

definition bionic_dladdr :: "u64 \<Rightarrow> dl \<Rightarrow> (int \<times> Dl_info option) option" where
  "bionic_dladdr addr d = do {
     let st = dl_linker d;
     q \<leftarrow> apkenv_find_containing_library st addr;
     case q of
       None \<Rightarrow> Some (0, None)
     | Some r \<Rightarrow> do {
         let si = so st r;
         let info = \<lparr>dli_fname = so_name si, dli_fbase = so_base si, dli_sname = 0, dli_saddr = 0\<rparr>;
         s \<leftarrow> apkenv_find_containing_symbol (mem st) addr si;
         if s \<noteq> 0 then do {
           n \<leftarrow> st_name (mem st) s;
           v \<leftarrow> st_value (mem st) s;
           Some (1, Some (info\<lparr>dli_sname := so_strtab si + ucast n, dli_saddr := so_base si + v\<rparr>))
         }
         else Some (1, Some info)
       }
   }"

section \<open>The start of the linker\<close>

text \<open>The built-in symbol table. The functions are those of this file; their addresses are given.\<close>

record dl_functions =
  f_dlopen :: u64
  f_dlclose :: u64
  f_dlsym :: u64
  f_dlerror :: u64
  f_dladdr :: u64
  f_dl_iterate_phdr :: u64

definition ANDROID_LIBDL_STRTAB :: string where
  "ANDROID_LIBDL_STRTAB = ''dlopen'' @ [NUL] @ ''dlclose'' @ [NUL] @ ''dlsym'' @ [NUL] @ ''dlerror'' @ [NUL]
     @ ''dladdr'' @ [NUL] @ ''dl_iterate_phdr'' @ [NUL]"

definition apkenv_libdl_buckets :: "u32 list" where "apkenv_libdl_buckets = [1]"
definition apkenv_libdl_chains :: "u32 list" where "apkenv_libdl_chains = [0, 2, 3, 4, 5, 6, 0]"

text \<open>The bytes of an \<open>Elf64_Sym\<close> with the given name, info, section and value; the rest is zero.\<close>

definition sym_bytes :: "u32 \<Rightarrow> u8 \<Rightarrow> u16 \<Rightarrow> u64 \<Rightarrow> u8 list" where
  "sym_bytes name info shndx val = to_le 4 name @ [info, 0] @ to_le 2 shndx @ to_le 8 val @ replicate 8 0"

definition libdl_symtab_bytes :: "dl_functions \<Rightarrow> u8 list" where
  "libdl_symtab_bytes fs =
     sym_bytes 52 0 0 0
     @ sym_bytes 0 (push_bit 4 STB_GLOBAL) 1 (f_dlopen fs)
     @ sym_bytes 7 (push_bit 4 STB_GLOBAL) 1 (f_dlclose fs)
     @ sym_bytes 15 (push_bit 4 STB_GLOBAL) 1 (f_dlsym fs)
     @ sym_bytes 21 (push_bit 4 STB_GLOBAL) 1 (f_dlerror fs)
     @ sym_bytes 29 (push_bit 4 STB_GLOBAL) 1 (f_dladdr fs)
     @ sym_bytes 36 (push_bit 4 STB_GLOBAL) 1 (f_dl_iterate_phdr fs)"

text \<open>The loop over the directories of XDG_DATA_DIRS.\<close>

definition CFG_SUBDIR :: string where "CFG_SUBDIR = ''/bionic_translation/cfg.d''"

function xdg_loop ::
  "(string \<Rightarrow> string option) \<Rightarrow> (string \<Rightarrow> string list option) \<Rightarrow> string \<Rightarrow> lib_overrides \<Rightarrow>
     (cfg_exit + lib_overrides) option" where
  "xdg_loop files dirs xdg ov =
     (if xdg = [] then Some (Inr ov)
      else do {
        let dir = takeWhile (\<lambda>c. c \<noteq> CHR '':'') xdg;
        res \<leftarrow> read_cfg_dir files dirs (dir @ CFG_SUBDIR) ov;
        case res of
          Inl e \<Rightarrow> Some (Inl e)
        | Inr ov \<Rightarrow> xdg_loop files dirs (dropWhile (\<lambda>c. c = CHR '':'') (drop (length dir) xdg)) ov
      })"
  by pat_completeness auto
termination
proof (relation "measure (\<lambda>(files, dirs, xdg, ov). length xdg)", goal_cases)
  case (2 files dirs xdg ov dir res ov')
  show ?case
  proof (cases "dir = []")
    case True
    with 2 obtain rest where "xdg = CHR '':'' # rest" by (cases xdg) (auto split: if_splits)
    with True show ?thesis by (simp add: le_imp_less_Suc length_dropWhile_le)
  next
    case False
    have "length (dropWhile (\<lambda>c. c = CHR '':'') (drop (length dir) xdg)) \<le> length xdg - length dir"
      using length_dropWhile_le [of _ "drop (length dir) xdg"] by simp
    moreover have "length dir \<le> length xdg" "0 < length dir" using 2 False by (auto simp: length_takeWhile_le)
    ultimately show ?thesis by (simp del: length_greater_0_conv)
  qed
qed simp

declare xdg_loop.simps [simp del]

text \<open>
  \<open>symtab\<close> is the address of \<open>apkenv_libdl_symtab\<close>, \<open>buf\<close> the buffer of the search path. The left side of
  the result is the exit of the program on a bad configuration file.
\<close>

definition construct ::
  "os \<Rightarrow> (string \<Rightarrow> string option) \<Rightarrow> (string \<Rightarrow> string list option) \<Rightarrow> dl_functions \<Rightarrow> u64 \<Rightarrow>
     char list \<Rightarrow> lib_overrides \<Rightarrow> linker \<Rightarrow> (cfg_exit + (char list \<times> lib_overrides \<times> linker)) option" where
  "construct host files dirs fs symtab buf ov st = do {
     m \<leftarrow> store_bytes (mem st) symtab (libdl_symtab_bytes fs);
     let st = st\<lparr>mem := m\<rparr>;
     let xdg = (case os_env host ''XDG_DATA_DIRS'' of None \<Rightarrow> ''/usr/local/share:/usr/share'' | Some s \<Rightarrow> s);
     res \<leftarrow> xdg_loop files dirs xdg ov;
     case res of
       Inl e \<Rightarrow> Some (Inl e)
     | Inr ov \<Rightarrow> do {
         res \<leftarrow> read_cfg_dir files dirs ''/etc/bionic_translation/cfg.d'' ov;
         case res of
           Inl e \<Rightarrow> Some (Inl e)
         | Inr ov \<Rightarrow> do {
             let st = st\<lparr>lib_override_map := overrides ov\<rparr>;
             (buf, st) \<leftarrow> (case os_env host ''BIONIC_LD_LIBRARY_PATH'' of
                 None \<Rightarrow> Some (buf, st)
               | Some path \<Rightarrow> dl_parse_library_path path '':'' buf st);
             Some (Inr (buf, ov, st))
           }
       }
   }"

section \<open>Constructors leave the registry and the counts alone\<close>

definition same_refs :: "linker \<Rightarrow> linker \<Rightarrow> bool" where
  "same_refs st st' \<longleftrightarrow> same_pool st st' \<and> (\<forall>q. so_refcount (so st' q) = so_refcount (so st q))"

lemma same_refs_refl [simp]: "same_refs st st"
  by (simp add: same_refs_def)

lemma same_refs_trans: "same_refs a b \<Longrightarrow> same_refs b c \<Longrightarrow> same_refs a c"
  using same_pool_trans [of a b c] by (simp add: same_refs_def)

lemma same_refs_dl_err: "same_refs st (dl_err e st)"
  by (simp add: same_refs_def)

lemma call_array_loop_so: "call_array_loop host a n inc st = Some st' \<Longrightarrow> so st' = so st"
proof (induction n arbitrary: a st)
  case (Suc n)
  then obtain f st1 where "call_array_loop host (a + inc) n inc st1 = Some st'" "so st1 = so st"
    by (auto simp: call_fun_def bind_eq_Some_conv split: if_splits)
  with Suc.IH show ?case by metis
qed simp

lemma call_array_refs: "apkenv_call_array host a n b st = Some st' \<Longrightarrow> same_refs st st'"
  using call_array_frame call_array_loop_so
  by (auto simp: same_refs_def apkenv_call_array_def split: if_splits)

lemma call_fun_refs: "call_fun host a st = Some st' \<Longrightarrow> same_refs st st'"
  using call_fun_frame by (auto simp: same_refs_def call_fun_def split: bind_splits)

lemma ctors_needed_refs:
  assumes "ctors_needed rec r d st = Some st'" and rec: "\<And>q st st'. rec q st = Some st' \<Longrightarrow> same_refs st st'"
  shows "same_refs st st'"
proof -
  have "rec = rec \<longrightarrow> same_refs st st'"
    using _ assms(1)
  proof (rule ctors_needed.raw_induct [where P = "\<lambda>rc r d st y. rc = rec \<longrightarrow> same_refs st y"])
    fix f :: "(soref \<Rightarrow> linker \<Rightarrow> linker option) \<Rightarrow> soref \<Rightarrow> u64 \<Rightarrow> linker \<Rightarrow> linker option" and rc r d st y
    assume IH: "\<And>rc r d st y. f rc r d st = Some y \<Longrightarrow> rc = rec \<longrightarrow> same_refs st y"
      and eq: "do {
     tag \<leftarrow> load64 (mem st) d;
     if tag = DT_NULL then Some st
     else if tag = DT_NEEDED then do {
       v \<leftarrow> load64 (mem st) (d + 8);
       if \<not> apkenv_validate_soinfo st v
       then f rc r (d + 16) (dl_err (BadNeededPointer (so_name (so st r))) st)
       else do {
         lsi \<leftarrow> so_at st v;
         st \<leftarrow> rc lsi st;
         f rc r (d + 16) st
       }
     }
     else f rc r (d + 16) st
   } = Some y"
    show "rc = rec \<longrightarrow> same_refs st y"
    proof
      assume rc: "rc = rec"
      obtain tag where tag: "load64 (mem st) d = Some tag" using eq by (auto split: bind_splits)
      consider "tag = DT_NULL" | "tag \<noteq> DT_NULL" "tag \<noteq> DT_NEEDED" | "tag \<noteq> DT_NULL" "tag = DT_NEEDED" by blast
      then show "same_refs st y"
      proof cases
        case 1
        with eq tag show ?thesis by simp
      next
        case 2
        with eq tag IH [of rc r "d + 16" st y] rc show ?thesis by simp
      next
        case 3
        with eq tag obtain v where "load64 (mem st) (d + 8) = Some v"
          and y: "(if \<not> apkenv_validate_soinfo st v
            then f rc r (d + 16) (dl_err (BadNeededPointer (so_name (so st r))) st)
            else do { lsi \<leftarrow> so_at st v; st \<leftarrow> rc lsi st; f rc r (d + 16) st }) = Some y"
          by (auto simp: bind_eq_Some_conv)
        show ?thesis
        proof (cases "apkenv_validate_soinfo st v")
          case True
          with y obtain lsi st1 where "rc lsi st = Some st1" "f rc r (d + 16) st1 = Some y"
            by (auto simp: bind_eq_Some_conv)
          with IH rec rc same_refs_trans show ?thesis by blast
        next
          case False
          with y have "f rc r (d + 16) (dl_err (BadNeededPointer (so_name (so st r))) st) = Some y" by simp
          with IH rc same_refs_trans [OF same_refs_dl_err] show ?thesis by blast
        qed
      qed
    qed
  qed
  then show ?thesis by simp
qed

lemma call_constructors_refs:
  "apkenv_call_constructors_recursive host n r st = Some st' \<Longrightarrow> same_refs st st'"
proof (induction n arbitrary: r st st')
  case (Suc n)
  show ?case
  proof (cases "so_constructors_called (so st r)")
    case True
    with Suc.prems show ?thesis by simp
  next
    case False
    let ?st = "upd_so r (\<lambda>i. i\<lparr>so_constructors_called := True\<rparr>) st"
    from Suc.prems False obtain s1 s2 s3 where
      s: "apkenv_call_array host (so_preinit_array (so ?st r)) (int_count (so_preinit_array_count (so ?st r))) False ?st = Some s1"
      "(if so_dynamic (so s1 r) \<noteq> 0 then ctors_needed (apkenv_call_constructors_recursive host n) r (so_dynamic (so s1 r)) s1
        else Some s1) = Some s2"
      "(if so_init_func (so s2 r) \<noteq> 0 then call_fun host (so_init_func (so s2 r)) s2 else Some s2) = Some s3"
      "(if so_init_array (so s3 r) \<noteq> 0
        then apkenv_call_array host (so_init_array (so s3 r)) (int_count (so_init_array_count (so s3 r))) False s3
        else Some s3) = Some st'"
      by (auto simp: Let_def bind_eq_Some_conv)
    have "same_refs st ?st" by (simp add: same_refs_def same_pool_upd_so)
    moreover have "same_refs ?st s1" using call_array_refs [OF s(1)] .
    moreover have "same_refs s1 s2"
      using s(2) ctors_needed_refs [OF _ Suc.IH] by (auto split: if_splits)
    moreover have "same_refs s2 s3" using s(3) call_fun_refs by (auto split: if_splits)
    moreover have "same_refs s3 st'" using s(4) call_array_refs by (auto split: if_splits)
    ultimately show ?thesis using same_refs_trans by blast
  qed
qed simp

section \<open>Properties\<close>

lemma same_refs_handle:
  "same_pool st st' \<Longrightarrow> so_ptr st' r = so_ptr st r"
  by (rule so_ptr_cong) (simp_all add: same_pool_def)

lemma pool_member:
  assumes "pool_lists st ls fs" "r \<in> set (Libdl # ls)"
  shows "case r of Libdl \<Rightarrow> True | Pool i \<Rightarrow> i < SO_MAX"
proof (cases "r = Libdl")
  case False
  then have "r \<in> Pool ` {..<SO_MAX}"
    using assms pool_inv_loaded(4) [of st] pool_lists_loaded [OF assms(1)] by (auto simp: pool_inv_def)
  then show ?thesis by auto
qed simp


definition dl0 :: dl where
  "dl0 = \<lparr>dl_linker = static_linker sa0 m0, dl_err_str = None\<rparr>"

lemma static_pool: "pool_lists (static_linker sa0 m0) [] []"
  by (simp add: pool_lists_def static_linker_def next_of_def apkenv_libdl_info_def zero_soinfo_def)

lemma find_libdl:
  assumes "pool_lists st [] fs" "lib_override_map st = []" "so_name (so st Libdl) = ''libdl.so''"
    "so_flags (so st Libdl) = FLAG_LINKED"
  shows "apkenv_find_library host ar (Suc n) tg gf want ''libdl.so'' st = Some ((Some Libdl, 0), st)"
proof -
  have "base_name (strip_prefix ''libdl.so'') = ''libdl.so''" by code_simp
  with assms find_by_name [OF assms(1), of "''libdl.so''"] show ?thesis
    by (simp add: Let_def apply_override_def has_flag_def flag_defs)
qed


text \<open>
  C23. Opening a library that is loaded, linked, initialised and in use, and closing the handle again,
  leaves the linker exactly as it was.
\<close>

theorem dlopen_dlclose_roundtrip:
  assumes "pool_lists (dl_linker d) ls fs" and "static_layout (dl_linker d)"
    and "find (\<lambda>x. so_name (so (dl_linker d) x) =
        base_name (apply_override (lib_override_map (dl_linker d)) (strip_prefix name))) (Libdl # ls) = Some r"
    and "has_flag FLAG_LINKED (so (dl_linker d) r)" and "\<not> has_flag FLAG_ERROR (so (dl_linker d) r)"
    and "so_constructors_called (so (dl_linker d) r)" and "so_refcount (so (dl_linker d) r) \<noteq> 0"
  shows "do { (h, d1) \<leftarrow> bionic_dlopen host ar (Suc n) (Some name) flag d; bionic_dlclose host (Suc k) h d1 } = Some (0, d)"
proof -
  let ?st = "dl_linker d" let ?up = "upd_so r (\<lambda>i. i\<lparr>so_refcount := so_refcount i + 1\<rparr>) ?st"
  have f: "apkenv_find_library host ar (Suc n) True flag True name ?st = Some ((Some r, 0), ?st)"
    using find_by_name [OF assms(1)] assms(3-5) by (simp add: Let_def)
  have o: "bionic_dlopen host ar (Suc n) (Some name) flag d = Some (so_ptr ?up r, d\<lparr>dl_linker := ?up\<rparr>)"
    using f assms(6) by (simp add: bionic_dlopen_def Let_def del: apkenv_find_library.simps)
  have "r \<in> set (Libdl # ls)" using assms(3) by (metis (mono_tags, lifting) find_Some_iff nth_mem)
  then have "case r of Libdl \<Rightarrow> True | Pool i \<Rightarrow> i < SO_MAX"
    by (rule pool_member [OF assms(1)])
  then have at: "so_at ?up (so_ptr ?up r) = Some r"
    using so_at_so_ptr [of ?up r] assms(2) by (simp add: static_layout_def)
  have "so_refcount (so ?up r) \<noteq> 1" using assms(7) by simp
  moreover have "upd_so r (\<lambda>i. i\<lparr>so_refcount := so_refcount i - 1\<rparr>) ?up = ?st"
    by (simp add: upd_so_def)
  ultimately have "bionic_dlclose host (Suc k) (so_ptr ?up r) (d\<lparr>dl_linker := ?up\<rparr>) = Some (0, d)"
    using at by (simp add: bionic_dlclose_def Let_def)
  with o show ?thesis by simp
qed

definition dl1 :: dl where
  "dl1 = \<lparr>dl_linker = (static_linker sa0 m0)\<lparr>so := (so (static_linker sa0 m0))
     (Libdl := (apkenv_libdl_info sa0)\<lparr>so_refcount := 1, so_constructors_called := True\<rparr>)\<rparr>, dl_err_str = None\<rparr>"

theorem dlopen_dlclose_roundtrip_witness:
  "do { (h, d1) \<leftarrow> bionic_dlopen host0 X86_64 (Suc 0) (Some ''libdl.so'') 0 dl1; bionic_dlclose host0 (Suc 0) h d1 } = Some (0, dl1)"
proof -
  have b: "base_name (strip_prefix ''libdl.so'') = ''libdl.so''" by code_simp
  have pl: "pool_lists (dl_linker dl1) [] []"
    by (simp add: dl1_def pool_lists_def static_linker_def next_of_def apkenv_libdl_info_def zero_soinfo_def)
  have l: "static_layout (dl_linker dl1)"
    by (simp add: dl1_def static_layout_def static_linker_def sa0_def SOINFO_SIZE_def SO_MAX_def)
  show ?thesis
    by (rule dlopen_dlclose_roundtrip [OF pl l, where r = Libdl])
      (simp_all add: dl1_def static_linker_def apply_override_def b apkenv_libdl_info_def has_flag_def flag_defs)
qed

lemma wrap_name: "length symbol < 1017 \<Longrightarrow> wrap_sym_name symbol = Some (''bionic_'' @ symbol)"
  by (simp add: wrap_sym_name_def WRAP_NAME_SIZE_def)

lemma exported_info:
  assumes "provided_by st syms name r s"
  shows "\<exists>info x. st_info (mem st) s = Some info \<and> st_shndx (mem st) s = Some x \<and> x \<noteq> 0
    \<and> (ELF_ST_BIND info = STB_GLOBAL \<or> ELF_ST_BIND info = STB_WEAK)"
  using assms
  by (auto simp: provided_by_def exported_def is_symbol_global_and_defined_def SHN_UNDEF_def bind_eq_Some_conv split: if_splits)

lemma dlsym_result_provided:
  assumes "s \<noteq> 0 \<longrightarrow> provided_by (dl_linker d) syms symbol r s"
    and "\<And>s. provided_by (dl_linker d) syms symbol r s \<Longrightarrow> st_value (mem (dl_linker d)) s \<noteq> None"
  shows "dlsym_result symbol (s, Some r) d = Some
    (if s = 0 then (0, set_dlerror DL_ERR_SYMBOL_NOT_FOUND d)
     else if ELF_ST_BIND (the (st_info (mem (dl_linker d)) s)) = STB_GLOBAL
     then (the (st_value (mem (dl_linker d)) s) + so_base (so (dl_linker d) r), d)
     else (0, set_dlerror DL_ERR_SYMBOL_NOT_GLOBAL d))"
proof (cases "s = 0")
  case True
  then show ?thesis by (simp add: dlsym_result_def)
next
  case False
  then have p: "provided_by (dl_linker d) syms symbol r s" using assms(1) by simp
  obtain info x v where "st_info (mem (dl_linker d)) s = Some info" "st_shndx (mem (dl_linker d)) s = Some x" "x \<noteq> 0"
    "st_value (mem (dl_linker d)) s = Some v" using exported_info [OF p] assms(2) [OF p] by auto
  with False show ?thesis by (simp add: dlsym_result_def)
qed


definition demo_dl :: dl where
  "demo_dl = \<lparr>dl_linker = demo_state, dl_err_str = None\<rparr>"

lemma demo_dl_linker [simp]: "dl_linker demo_dl = demo_state"
  by (simp add: demo_dl_def)

lemma demo_provided: "provided_by demo_state (\<lambda>_. {1}) ''f'' r s \<Longrightarrow> s = sym_at demo_sysv (ucast (1 :: u32))"
  by (simp add: provided_by_def)


end
