(* ===== verification/Libdl_Table.thy ===== *)
theory Libdl_Table
  imports Dlfcn
begin

text \<open>
  The symbol table of the built-in \<open>libdl.so\<close> (\<open>linker/dlfcn.c\<close>): \<open>construct\<close> writes it at run time, and the
  hash table around it is static data. Together they are a well-formed System V table of the six
  functions, so the lookup of the linker finds exactly these.
\<close>

section \<open>Parts of a block of bytes\<close>

lemma load_bytes_length: "load_bytes m a n = Some bs \<Longrightarrow> length bs = n"
  by (induction n arbitrary: a bs) (auto split: bind_splits)

lemma load_bytes_add:
  "load_bytes m a (i + k) = do { xs \<leftarrow> load_bytes m a i; ys \<leftarrow> load_bytes m (a + of_nat i) k; Some (xs @ ys) }"
  by (induction i arbitrary: a) (auto simp: algebra_simps split: bind_splits)

lemma load_bytes_part:
  assumes "load_bytes m a n = Some bs" and "i + k \<le> n"
  shows "load_bytes m (a + of_nat i) k = Some (take k (drop i bs))"
proof -
  have "load_bytes m a (i + (k + (n - i - k))) = Some bs" using assms by simp
  then obtain xs ys zs where "load_bytes m a i = Some xs" "load_bytes m (a + of_nat i) k = Some ys" "bs = xs @ ys @ zs"
    unfolding load_bytes_add by (auto split: bind_splits)
  moreover from this have "length xs = i" "length ys = k" using load_bytes_length by blast+
  ultimately show ?thesis by simp
qed

section \<open>The static data\<close>

text \<open>
  The static arrays are in memory and can be read, the array of symbols can be read and written, and
  it overlaps none of the others.
\<close>

definition libdl_data :: "static_addresses \<Rightarrow> memory \<Rightarrow> bool" where
  "libdl_data sa m \<longleftrightarrow>
     load_bytes m (libdl_strtab sa) 53 = Some (map of_char (ANDROID_LIBDL_STRTAB @ [NUL]))
   \<and> load_bytes m (libdl_buckets sa) 4 = Some (concat (map (to_le 4) apkenv_libdl_buckets))
   \<and> load_bytes m (libdl_chains sa) 28 = Some (concat (map (to_le 4) apkenv_libdl_chains))
   \<and> 0 < libdl_symtab sa \<and> unat (libdl_symtab sa) + 168 < 2 ^ 64"

definition libdl_symtab_space :: "static_addresses \<Rightarrow> memory \<Rightarrow> bool" where
  "libdl_symtab_space sa m \<longleftrightarrow>
     (\<forall>x. in_bytes (libdl_symtab sa) 168 x \<longrightarrow> can PROT_READ m x \<and> can PROT_WRITE m x
        \<and> \<not> in_bytes (libdl_strtab sa) 53 x \<and> \<not> in_bytes (libdl_buckets sa) 4 x \<and> \<not> in_bytes (libdl_chains sa) 28 x)"

lemma length_sym_bytes: "length (sym_bytes n i x v) = 24"
  by (simp add: sym_bytes_def)

lemma length_symtab: "length (libdl_symtab_bytes fs) = 168"
  by (simp add: libdl_symtab_bytes_def length_sym_bytes)

lemma store_symtab:
  assumes "libdl_data sa m" "libdl_symtab_space sa m"
  shows "\<exists>m'. store_bytes m (libdl_symtab sa) (libdl_symtab_bytes fs) = Some m' \<and> libdl_data sa m'
    \<and> load_bytes m' (libdl_symtab sa) 168 = Some (libdl_symtab_bytes fs)"
proof -
  let ?a = "libdl_symtab sa" let ?bs = "libdl_symtab_bytes fs"
  let ?m = "m\<lparr>byte_at := (\<lambda>x. if in_bytes ?a 168 x then ?bs ! unat (x - ?a) else byte_at m x)\<rparr>"
  have st: "store_bytes m ?a ?bs = Some ?m"
    using store_bytes_eq [of ?bs ?a m] assms(2) by (simp add: length_symtab libdl_symtab_space_def)
  have keep: "load_bytes ?m b n = load_bytes m b n" if "\<forall>x. in_bytes ?a 168 x \<longrightarrow> \<not> in_bytes b n x" "n < 2 ^ 64" for b n
    using that by (intro load_bytes_cong) auto
  have "libdl_data sa ?m"
    using assms keep [of "libdl_strtab sa" 53] keep [of "libdl_buckets sa" 4] keep [of "libdl_chains sa" 28]
    by (simp add: libdl_data_def libdl_symtab_space_def)
  moreover have "load_bytes ?m ?a 168 = Some (map (\<lambda>i. byte_at ?m (?a + of_nat i)) [0..<168])"
    using assms(2) by (intro load_bytes_eq) (auto simp: libdl_symtab_space_def can_def)
  moreover have "map (\<lambda>i. byte_at ?m (?a + of_nat i)) [0..<168] = ?bs"
  proof (rule nth_equalityI)
    fix i assume "i < length (map (\<lambda>i. byte_at ?m (?a + of_nat i)) [0..<168])"
    then have i: "i < 168" by simp
    then have "unat (of_nat i :: u64) = i" by (simp add: unat_of_nat take_bit_nat_eq_self)
    with i show "map (\<lambda>i. byte_at ?m (?a + of_nat i)) [0..<168] ! i = ?bs ! i"
      by (simp add: in_bytes_def)
  qed (simp add: length_symtab)
  ultimately show ?thesis using st by auto
qed

section \<open>The table is well formed\<close>

definition libdl_entries :: "dl_functions \<Rightarrow> (string \<times> u64) list" where
  "libdl_entries fs = [(''dlopen'', f_dlopen fs), (''dlclose'', f_dlclose fs), (''dlsym'', f_dlsym fs),
     (''dlerror'', f_dlerror fs), (''dladdr'', f_dladdr fs), (''dl_iterate_phdr'', f_dl_iterate_phdr fs)]"

lemma sym_fields:
  assumes "load_bytes m s 24 = Some (sym_bytes n i x v)"
  shows "st_name m s = Some n" "st_info m s = Some i" "st_shndx m s = Some x" "st_value m s = Some v"
proof -
  note part = load_bytes_part [OF assms]
  show "st_name m s = Some n" using part [of 0 4] by (simp add: st_name_def load32_def sym_bytes_def le_word_to_le)
  show "st_shndx m s = Some x" using part [of 6 2] by (simp add: st_shndx_def load16_def sym_bytes_def le_word_to_le)
  show "st_value m s = Some v" using part [of 8 8] by (simp add: st_value_def load64_def sym_bytes_def le_word_to_le)
  have "load_bytes m (s + 4) 1 = Some [i]" using part [of 4 1] by (simp add: sym_bytes_def)
  then show "st_info m s = Some i" by (auto simp: st_info_def split: bind_splits)
qed

text \<open>A symbol of the table by its index, the offset of its name and its value.\<close>

lemma libdl_symbol:
  assumes d: "libdl_data sa m" and t: "load_bytes m (libdl_symtab sa) 168 = Some (libdl_symtab_bytes fs)"
    and "take 24 (drop (24 * i) (libdl_symtab_bytes fs)) = sym_bytes (of_nat off) (push_bit 4 STB_GLOBAL) 1 v"
    and "take (Suc (length name)) (drop off (map of_char (ANDROID_LIBDL_STRTAB @ [NUL]))) = map of_char name @ [0 :: u8]"
    and "i < 7" "off + length name < 53" "c_string name"
  shows "sym_str m (apkenv_libdl_info sa) (of_nat i) = Some name"
    "is_symbol_global_and_defined m (sym_at (apkenv_libdl_info sa) (of_nat i)) = Some True"
    "st_value m (sym_at (apkenv_libdl_info sa) (of_nat i)) = Some v"
    "sym_at (apkenv_libdl_info sa) (of_nat i) \<noteq> 0" "ucast (of_nat i :: u32) = (of_nat i :: u64)"
proof -
  let ?s = "sym_at (apkenv_libdl_info sa) (of_nat i)"
  have s: "?s = libdl_symtab sa + of_nat (24 * i)" by (simp add: sym_at_def apkenv_libdl_info_def)
  have "load_bytes m ?s 24 = Some (sym_bytes (of_nat off) (push_bit 4 STB_GLOBAL) 1 v)"
    using load_bytes_part [OF t, of "24 * i" 24] assms(3,5) s by simp
  note f = sym_fields [OF this]
  show "st_value m ?s = Some v" by (rule f(4))
  show "is_symbol_global_and_defined m ?s = Some True"
    by (simp add: is_symbol_global_and_defined_def f ELF_ST_BIND_def STB_GLOBAL_def SHN_UNDEF_def)
  show u: "ucast (of_nat i :: u32) = (of_nat i :: u64)"
    using assms(5) by (simp add: word_eq_iff_unsigned unat_of_nat take_bit_nat_eq_self unsigned_ucast_eq unsigned_of_nat take_bit_eq_mod)
  have "load_bytes m (libdl_strtab sa + of_nat off) (Suc (length name)) = Some (map of_char name @ [0])"
    using load_bytes_part [of m "libdl_strtab sa" 53 _ off "Suc (length name)"] d assms(4,6) by (simp add: libdl_data_def)
  from mem_str_bytes [OF this assms(7)] have "mem_str m (libdl_strtab sa + of_nat off) = Some name" .
  moreover have "ucast (of_nat off :: u32) = (of_nat off :: u64)"
    using assms(6) by (simp add: word_eq_iff_unsigned unsigned_ucast_eq unsigned_of_nat take_bit_eq_mod)
  ultimately show "sym_str m (apkenv_libdl_info sa) (of_nat i) = Some name"
    using f(1) u by (simp add: sym_str_def apkenv_libdl_info_def)
  have "unat ?s = unat (libdl_symtab sa) + 24 * i"
    using d assms(5) unfolding s by (simp add: libdl_data_def unat_word_ariths unat_of_nat take_bit_nat_eq_self)
  moreover have "0 < unat (libdl_symtab sa)" using d by (simp add: libdl_data_def unat_gt_0 word_gt_0)
  ultimately show "?s \<noteq> 0" by auto
qed

definition libdl_offsets :: "nat list" where
  "libdl_offsets = [0, 7, 15, 21, 29, 36]"

lemma libdl_parts:
  "list_all (\<lambda>i. take 24 (drop (24 * Suc i) (libdl_symtab_bytes fs)) =
     sym_bytes (of_nat (libdl_offsets ! i)) (push_bit 4 STB_GLOBAL) 1 (snd (libdl_entries fs ! i))) [0, 1, 2, 3, 4, 5]"
  by (simp add: libdl_symtab_bytes_def length_sym_bytes libdl_offsets_def libdl_entries_def)

lemma libdl_names:
  "list_all (\<lambda>i. let name = fst (libdl_entries fs ! i); off = libdl_offsets ! i
     in take (Suc (length name)) (drop off (map of_char (ANDROID_LIBDL_STRTAB @ [NUL]))) = map of_char name @ [0 :: u8]
       \<and> off + length name < 53 \<and> c_string name) [0, 1, 2, 3, 4, 5]"
  by (simp add: libdl_offsets_def libdl_entries_def ANDROID_LIBDL_STRTAB_def)

lemma less_six: "i < 6 \<longleftrightarrow> i \<in> set [0, 1, 2, 3, 4, 5 :: nat]"
  by auto

lemma libdl_symbol_at:
  assumes "libdl_data sa m" "load_bytes m (libdl_symtab sa) 168 = Some (libdl_symtab_bytes fs)" and i: "i < 6"
  defines "si \<equiv> apkenv_libdl_info sa" and "n \<equiv> of_nat (Suc i) :: u32"
  shows "sym_ok m si n" "exported m si name n \<longleftrightarrow> name = fst (libdl_entries fs ! i)"
    "st_value m (sym_at si (ucast n)) = Some (snd (libdl_entries fs ! i))"
proof -
  let ?name = "fst (libdl_entries fs ! i)" and ?off = "libdl_offsets ! i"
  have p: "take 24 (drop (24 * Suc i) (libdl_symtab_bytes fs)) = sym_bytes (of_nat ?off) (push_bit 4 STB_GLOBAL) 1 (snd (libdl_entries fs ! i))"
    using libdl_parts i unfolding less_six list_all_iff by blast
  have q: "take (Suc (length ?name)) (drop ?off (map of_char (ANDROID_LIBDL_STRTAB @ [NUL]))) = map of_char ?name @ [0 :: u8]"
    "?off + length ?name < 53" "c_string ?name"
    using libdl_names [of fs] i unfolding less_six list_all_iff Let_def by blast+
  have "Suc i < 7" using i by simp
  note l = libdl_symbol [OF assms(1,2) p q(1) this q(2,3)]
  show "sym_ok m si n" "exported m si name n \<longleftrightarrow> name = ?name"
    "st_value m (sym_at si (ucast n)) = Some (snd (libdl_entries fs ! i))"
    unfolding si_def n_def sym_ok_def exported_def l(5) using l(1-4) by auto
qed

definition libdl_indices :: "u32 list" where
  "libdl_indices = [1, 2, 3, 4, 5, 6]"

lemma libdl_indices_iff: "n \<in> set libdl_indices \<longleftrightarrow> (\<exists>i < 6. n = of_nat (Suc i))"
proof -
  have "set libdl_indices = (\<lambda>i. of_nat (Suc i)) ` set [0, 1, 2, 3, 4, 5 :: nat]" by (simp add: libdl_indices_def)
  then show ?thesis unfolding less_six by blast
qed

lemma libdl_sysv_table:
  assumes "libdl_data sa m" "load_bytes m (libdl_symtab sa) 168 = Some (libdl_symtab_bytes fs)"
  shows "sysv_table m (apkenv_libdl_info sa) (set libdl_indices)"
proof -
  let ?si = "apkenv_libdl_info sa"
  have nb: "so_nbucket ?si = 1" by (simp add: apkenv_libdl_info_def)
  have b: "bucket_at m ?si 0 = Some 1"
    using assms(1) by (simp add: libdl_data_def bucket_at_def load32_def apkenv_libdl_info_def apkenv_libdl_buckets_def le_word_to_le)
  have c: "chain_at m ?si (of_nat i) = Some (apkenv_libdl_chains ! i)" if "i \<in> {1, 2, 3, 4, 5, 6}" for i
    using that load_bytes_part [of m "libdl_chains sa" 28 _ "4 * i" 4] assms(1)
    by (auto simp: libdl_data_def chain_at_def load32_def apkenv_libdl_info_def apkenv_libdl_chains_def le_word_to_le)
  have "sysv_path m ?si 1 libdl_indices"
    using c [of 1] c [of 2] c [of 3] c [of 4] c [of 5] c [of 6]
    by (simp add: libdl_indices_def apkenv_libdl_chains_def)
  with b have "sysv_bucket m ?si (set libdl_indices) 0"
    unfolding sysv_bucket_def by (intro exI [of _ 1] exI [of _ libdl_indices]) simp
  moreover have "\<forall>n \<in> set libdl_indices. sym_ok m ?si n"
    using libdl_symbol_at(1) [OF assms] libdl_indices_iff by metis
  ultimately show ?thesis by (simp add: sysv_table_def nb less_one_word)
qed

section \<open>What the built-in library exports\<close>

lemma libdl_lookup:
  assumes d: "libdl_data sa m" and t: "load_bytes m (libdl_symtab sa) 168 = Some (libdl_symtab_bytes fs)"
    and "c_string name"
  shows "case map_of (libdl_entries fs) name of
      None \<Rightarrow> apkenv__elf_lookup m (apkenv_libdl_info sa) (symbol_for name) = Some 0
    | Some f \<Rightarrow> \<exists>s. s \<noteq> 0 \<and> apkenv__elf_lookup m (apkenv_libdl_info sa) (symbol_for name) = Some s \<and> st_value m s = Some f"
proof -
  let ?si = "apkenv_libdl_info sa"
  have "\<not> is_gnu_hash ?si" by (simp add: is_gnu_hash_def has_flag_def apkenv_libdl_info_def flag_defs)
  then have tab: "elf_table m ?si (set libdl_indices)" using libdl_sysv_table [OF d t] by (simp add: elf_table_def)
  note ent = libdl_symbol_at [OF d t]
  have len: "length (libdl_entries fs) = 6" "distinct (map fst (libdl_entries fs))" by (simp_all add: libdl_entries_def)
  have exp: "exported m ?si name n \<longleftrightarrow> (\<exists>i < 6. n = of_nat (Suc i) \<and> name = fst (libdl_entries fs ! i))"
    if "n \<in> set libdl_indices" for n
    using that ent(2) unfolding libdl_indices_iff by metis
  show ?thesis
  proof (cases "map_of (libdl_entries fs) name")
    case None
    then have "name \<notin> fst ` set (libdl_entries fs)" by (simp add: map_of_eq_None_iff)
    then have "\<forall>n \<in> set libdl_indices. \<not> exported m ?si name n" using exp len(1) by (metis image_eqI nth_mem)
    with None elf.lookup_zero_iff [OF tab assms(3)] show ?thesis by simp
  next
    case (Some f)
    then obtain i where i: "i < 6" "libdl_entries fs ! i = (name, f)"
      using map_of_SomeD [OF Some] len(1) by (metis in_set_conv_nth)
    let ?n = "of_nat (Suc i) :: u32"
    have n: "?n \<in> set libdl_indices" "exported m ?si name ?n" using i ent(2) libdl_indices_iff by (blast, simp)
    have un: "k = ?n" if k: "k \<in> set libdl_indices" "exported m ?si name k" for k
    proof -
      obtain j where j: "j < 6" "k = of_nat (Suc j)" "name = fst (libdl_entries fs ! j)"
        using exp [OF k(1)] k(2) by blast
      then have "i = j" using i len by (metis fst_conv length_map nth_eq_iff_index_eq nth_map)
      with j show ?thesis by simp
    qed
    have "apkenv__elf_lookup m ?si (symbol_for name) = Some (sym_at ?si (ucast ?n))"
      using elf.lookup_unique [OF tab assms(3) n un] .
    moreover have "st_value m (sym_at ?si (ucast ?n)) = Some f" "sym_at ?si (ucast ?n) \<noteq> 0"
      using ent(3) [OF i(1)] ent(1) [OF i(1)] i(2) by (simp_all add: sym_ok_def)
    ultimately show ?thesis using Some by auto
  qed
qed

lemma parse_library_path_frame:
  "dl_parse_library_path path delim buf st = Some (buf', st') \<Longrightarrow>
     mem st' = mem st \<and> so st' = so st \<and> lib_override_map st' = lib_override_map st"
  by (auto simp: dl_parse_library_path_def bind_eq_Some_conv)

lemma construct_frame:
  assumes "construct host files dirs fs symtab buf ov st = Some (Inr (buf', ov', st'))"
    and "store_bytes (mem st) symtab (libdl_symtab_bytes fs) = Some m"
  shows "mem st' = m \<and> so st' = so st \<and> lib_override_map st' = overrides ov'"
proof -
  let ?xdg = "case os_env host ''XDG_DATA_DIRS'' of None \<Rightarrow> ''/usr/local/share:/usr/share'' | Some s \<Rightarrow> s"
  obtain res1 where x: "xdg_loop files dirs ?xdg ov = Some res1"
    using assms by (auto simp: construct_def Let_def bind_eq_Some_conv)
  obtain ov1 where ov1: "res1 = Inr ov1" using assms x by (cases res1) (simp_all add: construct_def Let_def)
  obtain res2 where y: "read_cfg_dir files dirs ''/etc/bionic_translation/cfg.d'' ov1 = Some res2"
    using assms x ov1 by (auto simp: construct_def Let_def bind_eq_Some_conv)
  obtain ov2 where ov2: "res2 = Inr ov2" using assms x y ov1 by (cases res2) (simp_all add: construct_def Let_def)
  have "(case os_env host ''BIONIC_LD_LIBRARY_PATH'' of
        None \<Rightarrow> Some (buf, st\<lparr>mem := m, lib_override_map := overrides ov'\<rparr>)
      | Some path \<Rightarrow> dl_parse_library_path path '':'' buf (st\<lparr>mem := m, lib_override_map := overrides ov'\<rparr>)) = Some (buf', st')"
    using assms x y ov1 ov2 by (auto simp: construct_def Let_def bind_eq_Some_conv)
  then show ?thesis
    by (cases "os_env host ''BIONIC_LD_LIBRARY_PATH''") (auto dest: parse_library_path_frame)
qed

text \<open>
  C25. The built-in library: once \<open>construct\<close> has run, looking up one of the six functions of \<open>libdl.so\<close> in the
  built-in object gives a symbol whose value is the address of the linker's own function, and every
  other name is absent. The override table is what the configuration files left.
\<close>

theorem libdl_exports:
  assumes "libdl_data sa (mem st)" "libdl_symtab_space sa (mem st)" "so st Libdl = apkenv_libdl_info sa"
    and "construct host files dirs fs (libdl_symtab sa) buf ov st = Some (Inr (buf', ov', st'))" and "c_string name"
  shows "lib_override_map st' = overrides ov' \<and>
    (case map_of (libdl_entries fs) name of
       None \<Rightarrow> apkenv_lookup_in_library st' Libdl name = Some 0
     | Some f \<Rightarrow> \<exists>s. s \<noteq> 0 \<and> apkenv_lookup_in_library st' Libdl name = Some s \<and> st_value (mem st') s = Some f)"
proof -
  obtain m where m: "store_bytes (mem st) (libdl_symtab sa) (libdl_symtab_bytes fs) = Some m" "libdl_data sa m"
    "load_bytes m (libdl_symtab sa) 168 = Some (libdl_symtab_bytes fs)"
    using store_symtab [OF assms(1,2)] by blast
  from construct_frame [OF assms(4) m(1)] have "mem st' = m \<and> so st' = so st \<and> lib_override_map st' = overrides ov'" .
  with libdl_lookup [OF m(2,3) assms(5)] assms(3) show ?thesis
    by (simp add: apkenv_lookup_in_library_def split: option.splits)
qed

text \<open>An image of the static data with all arrays in one page.\<close>

definition sa1 :: static_addresses where
  "sa1 = \<lparr>libdl_strtab = 0x10c8, libdl_symtab = 0x1000, libdl_buckets = 0x10a8,
     libdl_chains = 0x10ac, libdl_info_at = 0x5000, sopool_at = 0x8000\<rparr>"

definition libdl_image :: memory where
  "libdl_image = image 0x1000 (replicate 168 0 @ concat (map (to_le 4) apkenv_libdl_buckets)
     @ concat (map (to_le 4) apkenv_libdl_chains) @ map of_char (ANDROID_LIBDL_STRTAB @ [NUL]))"

definition fs1 :: dl_functions where
  "fs1 = \<lparr>f_dlopen = 0xa0, f_dlclose = 0xa1, f_dlsym = 0xa2, f_dlerror = 0xa3, f_dladdr = 0xa4, f_dl_iterate_phdr = 0xa5\<rparr>"

lemma libdl_image_data: "libdl_data sa1 libdl_image"
proof -
  have "load_bytes libdl_image 0x10c8 53 = Some (map of_char (ANDROID_LIBDL_STRTAB @ [NUL]))"
    "load_bytes libdl_image 0x10a8 4 = Some (concat (map (to_le 4) apkenv_libdl_buckets))"
    "load_bytes libdl_image 0x10ac 28 = Some (concat (map (to_le 4) apkenv_libdl_chains))"
    by code_simp+
  then show ?thesis by (simp add: libdl_data_def sa1_def)
qed

lemma in_bytes_range:
  assumes "in_bytes a n x" and "unat a + n < 2 ^ 64"
  shows "unat a \<le> unat x \<and> unat x < unat a + n"
proof -
  have "unat x = unat (a + (x - a))" by simp
  also have "\<dots> = unat a + unat (x - a)"
    using assms by (simp only: unat_word_ariths in_bytes_def) simp
  finally show ?thesis using assms(1) by (simp add: in_bytes_def)
qed

lemma libdl_image_pages: "list_all (\<lambda>i. page_of (0x1000 + of_nat i) = 0x1000) [0..<168]"
  by code_simp

lemma libdl_image_space: "libdl_symtab_space sa1 libdl_image"
  unfolding libdl_symtab_space_def
proof (intro allI impI)
  fix x assume "in_bytes (libdl_symtab sa1) 168 x"
  then have x: "in_bytes 0x1000 168 x" by (simp add: sa1_def)
  have "x = 0x1000 + of_nat (unat (x - 0x1000))" by simp
  moreover have "unat (x - 0x1000) < 168" using x by (simp add: in_bytes_def)
  ultimately have "page_of x = 0x1000" using libdl_image_pages unfolding list_all_iff by (metis atLeastLessThan_upt in_set_conv_nth atLeast0LessThan lessThan_iff)
  then have "can PROT_READ libdl_image x" "can PROT_WRITE libdl_image x"
    by (simp_all add: can_def libdl_image_def image_def PROT_READ_def PROT_WRITE_def)
  moreover have "\<not> in_bytes 0x10c8 53 x" "\<not> in_bytes 0x10a8 4 x" "\<not> in_bytes 0x10ac 28 x"
    using in_bytes_range [OF x] in_bytes_range [of "0x10c8" 53 x] in_bytes_range [of "0x10a8" 4 x]
      in_bytes_range [of "0x10ac" 28 x] by auto
  ultimately show "can PROT_READ libdl_image x \<and> can PROT_WRITE libdl_image x \<and> \<not> in_bytes (libdl_strtab sa1) 53 x
      \<and> \<not> in_bytes (libdl_buckets sa1) 4 x \<and> \<not> in_bytes (libdl_chains sa1) 28 x"
    by (simp add: sa1_def)
qed

theorem libdl_exports_witness:
  "\<exists>buf' ov' st' s. construct host0 (\<lambda>_. None) (\<lambda>_. None) fs1 0x1000 [] no_overrides (static_linker sa1 libdl_image)
      = Some (Inr (buf', ov', st'))
    \<and> apkenv_lookup_in_library st' Libdl ''dlsym'' = Some s \<and> st_value (mem st') s = Some 0xa2"
proof -
  let ?st = "static_linker sa1 libdl_image"
  have st: "mem ?st = libdl_image" "so ?st Libdl = apkenv_libdl_info sa1" "libdl_symtab sa1 = 0x1000"
    by (simp_all add: static_linker_def sa1_def)
  obtain m where m: "store_bytes libdl_image 0x1000 (libdl_symtab_bytes fs1) = Some m"
    using store_symtab [OF libdl_image_data libdl_image_space] st(3) by metis
  have x: "xdg_loop (\<lambda>_. None) (\<lambda>_. None) ''/usr/local/share:/usr/share'' no_overrides = Some (Inr no_overrides)"
    by (simp add: xdg_loop.simps read_cfg_dir_def)
  have c: "construct host0 (\<lambda>_. None) (\<lambda>_. None) fs1 (libdl_symtab sa1) [] no_overrides ?st =
      Some (Inr ([], no_overrides, ?st\<lparr>mem := m, lib_override_map := overrides no_overrides\<rparr>))"
    using m st x by (simp add: construct_def host0_def read_cfg_dir_def)
  have d: "libdl_data sa1 (mem ?st)" "libdl_symtab_space sa1 (mem ?st)"
    using st libdl_image_data libdl_image_space by simp_all
  from libdl_exports [OF d st(2) c, of "''dlsym''"] c st(3) show ?thesis
    by (auto simp: libdl_entries_def fs1_def)
qed

end
