(* ===== verification/Load_Extents.thy ===== *)
theory Load_Extents
  imports Elf_Reloc
begin

text \<open>
  The size that is reserved for a library and the file that is chosen for it: facts about
  \<open>apkenv_get_lib_extents\<close> and \<open>apkenv_open_library\<close> of \<open>linker/linker.c\<close>.
\<close>

section \<open>Page boundaries\<close>

lemma page_of_split: "page_of a + (a AND PAGE_MASK) = a"
proof -
  have "(a AND NOT PAGE_MASK) AND (a AND PAGE_MASK) = 0"
    by (rule bit_word_eqI) (simp add: bit_simps)
  then have "(a AND NOT PAGE_MASK) + (a AND PAGE_MASK) = (a AND NOT PAGE_MASK) OR (a AND PAGE_MASK)"
    by (rule disjunctive_add_eq_or)
  also have "\<dots> = a" by (rule bit_word_eqI) (auto simp: bit_simps)
  finally show ?thesis by (simp add: page_of_def)
qed

lemma page_mask_mod: "a AND PAGE_MASK = a mod 4096"
proof -
  have "PAGE_MASK = mask 12" by (simp add: PAGE_MASK_def mask_eq_exp_minus_1)
  then have "a AND PAGE_MASK = take_bit 12 a" by (simp only: take_bit_eq_mask)
  then show ?thesis by (simp add: take_bit_eq_mod)
qed

lemma unat_page_of: "unat (page_of a) = unat a - unat a mod 4096"
proof -
  have "page_of a = a - a mod 4096" using page_of_split [of a] page_mask_mod [of a] by (simp add: algebra_simps)
  moreover have "a mod 4096 \<le> a" by (simp add: word_le_nat_alt unat_mod)
  ultimately show ?thesis by (simp add: unat_sub unat_mod)
qed

lemma page_up_bounds:
  assumes "unat a + 4095 < 2 ^ 64"
  shows "unat a \<le> unat (page_up a)" "unat (page_up a) mod 4096 = 0" "unat (page_up a) < unat a + 4096"
proof -
  have "a + PAGE_SIZE - 1 = a + 4095" by (simp add: PAGE_SIZE_def)
  then have "page_up a = page_of (a + 4095)" by (simp only: page_up_def page_of_def)
  moreover have "unat (a + 4095) = unat a + 4095" using assms by (simp add: unat_word_ariths)
  ultimately have p: "unat (page_up a) = unat a + 4095 - (unat a + 4095) mod 4096" by (simp add: unat_page_of)
  have "(unat a + 4095) mod 4096 < 4096" by simp
  with p show "unat a \<le> unat (page_up a)" "unat (page_up a) < unat a + 4096" by linarith+
  show "unat (page_up a) mod 4096 = 0" unfolding p by (simp add: minus_mod_eq_mult_div)
qed

section \<open>The extents of a library\<close>

definition loads :: "phdr list \<Rightarrow> phdr list" where
  "loads ps = filter (\<lambda>p. p_type p = PT_LOAD) ps"

definition seg_end :: "phdr \<Rightarrow> u64" where
  "seg_end p = p_vaddr p + p_memsz p"

lemma extent_fold:
  "fst (foldl extent_step mm ps) \<le> fst mm \<and> snd mm \<le> snd (foldl extent_step mm ps)
   \<and> (\<forall>p \<in> set (loads ps). fst (foldl extent_step mm ps) \<le> p_vaddr p \<and> seg_end p \<le> snd (foldl extent_step mm ps))
   \<and> (fst (foldl extent_step mm ps) = fst mm \<or> fst (foldl extent_step mm ps) \<in> p_vaddr ` set (loads ps))
   \<and> (snd (foldl extent_step mm ps) = snd mm \<or> snd (foldl extent_step mm ps) \<in> seg_end ` set (loads ps))"
proof (induction ps arbitrary: mm)
  case (Cons p ps)
  let ?mm = "extent_step mm p" let ?f = "foldl extent_step ?mm ps"
  note IH = Cons.IH [of ?mm]
  show ?case
  proof (cases "p_type p = PT_LOAD")
    case True
    have s: "fst ?mm \<le> fst mm" "snd mm \<le> snd ?mm" "fst ?mm \<le> p_vaddr p" "seg_end p \<le> snd ?mm"
      "fst ?mm = fst mm \<or> fst ?mm = p_vaddr p" "snd ?mm = snd mm \<or> snd ?mm = seg_end p"
      using True by (auto simp: extent_step_def seg_end_def)
    have l: "loads (p # ps) = p # loads ps" using True by (simp add: loads_def)
    show ?thesis
      unfolding foldl_Cons l
    proof (intro conjI ballI)
      show "fst ?f \<le> fst mm" "snd mm \<le> snd ?f" using IH s by (meson order_trans)+
      show "fst ?f = fst mm \<or> fst ?f \<in> p_vaddr ` set (p # loads ps)"
        "snd ?f = snd mm \<or> snd ?f \<in> seg_end ` set (p # loads ps)" using IH s by auto
      fix q assume "q \<in> set (p # loads ps)"
      then show "fst ?f \<le> p_vaddr q" "seg_end q \<le> snd ?f" using IH s by (auto intro: order_trans)
    qed
  next
    case False
    then have "?mm = mm" "loads (p # ps) = loads ps" by (simp_all add: extent_step_def loads_def)
    then show ?thesis using IH by simp
  qed
qed (simp add: loads_def)

text \<open>
  C26. The extents of a library: the size that \<open>apkenv_get_lib_extents\<close> returns is a multiple of the page
  size, and the range of that size from the page of the lowest segment on covers every PT_LOAD
  segment and ends in the page where the highest one ends.
\<close>

theorem lib_extents_cover:
  assumes "apkenv_get_lib_extents name bs st = Some ((req_base, sz), st')" and "req_base \<noteq> -1"
    and "elf_phdrs bs = Some ps"
    and segs: "\<And>p. p \<in> set (loads ps) \<Longrightarrow> unat (p_vaddr p) + unat (p_memsz p) + 4095 < 2 ^ 64 \<and> p_vaddr p < 0xffffffff"
  shows "\<exists>low \<in> set (loads ps). \<exists>high \<in> set (loads ps).
      unat sz mod 4096 = 0
    \<and> (\<forall>p \<in> set (loads ps). unat (page_of (p_vaddr low)) \<le> unat (p_vaddr p)
         \<and> unat (p_vaddr p) + unat (p_memsz p) \<le> unat (page_of (p_vaddr low)) + unat sz)
    \<and> unat (page_of (p_vaddr low)) + unat sz < unat (p_vaddr high) + unat (p_memsz high) + 4096"
proof -
  define mn mx where "mn = fst (foldl extent_step (0xffffffff, 0) ps)" and "mx = snd (foldl extent_step (0xffffffff, 0) ps)"
  have ne: "\<not> (mn = 0xffffffff \<and> mx = 0)" and sz: "sz = page_up mx - page_of mn"
    using assms(1-3) unfolding apkenv_get_lib_extents_def mn_def mx_def
    by (auto simp: Let_def bind_eq_Some_conv case_prod_beta split: if_split_asm)
  note f = extent_fold [of "(0xffffffff, 0)" ps, folded mn_def mx_def, unfolded fst_conv snd_conv]
  have u: "unat (seg_end p) = unat (p_vaddr p) + unat (p_memsz p)" if "p \<in> set (loads ps)" for p
    using segs [OF that] by (simp add: seg_end_def unat_word_ariths)
  have some: "loads ps \<noteq> []" using f ne by auto
  then obtain q where q: "q \<in> set (loads ps)" by (meson last_in_set)
  have "mn < 0xffffffff" using f q segs [OF q] by (metis order_le_less_trans)
  then obtain low where low: "low \<in> set (loads ps)" "mn = p_vaddr low" using f by auto
  obtain high where high: "high \<in> set (loads ps)" "mx = seg_end high"
  proof (cases "mx = 0")
    case True
    then have "seg_end q = mx" using f q by (metis word_le_0_iff)
    with that q show ?thesis by blast
  qed (use f that in auto)
  have mx: "unat mx + 4095 < 2 ^ 64" using u [OF high(1)] high segs [OF high(1)] by simp
  note up = page_up_bounds [OF mx]
  have le: "unat (page_of mn) \<le> unat (page_up mx)"
  proof -
    have "unat mn \<le> unat (p_vaddr q)" using f q by (simp add: word_le_nat_alt)
    then have "unat (page_of mn) \<le> unat (p_vaddr q)" by (simp add: unat_page_of)
    moreover have "unat (seg_end q) \<le> unat mx" using f q by (simp add: word_le_nat_alt)
    ultimately show ?thesis using up(1) u [OF q] by linarith
  qed
  then have "page_of mn \<le> page_up mx" by (simp add: word_le_nat_alt)
  then have s: "unat sz = unat (page_up mx) - unat (page_of mn)" by (simp add: sz unat_sub)
  then have s2: "unat (page_of mn) + unat sz = unat (page_up mx)" using le by simp
  have "unat (page_of mn) mod 4096 = 0" by (simp add: unat_page_of minus_mod_eq_mult_div)
  with up(2) s have m: "unat sz mod 4096 = 0" by (metis dvd_diff_nat dvd_imp_mod_0 mod_0_imp_dvd)
  show ?thesis
  proof (rule bexI [OF _ low(1)], rule bexI [OF _ high(1)], intro conjI ballI)
    show "unat sz mod 4096 = 0" by (rule m)
    show "unat (page_of (p_vaddr low)) + unat sz < unat (p_vaddr high) + unat (p_memsz high) + 4096"
      using up(3) s2 low(2) high(2) u [OF high(1)] by simp
    fix p assume p: "p \<in> set (loads ps)"
    then have "mn \<le> p_vaddr p" "seg_end p \<le> mx" using f by auto
    then have "unat mn \<le> unat (p_vaddr p)" "unat (seg_end p) \<le> unat mx" by (simp_all add: word_le_nat_alt)
    moreover have "unat (page_of mn) \<le> unat mn" by (simp add: unat_page_of)
    ultimately show "unat (page_of (p_vaddr low)) \<le> unat (p_vaddr p)"
      "unat (p_vaddr p) + unat (p_memsz p) \<le> unat (page_of (p_vaddr low)) + unat sz"
      using u [OF p] s2 up(1) unfolding low(2) [symmetric] by linarith+
  qed
qed

text \<open>A file with one segment of 256 bytes at address 0x1234.\<close>

definition demo_elf :: "u8 list" where
  "demo_elf = [0x7f, 0x45, 0x4c, 0x46] @ replicate 28 0 @ [64,0,0,0,0,0,0,0] @ replicate 16 0 @ [1,0] @ replicate 6 0
     @ [1,0,0,0, 5,0,0,0, 0,0,0,0,0,0,0,0, 0x34,0x12,0,0,0,0,0,0, 0x34,0x12,0,0,0,0,0,0, 0,1,0,0,0,0,0,0,
        0,1,0,0,0,0,0,0, 0,0x10,0,0,0,0,0,0]"

definition demo_phdr :: phdr where
  "demo_phdr = \<lparr>p_type = 1, p_flags = 5, p_offset = 0, p_vaddr = 0x1234, p_filesz = 0x100, p_memsz = 0x100\<rparr>"

theorem lib_extents_cover_witness:
  "\<exists>sz. apkenv_get_lib_extents ''a'' demo_elf (static_linker sa0 m0) = Some ((0, sz), static_linker sa0 m0)
     \<and> unat sz mod 4096 = 0 \<and> 0x1334 \<le> 0x1000 + unat sz"
proof -
  have v: "apkenv_verify_elf_object demo_elf = Some 0" by code_simp
  have p: "elf_phdrs demo_elf = Some [demo_phdr]" by code_simp
  have "length demo_elf = 120" "take 4 (drop 8 (drop (length demo_elf - 16) demo_elf)) = [0, 0x10, 0, 0]" by code_simp+
  moreover have "map of_char ''PRE '' \<noteq> [0, 0x10, 0, 0 :: u8]" by code_simp
  ultimately have "apkenv_is_prelinked demo_elf (static_linker sa0 m0) = (0, static_linker sa0 m0)"
    by (simp add: apkenv_is_prelinked_def)
  moreover have "foldl extent_step (0xffffffff, 0) [demo_phdr] = (0x1234, 0x1334)" by code_simp
  ultimately have g: "apkenv_get_lib_extents ''a'' demo_elf (static_linker sa0 m0)
      = Some ((0, page_up 0x1334 - page_of 0x1234), static_linker sa0 m0)"
    using v p by (simp add: apkenv_get_lib_extents_def)
  have l: "loads [demo_phdr] = [demo_phdr]" by (simp add: loads_def demo_phdr_def PT_LOAD_def)
  have o: "page_of 0x1234 = 0x1000" by code_simp
  have b: "unat (p_vaddr p) + unat (p_memsz p) + 4095 < 2 ^ 64 \<and> p_vaddr p < 0xffffffff" if "p \<in> set (loads [demo_phdr])" for p
    using that unfolding l by (simp add: demo_phdr_def)
  let ?sz = "page_up 0x1334 - page_of 0x1234"
  have "unat ?sz mod 4096 = 0" "unat (p_vaddr demo_phdr) + unat (p_memsz demo_phdr) \<le> unat (page_of (p_vaddr demo_phdr)) + unat ?sz"
    using lib_extents_cover [OF g _ p b] by (auto simp: l)
  then show ?thesis using g o by (auto simp: demo_phdr_def)
qed

section \<open>The file that is opened\<close>

text \<open>The paths that are tried, in order.\<close>

definition ld_candidates :: "os \<Rightarrow> string \<Rightarrow> string \<Rightarrow> string list" where
  "ld_candidates host name path =
     (if (case os_realdir host name of None \<Rightarrow> False
          | Some d \<Rightarrow> os_fnmatch host (case os_realpath host path of None \<Rightarrow> path | Some p \<Rightarrow> p) d) then [name] else [])
     @ (if length (joined path name) < OPEN_BUFSIZE then [joined path name] else [])"

definition so_candidates :: "string \<Rightarrow> string \<Rightarrow> string list" where
  "so_candidates name path = (if length (joined path name) < OPEN_BUFSIZE then [joined path name] else [])"

lemma try_ldpath_find: "try_ldpath host (os_realdir host name) name path = find (os_opens host) (ld_candidates host name path)"
  by (auto simp: try_ldpath_def ld_candidates_def apkenv__open_lib_def Let_def split: option.splits)

lemma try_sopath_find: "try_sopath host name path = find (os_opens host) (so_candidates name path)"
  by (simp add: try_sopath_def so_candidates_def apkenv__open_lib_def)

lemma find_append_case: "find P (xs @ ys) = (case find P xs of None \<Rightarrow> find P ys | Some x \<Rightarrow> Some x)"
  by (induction xs) simp_all

lemma first_some_find:
  assumes "\<And>x. f x = find P (c x)"
  shows "first_some f xs = find P (concat (map c xs))"
  by (induction xs) (auto simp: assms find_append_case split: option.splits)

text \<open>
  Which file is opened for a name of at most 256 characters: the first one that opens among the
  candidates, which are, for each directory of the search path in order, the name itself when it lies in a
  directory that matches, then the name inside the directory, and after these the name inside each system
  directory. Paths that do not fit into the buffer are skipped. Longer names are refused.
\<close>

lemma open_library_first:
  "apkenv_open_library host st name =
     (if length name > 256 then None
      else find (os_opens host)
        (concat (map (ld_candidates host name) (ldpaths st)) @ concat (map (so_candidates name) (sopaths st))))"
proof -
  have "first_some (try_ldpath host (os_realdir host name) name) (ldpaths st)
      = find (os_opens host) (concat (map (ld_candidates host name) (ldpaths st)))"
    by (rule first_some_find) (rule try_ldpath_find)
  moreover have "first_some (try_sopath host name) (sopaths st)
      = find (os_opens host) (concat (map (so_candidates name) (sopaths st)))"
    by (rule first_some_find) (rule try_sopath_find)
  ultimately show ?thesis by (auto simp: apkenv_open_library_def find_append_case split: option.splits)
qed

end
