(* ===== verification/Elf_Rel32.thy ===== *)
theory Elf_Rel32
  imports Elf_Reloc
begin

text \<open>
  Relocation on 32-bit machines (\<open>linker/linker.c\<close>, the second \<open>apkenv_reloc_library\<close>): tables of the REL form, whose
  addend is the word at the place, on ARM and i386. Pointers are 32 bits wide and index the low part of the memory. The
  search of the libraries, which \<open>Elf_Lookup\<close> has for the 64-bit layout of a symbol, is an argument: it gives the
  address of the entry, 0 when there is none, and the load address of its library.
\<close>

datatype arch32 = ARM | I386

section \<open>Words of four bytes\<close>

definition store32 :: "memory \<Rightarrow> u64 \<Rightarrow> u32 \<Rightarrow> memory option" where
  "store32 m a v = store_bytes m a (to_le 4 v)"

definition dword_ok :: "u32 \<Rightarrow> memory \<Rightarrow> u64 \<Rightarrow> bool" where
  "dword_ok right m a \<longleftrightarrow> (\<forall>i < 4. can right m (a + of_nat i))"

lemma dword_ok_list: "dword_ok right m a \<longleftrightarrow> list_all (\<lambda>i. can right m (a + i)) [0, 1, 2, 3]"
proof -
  have "dword_ok right m a \<longleftrightarrow> list_all (\<lambda>i. can right m (a + of_nat i)) [0..<4]"
    by (auto simp: dword_ok_def list_all_iff)
  also have "[0..<4] = [0, 1, 2, 3 :: nat]" by (simp add: upt_rec)
  finally show ?thesis by simp
qed

lemma dword_ok_in_bytes: "dword_ok right m a \<Longrightarrow> in_bytes a 4 x \<Longrightarrow> can right m x"
  using in_bytes_iff_offset [of 4 a x] by (auto simp: dword_ok_def)

definition put32 :: "u64 \<Rightarrow> u32 \<Rightarrow> memory \<Rightarrow> memory" where
  "put32 a v m = m\<lparr>byte_at := (\<lambda>x. if in_bytes a 4 x then to_le 4 v ! unat (x - a) else byte_at m x)\<rparr>"

lemma store32_eq: "dword_ok PROT_WRITE m a \<Longrightarrow> store32 m a v = Some (put32 a v m)"
  using store_bytes_eq [of "to_le 4 v" a m] dword_ok_in_bytes [of PROT_WRITE m a]
  by (simp add: store32_def put32_def)

lemma load32_eq:
  "dword_ok PROT_READ m a \<Longrightarrow> load32 m a = Some (le_word (map (\<lambda>i. byte_at m (a + of_nat i)) [0..<4]))"
  using load_bytes_eq [of 4 a m] dword_ok_in_bytes [of PROT_READ m a] by (simp add: load32_def)

lemma can_put32 [simp]: "can r (put32 a v m) x = can r m x"
  by (simp add: put32_def)

lemma dword_ok_put32 [simp]: "dword_ok r (put32 a v m) x = dword_ok r m x"
  by (simp add: dword_ok_def)

lemma load32_put32_same:
  assumes "dword_ok PROT_READ m a" shows "load32 (put32 a v m) a = Some v"
proof -
  have "map (\<lambda>i. byte_at (put32 a v m) (a + of_nat i)) [0..<4] = to_le 4 v"
    by (rule nth_equalityI)
      (simp_all add: put32_def in_bytes_def unat_of_nat take_bit_nat_eq_self del: upt.simps)
  moreover have "le_word (to_le 4 v) = v" by (rule le_word_to_le) simp
  ultimately show ?thesis
    using load32_eq [of "put32 a v m" a] assms by (simp only: dword_ok_put32)
qed

lemma load32_put32_other:
  assumes "\<And>x. in_bytes b 4 x \<Longrightarrow> \<not> in_bytes a 4 x" shows "load32 (put32 a v m) b = load32 m b"
  using load_bytes_cong [of 4 "put32 a v m" m b] assms by (auto simp: load32_def put32_def)

section \<open>Relocation types and entries\<close>

definition R_ARM_NONE :: u32 where "R_ARM_NONE = 0"
definition R_ARM_ABS32 :: u32 where "R_ARM_ABS32 = 2"
definition R_ARM_REL32 :: u32 where "R_ARM_REL32 = 3"
definition R_ARM_COPY :: u32 where "R_ARM_COPY = 20"
definition R_ARM_GLOB_DAT :: u32 where "R_ARM_GLOB_DAT = 21"
definition R_ARM_JUMP_SLOT :: u32 where "R_ARM_JUMP_SLOT = 22"
definition R_ARM_RELATIVE :: u32 where "R_ARM_RELATIVE = 23"

definition R_386_32 :: u32 where "R_386_32 = 1"
definition R_386_PC32 :: u32 where "R_386_PC32 = 2"
definition R_386_GLOB_DAT :: u32 where "R_386_GLOB_DAT = 6"
definition R_386_JMP_SLOT :: u32 where "R_386_JMP_SLOT = 7"
definition R_386_RELATIVE :: u32 where "R_386_RELATIVE = 8"

lemmas arm_types = R_ARM_NONE_def R_ARM_ABS32_def R_ARM_REL32_def R_ARM_COPY_def R_ARM_GLOB_DAT_def
  R_ARM_JUMP_SLOT_def R_ARM_RELATIVE_def
lemmas i386_types = R_386_32_def R_386_PC32_def R_386_GLOB_DAT_def R_386_JMP_SLOT_def R_386_RELATIVE_def

definition ELF32_R_SYM :: "u32 \<Rightarrow> u32" where "ELF32_R_SYM info = drop_bit 8 info"
definition ELF32_R_TYPE :: "u32 \<Rightarrow> u32" where "ELF32_R_TYPE info = info AND 0xff"

record rel32 =
  rel_offset :: u32
  rel_info :: u32

definition read_rel :: "memory \<Rightarrow> u32 \<Rightarrow> rel32 option" where
  "read_rel m a = do {
     off \<leftarrow> load32 m (ucast a); info \<leftarrow> load32 m (ucast (a + 4));
     Some \<lparr>rel_offset = off, rel_info = info\<rparr>
   }"

text \<open>The fields of the library that the relocation reads, and those of a symbol of 16 bytes.\<close>

record so32 =
  so32_name :: string
  so32_base :: u32
  so32_symtab :: u32
  so32_strtab :: u32

definition st32_name :: "memory \<Rightarrow> u32 \<Rightarrow> u32 option" where "st32_name m p = load32 m (ucast p)"
definition st32_value :: "memory \<Rightarrow> u32 \<Rightarrow> u32 option" where "st32_value m p = load32 m (ucast (p + 4))"
definition st32_size :: "memory \<Rightarrow> u32 \<Rightarrow> u32 option" where "st32_size m p = load32 m (ucast (p + 8))"
definition st32_info :: "memory \<Rightarrow> u32 \<Rightarrow> u8 option" where "st32_info m p = load8 m (ucast (p + 12))"

section \<open>Resolving the symbol\<close>

definition weak_value32 :: "arch32 \<Rightarrow> u32 \<Rightarrow> u32 \<Rightarrow> u32 option" where
  "weak_value32 ar type reloc = (case ar of
     ARM \<Rightarrow>
       if type \<in> {R_ARM_JUMP_SLOT, R_ARM_GLOB_DAT, R_ARM_ABS32, R_ARM_RELATIVE, R_ARM_NONE} then Some 0 else None
   | I386 \<Rightarrow>
       if type \<in> {R_386_JMP_SLOT, R_386_GLOB_DAT, R_386_32, R_386_RELATIVE} then Some 0
       else if type = R_386_PC32 then Some reloc
       else None)"

definition host_fallback32 :: "os \<Rightarrow> memory \<Rightarrow> u32 \<Rightarrow> string \<Rightarrow> u32 option" where
  "host_fallback32 host m sym_p sym_name =
     (let a = ucast (os_dlsym host sym_name)
      in if a \<noteq> 0 then Some a
         else if os_env host ''LINKER_DIE_AT_RUNTIME'' \<noteq> None
         then do {
           info \<leftarrow> st32_info m sym_p;
           Some (if ELF_ST_TYPE info = STT_FUNC then ucast (os_stub host sym_name) else 0)
         }
         else Some 0)"

definition wrapper_create32 :: "string \<Rightarrow> u32 \<Rightarrow> u32" where
  "wrapper_create32 symbol function = ucast (wrapper_create symbol (ucast function))"

text \<open>
  The variable \<open>s\<close> lives outside the loop: it is \<open>None\<close> before it is first assigned, and a symbol that the host wraps
  leaves it as it was. \<open>Inl\<close> is the return of -1 with the error, \<open>Inr\<close> carries \<open>sym_addr\<close>.
\<close>

definition resolve_symbol32 ::
  "os \<Rightarrow> (string \<Rightarrow> u32 \<times> u32) \<Rightarrow> arch32 \<Rightarrow> so32 \<Rightarrow> u32 \<Rightarrow> u32 \<Rightarrow> u32 \<Rightarrow> u32 option \<Rightarrow> memory
     \<Rightarrow> ((dl_error + u32) \<times> u32 option) option" where
  "resolve_symbol32 host do_lookup ar si sy type reloc s m = do {
     let sym_p = so32_symtab si + 16 * sy;
     let hooked = (\<lambda>name a. if os_isfunc host (ucast a) then wrapper_create32 name a else a);
     off \<leftarrow> st32_name m sym_p;
     sym_name \<leftarrow> mem_str m (ucast (so32_strtab si + off));
     wrap \<leftarrow> wrap_sym_name sym_name;
     let a = ucast (os_dlsym host wrap);
     if a \<noteq> 0 then Some (Inr (hooked sym_name a), s)
     else
       let (p, base) = do_lookup sym_name in
       if p \<noteq> 0 then do {
         v \<leftarrow> st32_value m p;
         info \<leftarrow> st32_info m p;
         Some (Inr (if ELF_ST_TYPE info = STT_FUNC then wrapper_create32 sym_name (v + base) else v + base), Some p)
       }
       else do {
         a \<leftarrow> host_fallback32 host m sym_p sym_name;
         if a \<noteq> 0 then Some (Inr (hooked sym_name a), Some 0)
         else do {
           info \<leftarrow> st32_info m sym_p;
           if ELF_ST_BIND info \<noteq> STB_WEAK then Some (Inl (CannotLocateSymbol sym_name (so32_name si)), Some sym_p)
           else case weak_value32 ar type reloc of
                  None \<Rightarrow> Some (Inl (UnknownWeakReloc type), Some sym_p)
                | Some v \<Rightarrow> Some (Inr v, Some sym_p)
         }
       }
   }"

section \<open>Applying a relocation\<close>

text \<open>The error of a failed round, if any, and the memory.\<close>

definition store_rel :: "u32 \<Rightarrow> u32 \<Rightarrow> memory \<Rightarrow> (dl_error option \<times> memory) option" where
  "store_rel a v m = do { m \<leftarrow> store32 m (ucast a) v; Some (None, m) }"

definition add_rel :: "u32 \<Rightarrow> u32 \<Rightarrow> memory \<Rightarrow> (dl_error option \<times> memory) option" where
  "add_rel a v m = do { old \<leftarrow> load32 m (ucast a); store_rel a (old + v) m }"

definition relative_rel :: "so32 \<Rightarrow> u32 \<Rightarrow> u32 \<Rightarrow> memory \<Rightarrow> (dl_error option \<times> memory) option" where
  "relative_rel si sy reloc m = (if sy \<noteq> 0 then Some (Some OddRelative, m) else add_rel reloc (so32_base si) m)"

text \<open>\<^verbatim>\<open>memcpy\<close> of \<open>s->st_size\<close> bytes; a missing or null \<open>s\<close> is a fault.\<close>

definition copy_rel :: "u32 \<Rightarrow> u32 \<Rightarrow> u32 option \<Rightarrow> memory \<Rightarrow> (dl_error option \<times> memory) option" where
  "copy_rel reloc sym_addr s m = do {
     p \<leftarrow> s;
     c_assert (p \<noteq> 0);
     n \<leftarrow> st32_size m p;
     bs \<leftarrow> load_bytes m (ucast sym_addr) (unat n);
     m \<leftarrow> store_bytes m (ucast reloc) bs;
     Some (None, m)
   }"

definition apply_arm ::
  "so32 \<Rightarrow> u32 \<Rightarrow> u32 \<Rightarrow> u32 \<Rightarrow> u32 \<Rightarrow> rel32 \<Rightarrow> u32 option \<Rightarrow> memory \<Rightarrow> (dl_error option \<times> memory) option" where
  "apply_arm si type sy reloc sym_addr rel s m =
     (if type = R_ARM_JUMP_SLOT then store_rel reloc sym_addr m
      else if type = R_ARM_GLOB_DAT then store_rel reloc sym_addr m
      else if type = R_ARM_ABS32 then add_rel reloc sym_addr m
      else if type = R_ARM_REL32 then add_rel reloc (sym_addr - rel_offset rel) m
      else if type = R_ARM_RELATIVE then relative_rel si sy reloc m
      else if type = R_ARM_COPY then copy_rel reloc sym_addr s m
      else if type = R_ARM_NONE then Some (None, m)
      else Some (Some (UnknownReloc type), m))"

definition apply_386 ::
  "so32 \<Rightarrow> u32 \<Rightarrow> u32 \<Rightarrow> u32 \<Rightarrow> u32 \<Rightarrow> rel32 \<Rightarrow> u32 option \<Rightarrow> memory \<Rightarrow> (dl_error option \<times> memory) option" where
  "apply_386 si type sy reloc sym_addr rel s m =
     (if type = R_386_JMP_SLOT then store_rel reloc sym_addr m
      else if type = R_386_GLOB_DAT then store_rel reloc sym_addr m
      else if type = R_386_RELATIVE then relative_rel si sy reloc m
      else if type = R_386_32 then add_rel reloc sym_addr m
      else if type = R_386_PC32 then add_rel reloc (sym_addr - reloc) m
      else Some (Some (UnknownReloc type), m))"

text \<open>One round of the loop: the error, the variable \<open>s\<close> and the memory.\<close>

definition rel_entry ::
  "os \<Rightarrow> (memory \<Rightarrow> string \<Rightarrow> u32 \<times> u32) \<Rightarrow> arch32 \<Rightarrow> so32 \<Rightarrow> rel32 \<Rightarrow> u32 option \<Rightarrow> memory
     \<Rightarrow> (dl_error option \<times> u32 option \<times> memory) option" where
  "rel_entry host do_lookup ar si rel s m = do {
     let type = ELF32_R_TYPE (rel_info rel);
     let sy = ELF32_R_SYM (rel_info rel);
     let reloc = rel_offset rel + so32_base si;
     (res, s) \<leftarrow> (if sy \<noteq> 0 then resolve_symbol32 host (do_lookup m) ar si sy type reloc s m else Some (Inr 0, Some 0));
     case res of
       Inl e \<Rightarrow> Some (Some e, s, m)
     | Inr sym_addr \<Rightarrow> do {
         (e, m) \<leftarrow> (case ar of ARM \<Rightarrow> apply_arm | I386 \<Rightarrow> apply_386) si type sy reloc sym_addr rel s m;
         Some (e, s, m)
       }
   }"

fun reloc_library_rel ::
  "os \<Rightarrow> (memory \<Rightarrow> string \<Rightarrow> u32 \<times> u32) \<Rightarrow> arch32 \<Rightarrow> so32 \<Rightarrow> u32 \<Rightarrow> nat \<Rightarrow> u32 option \<Rightarrow> memory
     \<Rightarrow> (int \<times> dl_error option \<times> memory) option" where
  "reloc_library_rel host do_lookup ar si p 0 s m = Some (0, None, m)"
| "reloc_library_rel host do_lookup ar si p (Suc count) s m = do {
     rel \<leftarrow> read_rel m p;
     (e, s, m) \<leftarrow> rel_entry host do_lookup ar si rel s m;
     case e of Some e \<Rightarrow> Some (-1, Some e, m) | None \<Rightarrow> reloc_library_rel host do_lookup ar si (p + 8) count s m
   }"

section \<open>What is stored\<close>

lemma ucast_wide [simp]: "(ucast (ucast a :: u64) :: u32) = a"
  by (rule bit_word_eqI) (auto simp: bit_simps)

lemma wrapper_create32_id [simp]: "wrapper_create32 name a = a"
  by (simp add: wrapper_create32_def)

lemma store_rel_eq: "dword_ok PROT_WRITE m (ucast a) \<Longrightarrow> store_rel a v m = Some (None, put32 (ucast a) v m)"
  by (simp add: store_rel_def store32_eq)

lemma add_rel_eq:
  assumes "dword_ok PROT_WRITE m (ucast a)" "load32 m (ucast a) = Some old"
  shows "add_rel a v m = Some (None, put32 (ucast a) (old + v) m)"
  using assms by (simp add: add_rel_def store_rel_eq)

text \<open>
  A COPY relocation of a symbol that the host wraps takes the number of bytes from the symbol of an earlier entry; when
  there was none, the variable that holds it has no value yet.
\<close>

lemma arm_copy_of_wrapped:
  assumes "ELF32_R_TYPE (rel_info rel) = R_ARM_COPY" "ELF32_R_SYM (rel_info rel) \<noteq> 0"
    and "st32_name m (so32_symtab si + 16 * ELF32_R_SYM (rel_info rel)) = Some off"
    and "mem_str m (ucast (so32_strtab si + off)) = Some name" "length name < 1017"
    and "(ucast (os_dlsym host (''bionic_'' @ name)) :: u32) = S" "S \<noteq> 0"
  shows "rel_entry host do_lookup ARM si rel s m =
     map_option (\<lambda>(e, m'). (e, s, m')) (copy_rel (rel_offset rel + so32_base si) S s m)"
    and "copy_rel (rel_offset rel + so32_base si) S None m = None"
  using assms by (simp_all add: rel_entry_def resolve_symbol32_def wrap_sym_name_def WRAP_NAME_SIZE_def apply_arm_def arm_types Let_def
      copy_rel_def map_conv_bind_option split_def o_def)


text \<open>A page of a library at 0x1000 with the word 5 at offset 0x10 and a RELATIVE entry for it.\<close>

definition rel_demo :: memory where
  "rel_demo = image 0x1000 (replicate 16 0 @ [5, 0, 0, 0])"


end
