(* ===== verification/Stub_Func.thy ===== *)
theory Stub_Func
  imports C_Memory
begin

text \<open>
  Functions that are copied at run time (\<open>linker/linker.c\<close>): with \<^verbatim>\<open>LINKER_DIE_AT_RUNTIME\<close> set, a function that cannot be
  linked is bound to a copy of \<open>symbol_not_linked_stub\<close> in new executable memory. The variable next to the
  code in the copied section points to data of that copy alone, with the name of the symbol.
\<close>

section \<open>The code\<close>

text \<open>
  The addresses that the build fixes: the section, the function and its variable, and the two functions that
  the stub calls; and the results of \<^verbatim>\<open>mmap\<close> (\<open>-1\<close> on failure) and \<^verbatim>\<open>malloc\<close>.
\<close>

record stub_env =
  section_start :: u64
  section_stop :: u64
  stub_func :: u64
  stub_adj_data :: u64
  printf_addr :: u64
  exit_addr :: u64
  mmap_result :: u64
  malloc_result :: u64

definition alloc_executable_memory :: "stub_env \<Rightarrow> u64 \<Rightarrow> memory \<Rightarrow> u64 \<times> memory" where
  "alloc_executable_memory E sz m =
     (let ptr = mmap_result E in
      if ptr = -1 then (0, m) else (ptr, mmap_at m ptr sz (PROT_READ OR PROT_WRITE OR PROT_EXEC) (\<lambda>_. 0)))"

definition make_copy_of_function ::
  "stub_env \<Rightarrow> u64 \<Rightarrow> u64 \<Rightarrow> u64 \<Rightarrow> u64 \<Rightarrow> u64 \<Rightarrow> memory \<Rightarrow> (u64 \<times> memory) option" where
  "make_copy_of_function E func func_adj_data_addr data func_section_start func_section_end m = do {
     let sizeof_func_section = func_section_end - func_section_start;
     let func_off = func - func_section_start;
     let adj_var_off = func_adj_data_addr - func_section_start;
     let (copy, m) = alloc_executable_memory E sizeof_func_section m;
     bs \<leftarrow> load_bytes m func_section_start (unat sizeof_func_section);
     m \<leftarrow> store_bytes m copy bs;
     m \<leftarrow> store64 m (copy + adj_var_off) data;
     Some (copy + func_off, m)
   }"

text \<open>\<open>struct stub_func_adj_data\<close> has the members \<open>printf\<close>, \<open>exit\<close> and \<open>orig_func_name\<close>.\<close>

definition prepare_stub_func :: "stub_env \<Rightarrow> u64 \<Rightarrow> memory \<Rightarrow> (u64 \<times> memory) option" where
  "prepare_stub_func E sym_name m = do {
     let data = malloc_result E;
     m \<leftarrow> store64 m data (printf_addr E);
     m \<leftarrow> store64 m (data + 8) (exit_addr E);
     m \<leftarrow> store64 m (data + 16) sym_name;
     make_copy_of_function E (stub_func E) (stub_adj_data E) data (section_start E) (section_stop E) m
   }"

text \<open>The text that the stub builds character by character.\<close>

definition fmt_str :: string where
  "fmt_str = ''ABORTING: LINKER_DIE_AT_RUNTIME was set, and someone called a function which we weren'' @ [CHR 0x27]
     @ ''t able to link (symbol name: >%s<)'' @ [CHR 0x0A]"

text \<open>A call of the stub at the address \<open>pc\<close> of its copy: the calls it makes, with their arguments.\<close>

datatype stub_event = Printf u64 string u64 | Exit u64 int

definition symbol_not_linked_stub :: "stub_env \<Rightarrow> u64 \<Rightarrow> memory \<Rightarrow> stub_event list option" where
  "symbol_not_linked_stub E pc m = do {
     adj_data \<leftarrow> load64 m (pc + (stub_adj_data E - stub_func E));
     pf \<leftarrow> load64 m adj_data;
     name \<leftarrow> load64 m (adj_data + 16);
     ex \<leftarrow> load64 m (adj_data + 8);
     Some [Printf pf fmt_str name, Exit ex 1]
   }"

section \<open>New pages\<close>

lemma page_mask_12: "PAGE_MASK = mask 12"
  by (simp add: PAGE_MASK_def mask_eq_exp_minus_1)

lemma aligned_bits:
  assumes "a AND PAGE_MASK = 0" "n < 12"
  shows "\<not> bit a n"
proof
  assume "bit a n"
  then have "bit (a AND mask 12) n" using assms(2) by (simp only: bit_and_iff bit_mask_iff) simp
  then show False using assms(1) by (simp add: page_mask_12)
qed

lemma page_of_offset:
  assumes "a AND PAGE_MASK = 0" "r < 4096"
  shows "page_of (a + of_nat r) = a"
proof -
  have "bit (of_nat r :: u64) n \<Longrightarrow> n < 12" for n
    using assms(2) bit_take_bit_iff [of 12 r n] by (auto simp: bit_simps take_bit_nat_eq_self)
  moreover have lo: "\<not> bit a n" if "n < 12" for n using aligned_bits [OF assms(1) that] .
  ultimately have hi: "bit (of_nat r :: u64) n \<Longrightarrow> n < 12 \<and> \<not> bit a n" for n by blast
  then have "a + of_nat r = a OR of_nat r" by (intro disjunctive_add) blast
  moreover have "(a OR of_nat r) AND NOT (mask 12) = a"
    by (rule bit_word_eqI) (use lo hi in \<open>auto simp: bit_simps\<close>)
  ultimately show ?thesis by (simp only: page_of_def page_mask_12)
qed

lemma page_step:
  assumes "a AND PAGE_MASK = 0"
  shows "(a + 4096 * w) AND PAGE_MASK = 0"
proof -
  have "a = push_bit 12 (drop_bit 12 a)"
  proof (rule bit_word_eqI)
    fix n assume "n < LENGTH(64)"
    then show "bit a n \<longleftrightarrow> bit (push_bit 12 (drop_bit 12 a)) n"
      using aligned_bits [OF assms, of n] by (cases "n < 12") (simp_all add: bit_simps)
  qed
  then have "a + 4096 * w = push_bit 12 (drop_bit 12 a) + push_bit 12 w" by (simp add: push_bit_eq_mult)
  also have "\<dots> = push_bit 12 (drop_bit 12 a + w)" by (simp add: push_bit_add)
  finally show ?thesis unfolding page_mask_12 by (simp only:) (rule bit_word_eqI, auto simp: bit_simps)
qed

lemma covered_by_pages:
  assumes "a AND PAGE_MASK = 0" "in_bytes a n x" "n < 2 ^ 64"
  shows "page_of x \<in> set (pages a n)"
proof -
  obtain k where k: "k < n" "x = a + of_nat k" using assms(2,3) in_bytes_iff_offset by blast
  have "x = a + 4096 * of_nat (k div 4096) + of_nat (k mod 4096)"
  proof -
    have "of_nat k = (of_nat (4096 * (k div 4096) + k mod 4096) :: u64)" by simp
    then show ?thesis unfolding k(2) by (simp only: of_nat_add of_nat_mult of_nat_numeral add.assoc)
  qed
  then have "page_of x = a + 4096 * of_nat (k div 4096)"
    using page_of_offset [OF page_step [OF assms(1)], of "k mod 4096"] by simp
  moreover have "k div 4096 < (n + 4095) div 4096" using k(1) by (simp add: less_eq_div_iff_mult_less_eq Suc_le_eq [symmetric])
  ultimately show ?thesis unfolding pages_def by auto
qed

section \<open>The copy\<close>

lemma load64_same_bytes:
  assumes "word_ok PROT_READ m a" "word_ok PROT_READ m' a" "\<And>x. in_bytes a 8 x \<Longrightarrow> byte_at m' x = byte_at m x"
  shows "load64 m' a = load64 m a"
proof -
  have "map (\<lambda>i. byte_at m' (a + of_nat i)) [0..<8] = map (\<lambda>i. byte_at m (a + of_nat i)) [0..<8]"
    using assms(3) in_bytes_iff_offset [of 8 a] by (intro map_cong) auto
  then show ?thesis using assms(1,2) by (simp only: load64_eq)
qed

lemma three_words: "disjoint_words d (d + 8)" "disjoint_words d (d + 16)" "disjoint_words (d + 8) (d + 16)"
  by (simp_all add: disjoint_words_word)

text \<open>What the stub relies on: free pages for the copy, a readable section with the variable in it, and a new data block.\<close>

definition stub_ready :: "stub_env \<Rightarrow> memory \<Rightarrow> bool" where
  "stub_ready E m \<longleftrightarrow> (let n = unat (section_stop E - section_start E); data = malloc_result E in
     mmap_result E AND PAGE_MASK = 0 \<and> (\<forall>p\<in>set (pages (mmap_result E) n). prot_at m p = None) \<and>
     (\<forall>x. in_bytes (section_start E) n x \<longrightarrow> can PROT_READ m x \<and> \<not> in_bytes data 24 x) \<and>
     unat (stub_adj_data E - section_start E) + 8 \<le> n \<and>
     (\<forall>x. in_bytes data 24 x \<longrightarrow> can PROT_READ m x \<and> can PROT_WRITE m x))"

lemma in_bytes_part:
  assumes "in_bytes (a + of_nat k) j x" "k + j \<le> n" "n < 2 ^ 64"
  shows "in_bytes a n x"
proof -
  obtain i where "i < j" "x = a + of_nat k + of_nat i" using assms in_bytes_iff_offset [of j "a + of_nat k" x] by auto
  then have "k + i < n" "x = a + of_nat (k + i)" using assms(2) by (simp_all add: add.assoc)
  then show ?thesis using in_bytes_iff_offset [OF assms(3)] by blast
qed

lemma word_ok_part:
  assumes "\<And>x. in_bytes a n x \<Longrightarrow> can r m x" "k + 8 \<le> n" "n < 2 ^ 64"
  shows "word_ok r m (a + of_nat k)"
  unfolding word_ok_def
proof (intro allI impI)
  fix i :: nat assume "i < 8"
  then have "in_bytes (a + of_nat k) 8 (a + of_nat k + of_nat i)" using in_bytes_iff_offset [of 8] by auto
  then show "can r m (a + of_nat k + of_nat i)" using assms in_bytes_part by blast
qed

lemma data_words_ok:
  assumes "\<And>x. in_bytes d 24 x \<Longrightarrow> can r m x"
  shows "word_ok r m d" "word_ok r m (d + 8)" "word_ok r m (d + 16)"
  using word_ok_part [of d 24 r m 0] word_ok_part [of d 24 r m 8] word_ok_part [of d 24 r m 16] assms by simp_all

definition stub_data :: "stub_env \<Rightarrow> u64 \<Rightarrow> memory \<Rightarrow> memory" where
  "stub_data E nm m = (let d = malloc_result E in
     put64 (d + 16) nm (put64 (d + 8) (exit_addr E) (put64 d (printf_addr E) m)))"

lemma stub_data_words:
  assumes "\<And>x. in_bytes (malloc_result E) 24 x \<Longrightarrow> can PROT_READ m x"
  shows "load64 (stub_data E nm m) (malloc_result E) = Some (printf_addr E)"
    "load64 (stub_data E nm m) (malloc_result E + 8) = Some (exit_addr E)"
    "load64 (stub_data E nm m) (malloc_result E + 16) = Some nm"
  using three_words [of "malloc_result E"] data_words_ok [OF assms]
  by (simp_all add: stub_data_def Let_def load64_put64_other load64_put64_same disjoint_words_sym)

lemma stub_data_frame:
  "prot_at (stub_data E nm m) = prot_at m" "can r (stub_data E nm m) x = can r m x"
  "\<not> in_bytes (malloc_result E) 24 x \<Longrightarrow> byte_at (stub_data E nm m) x = byte_at m x"
proof -
  show "prot_at (stub_data E nm m) = prot_at m" "can r (stub_data E nm m) x = can r m x"
    by (simp_all add: stub_data_def Let_def)
  assume "\<not> in_bytes (malloc_result E) 24 x"
  then have "\<not> in_bytes (malloc_result E + of_nat k) 8 x" if "k + 8 \<le> 24" for k using in_bytes_part that by fastforce
  from this [of 0] this [of 8] this [of 16] show "byte_at (stub_data E nm m) x = byte_at m x"
    by (simp add: stub_data_def put64_def Let_def)
qed

lemma stub_stores:
  assumes "\<And>x. in_bytes (malloc_result E) 24 x \<Longrightarrow> can PROT_WRITE m x"
  shows "prepare_stub_func E nm m = make_copy_of_function E (stub_func E) (stub_adj_data E) (malloc_result E)
    (section_start E) (section_stop E) (stub_data E nm m)"
  using data_words_ok [OF assms]
  by (simp add: prepare_stub_func_def stub_data_def Let_def store64_eq)

text \<open>The new mapping is readable and writable, and what was mapped before is as it was.\<close>

lemma mmap_new:
  assumes "\<forall>p\<in>set (pages a n). prot_at m p = None" "a AND PAGE_MASK = 0" "n = unat sz"
  defines "m' \<equiv> mmap_at m a sz (PROT_READ OR PROT_WRITE OR PROT_EXEC) (\<lambda>_. 0)"
  shows "in_bytes a n x \<Longrightarrow> can PROT_READ m' x \<and> can PROT_WRITE m' x \<and> \<not> can r m x"
    and "can r m x \<Longrightarrow> can q m' x = can q m x \<and> byte_at m' x = byte_at m x"
proof -
  have n: "n < 2 ^ 64" using assms(3) unsigned_less [of sz] by simp
  have rw: "(PROT_READ OR PROT_WRITE OR PROT_EXEC) AND PROT_READ \<noteq> 0" "(PROT_READ OR PROT_WRITE OR PROT_EXEC) AND PROT_WRITE \<noteq> 0"
    by (simp_all add: PROT_READ_def PROT_WRITE_def PROT_EXEC_def)
  show "can PROT_READ m' x \<and> can PROT_WRITE m' x \<and> \<not> can r m x" if "in_bytes a n x"
    using covered_by_pages [OF assms(2) that n] assms(1,3) rw
    by (simp add: m'_def mmap_at_def can_def set_prot_def Let_def)
  show "can q m' x = can q m x \<and> byte_at m' x = byte_at m x" if "can r m x"
  proof -
    have "page_of x \<notin> set (pages a n)" using that assms(1) by (auto simp: can_def)
    then show ?thesis using assms(3) by (simp add: m'_def mmap_at_def can_def set_prot_def Let_def)
  qed
qed

text \<open>
  A copy of a function in free pages: the variable of the copy holds the new data, the other bytes are those of the
  section, and what could be read before is as it was.
\<close>

lemma make_copy_correct:
  fixes start stop adj :: u64
  assumes al: "mmap_result E AND PAGE_MASK = 0" and n_eq: "n = unat (stop - start)"
    and new: "\<forall>p\<in>set (pages (mmap_result E) n). prot_at m p = None"
    and readable: "\<And>x. in_bytes start n x \<Longrightarrow> can PROT_READ m x"
    and inside: "unat (adj - start) + 8 \<le> n"
  shows "\<exists>m'. make_copy_of_function E func adj d start stop m = Some (mmap_result E + (func - start), m') \<and>
    load64 m' (mmap_result E + (adj - start)) = Some d \<and>
    (\<forall>i<n. \<not> in_bytes (mmap_result E + (adj - start)) 8 (mmap_result E + of_nat i) \<longrightarrow>
       byte_at m' (mmap_result E + of_nat i) = byte_at m (start + of_nat i)) \<and>
    (\<forall>x. can PROT_READ m x \<longrightarrow> can PROT_READ m' x \<and> byte_at m' x = byte_at m x)"
proof -
  define copy where "copy = mmap_result E"
  define at where "at = copy + (adj - start)"
  define m2 where "m2 = mmap_at m copy (stop - start) (PROT_READ OR PROT_WRITE OR PROT_EXEC) (\<lambda>_. 0)"
  define bs where "bs = map (\<lambda>i. byte_at m2 (start + of_nat i)) [0..<n]"
  define m3 where "m3 = m2\<lparr>byte_at := (\<lambda>x. if in_bytes copy n x then bs ! unat (x - copy) else byte_at m2 x)\<rparr>"
  have n: "n < 2 ^ 64" unfolding n_eq using unsigned_less [of "stop - start"] by simp
  note M = mmap_new [OF new al n_eq, folded copy_def, folded m2_def]
  have load: "load_bytes m2 start n = Some bs"
    unfolding bs_def by (rule load_bytes_eq [OF n]) (use M(2) readable in blast)
  have can3: "can r m3 x = can r m2 x" for r x by (simp add: m3_def can_def)
  have store: "store_bytes m2 copy bs = Some m3"
    using store_bytes_eq [of bs copy m2] M(1) n by (simp add: m3_def bs_def)
  have at_eq: "at = copy + of_nat (unat (adj - start))" by (simp add: at_def)
  have at_in: "in_bytes copy n x" if "in_bytes at 8 x" for x using in_bytes_part [OF that [unfolded at_eq] inside n] .
  have "word_ok PROT_WRITE m3 at" "word_ok PROT_READ m3 at"
    unfolding at_eq by (rule word_ok_part [OF _ inside n], use M(1) can3 in blast)+
  then have st: "store64 m3 at d = Some (put64 at d m3)" "load64 (put64 at d m3) at = Some d"
    by (simp_all add: store64_eq load64_put64_same)
  have "copy \<noteq> -1" using al by (auto simp: PAGE_MASK_def copy_def)
  then have "make_copy_of_function E func adj d start stop m = Some (copy + (func - start), put64 at d m3)"
    using load store st(1) by (simp add: make_copy_of_function_def alloc_executable_memory_def Let_def flip: m2_def n_eq copy_def at_def)
  moreover have "byte_at (put64 at d m3) (copy + of_nat i) = byte_at m (start + of_nat i)"
    if "i < n" "\<not> in_bytes at 8 (copy + of_nat i)" for i
  proof -
    have i: "in_bytes copy n (copy + of_nat i)" "in_bytes start n (start + of_nat i)"
      using that(1) in_bytes_iff_offset [OF n] by blast+
    have "unat (of_nat i :: u64) = i" using that(1) n by (simp add: unat_of_nat)
    then show ?thesis using that i M(2) [OF readable [OF i(2)]] by (simp add: put64_def m3_def bs_def)
  qed
  moreover have "can PROT_READ (put64 at d m3) x \<and> byte_at (put64 at d m3) x = byte_at m x" if "can PROT_READ m x" for x
  proof -
    have "\<not> in_bytes copy n x" using M(1) [of x PROT_READ] that by blast
    then show ?thesis using M(2) [of PROT_READ x PROT_READ] that at_in by (auto simp: put64_def can3 m3_def can_def)
  qed
  ultimately show ?thesis using st(2) unfolding copy_def at_def by blast
qed

text \<open>The data of the stub can still be read when all that could be read is as it was.\<close>

lemma stub_data_kept:
  assumes block: "\<And>x. in_bytes (malloc_result E) 24 x \<Longrightarrow> can PROT_READ m x"
    and kept: "\<And>x. can PROT_READ m x \<Longrightarrow> can PROT_READ m' x \<and> byte_at m' x = byte_at (stub_data E nm m) x"
  shows "load64 m' (malloc_result E) = Some (printf_addr E)" "load64 m' (malloc_result E + 8) = Some (exit_addr E)"
    "load64 m' (malloc_result E + 16) = Some nm"
proof -
  let ?d = "malloc_result E" and ?m1 = "stub_data E nm m"
  have same: "load64 m' (?d + of_nat k) = load64 ?m1 (?d + of_nat k)" if "k + 8 \<le> 24" for k
  proof (rule load64_same_bytes)
    show "word_ok PROT_READ ?m1 (?d + of_nat k)" by (rule word_ok_part [OF _ that]) (use block in \<open>simp_all add: stub_data_frame\<close>)
    show "word_ok PROT_READ m' (?d + of_nat k)" by (rule word_ok_part [OF _ that]) (use block kept in simp_all)
    show "byte_at m' x = byte_at ?m1 x" if x: "in_bytes (?d + of_nat k) 8 x" for x
      using kept block in_bytes_part [OF x \<open>k + 8 \<le> 24\<close>] by simp
  qed
  from same [of 0] same [of 8] same [of 16] stub_data_words [OF block, where nm = nm]
  show "load64 m' ?d = Some (printf_addr E)" "load64 m' (?d + 8) = Some (exit_addr E)" "load64 m' (?d + 16) = Some nm" by simp_all
qed

text \<open>
  C38. Let the pages that \<^verbatim>\<open>mmap\<close> gives be free and the section readable, with the variable inside it, and let
  \<^verbatim>\<open>malloc\<close> give a readable and writable block outside the section. Then \<open>prepare_stub_func\<close> returns the address of a copy of the stub. A call of that copy
  prints the message with the name of this symbol through the host's \<^verbatim>\<open>printf\<close> and exits with status 1. The copy is the section
  byte for byte, except for the variable, and nothing outside the copy and the block has changed.
\<close>

theorem prepare_stub_func_correct:
  assumes ready: "stub_ready E m"
  defines "n \<equiv> unat (section_stop E - section_start E)" and "copy \<equiv> mmap_result E"
    and "adj \<equiv> mmap_result E + (stub_adj_data E - section_start E)"
  shows "\<exists>pc m'. prepare_stub_func E nm m = Some (pc, m') \<and>
    symbol_not_linked_stub E pc m' = Some [Printf (printf_addr E) fmt_str nm, Exit (exit_addr E) 1] \<and>
    (\<forall>i<n. \<not> in_bytes adj 8 (copy + of_nat i) \<longrightarrow> byte_at m' (copy + of_nat i) = byte_at m (section_start E + of_nat i)) \<and>
    (\<forall>x. can PROT_READ m x \<and> \<not> in_bytes (malloc_result E) 24 x \<longrightarrow> can PROT_READ m' x \<and> byte_at m' x = byte_at m x)"
proof -
  let ?m1 = "stub_data E nm m"
  note R = ready [unfolded stub_ready_def Let_def, folded n_def copy_def]
  have new: "\<forall>p\<in>set (pages copy n). prot_at ?m1 p = None" using R by (simp add: stub_data_frame)
  have sec: "can PROT_READ ?m1 x" if "in_bytes (section_start E) n x" for x using R that by (simp add: stub_data_frame)
  have al: "mmap_result E AND PAGE_MASK = 0" and inside: "unat (stub_adj_data E - section_start E) + 8 \<le> n"
    using R unfolding copy_def by blast+
  obtain m' where m': "make_copy_of_function E (stub_func E) (stub_adj_data E) (malloc_result E) (section_start E) (section_stop E) ?m1
      = Some (copy + (stub_func E - section_start E), m')" "load64 m' adj = Some (malloc_result E)"
    "\<forall>i<n. \<not> in_bytes adj 8 (copy + of_nat i) \<longrightarrow> byte_at m' (copy + of_nat i) = byte_at ?m1 (section_start E + of_nat i)"
    "\<forall>x. can PROT_READ ?m1 x \<longrightarrow> can PROT_READ m' x \<and> byte_at m' x = byte_at ?m1 x"
    using make_copy_correct [OF al meta_eq_to_obj_eq [OF n_def] new [unfolded copy_def] sec inside, where func = "stub_func E" and d = "malloc_result E"]
    unfolding copy_def adj_def by blast
  have prep: "prepare_stub_func E nm m = Some (copy + (stub_func E - section_start E), m')"
    using stub_stores [of E m nm] R m'(1) by simp
  have "symbol_not_linked_stub E (copy + (stub_func E - section_start E)) m'
      = Some [Printf (printf_addr E) fmt_str nm, Exit (exit_addr E) 1]"
    using stub_data_kept [of E m m' nm] R m'(2,4)
    by (simp add: symbol_not_linked_stub_def adj_def copy_def stub_data_frame)
  moreover have "byte_at ?m1 (section_start E + of_nat i) = byte_at m (section_start E + of_nat i)" if "i < n" for i
  proof -
    have "n < 2 ^ 64" unfolding n_def using unsigned_less [of "section_stop E - section_start E"] by simp
    then have "in_bytes (section_start E) n (section_start E + of_nat i)" using that in_bytes_iff_offset by blast
    then show ?thesis using R by (simp add: stub_data_frame)
  qed
  moreover have "can PROT_READ m' x \<and> byte_at m' x = byte_at m x" if "can PROT_READ m x" "\<not> in_bytes (malloc_result E) 24 x" for x
    using m'(4) that by (simp add: stub_data_frame)
  ultimately show ?thesis using prep m'(3) by (intro exI conjI) auto
qed

lemma in_page:
  assumes "in_bytes a n x" "a AND PAGE_MASK = 0" "n \<le> 4096"
  shows "page_of x = a"
proof -
  obtain i where "i < n" "x = a + of_nat i" using assms(1,3) in_bytes_iff_offset [of n a x] by auto
  then show ?thesis using page_of_offset [OF assms(2), of i] assms(3) by simp
qed

definition stub_demo :: stub_env where
  "stub_demo = \<lparr>section_start = 0x1000, section_stop = 0x1040, stub_func = 0x1010, stub_adj_data = 0x1000,
     printf_addr = 0x7000, exit_addr = 0x7100, mmap_result = 0x5000, malloc_result = 0x2000\<rparr>"

definition stub_demo_mem :: memory where
  "stub_demo_mem = \<lparr>byte_at = (\<lambda>x. ucast x), prot_at = [0x1000 \<mapsto> 5, 0x2000 \<mapsto> 3]\<rparr>"

theorem prepare_stub_func_correct_witness:
  "\<exists>pc m'. prepare_stub_func stub_demo 0x6000 stub_demo_mem = Some (pc, m') \<and>
    symbol_not_linked_stub stub_demo pc m' = Some [Printf 0x7000 fmt_str 0x6000, Exit 0x7100 1]"
proof -
  have sec: "page_of x = 0x1000" if "in_bytes 0x1000 64 x" for x using in_page [OF that] by (simp add: PAGE_MASK_def)
  have dat: "page_of x = 0x2000" if "in_bytes 0x2000 24 x" for x using in_page [OF that] by (simp add: PAGE_MASK_def)
  have no: "\<not> in_bytes 0x2000 24 x" if "in_bytes 0x1000 64 x" for x using sec [OF that] dat [of x] by auto
  have "stub_ready stub_demo stub_demo_mem"
    unfolding stub_ready_def Let_def using sec dat no
    by (auto simp: stub_demo_def stub_demo_mem_def PAGE_MASK_def pages_def can_def PROT_READ_def PROT_WRITE_def)
  from prepare_stub_func_correct [OF this, where nm = "0x6000"] show ?thesis by (auto simp: stub_demo_def)
qed

end
