(* ===== verification/Stdio_Null.thy ===== *)
theory Stdio_Null
  imports Bionic_Prelude
begin

text \<open>
  \<open>apkenv_nullify_closed_stdio\<close> of \<open>linker/linker.c\<close>: a standard stream that is closed gets \<^verbatim>\<open>/dev/null\<close>, so that no
  file opened later takes its number. Every system call may be interrupted by a signal and is then repeated.
\<close>

section \<open>System calls\<close>

datatype fd_file = Dev_null | File nat

datatype errno = EINTR | EBADF | Other_error

text \<open>
  The table of descriptors and the number of calls made so far. \<open>interrupted\<close> and \<open>failing\<close> say which calls are
  interrupted and which fail for another reason; \<open>null_opens\<close> says whether \<^verbatim>\<open>/dev/null\<close> can be opened; \<open>fd_limit\<close> bounds the numbers; \<open>closed_anyway\<close>
  whether an interrupted \<^verbatim>\<open>close\<close> has released the descriptor, as it does on Linux.
\<close>

record fd_state =
  fds :: "nat \<Rightarrow> fd_file option"
  calls :: nat

record fd_host =
  interrupted :: "nat \<Rightarrow> bool"
  failing :: "nat \<Rightarrow> bool"
  null_opens :: bool
  fd_limit :: nat
  closed_anyway :: bool

definition trap :: "fd_host \<Rightarrow> fd_state \<Rightarrow> errno option \<times> fd_state" where
  "trap H s = (if interrupted H (calls s) then Some EINTR else if failing H (calls s) then Some Other_error else None,
     s\<lparr>calls := calls s + 1\<rparr>)"

text \<open>\<^verbatim>\<open>open\<close> gives the lowest free number below the limit of the process.\<close>

definition open_null :: "fd_host \<Rightarrow> fd_state \<Rightarrow> nat option \<times> fd_state" where
  "open_null H s =
     (case find (\<lambda>i. fds s i = None) [0..<fd_limit H] of
       Some i \<Rightarrow> if null_opens H then (Some i, s\<lparr>fds := (fds s)(i := Some Dev_null)\<rparr>) else (None, s)
     | None \<Rightarrow> (None, s))"

definition fcntl_getfl :: "fd_host \<Rightarrow> nat \<Rightarrow> fd_state \<Rightarrow> errno option \<times> fd_state" where
  "fcntl_getfl H i s = (case trap H s of
     (Some e, s) \<Rightarrow> (Some e, s)
   | (None, s) \<Rightarrow> (if fds s i = None then Some EBADF else None, s))"

definition dup2 :: "fd_host \<Rightarrow> nat \<Rightarrow> nat \<Rightarrow> fd_state \<Rightarrow> errno option \<times> fd_state" where
  "dup2 H oldfd newfd s = (case trap H s of
     (Some e, s) \<Rightarrow> (Some e, s)
   | (None, s) \<Rightarrow> if fds s oldfd = None then (Some EBADF, s) else (None, s\<lparr>fds := (fds s)(newfd := fds s oldfd)\<rparr>))"

definition close_fd :: "fd_host \<Rightarrow> nat \<Rightarrow> fd_state \<Rightarrow> errno option \<times> fd_state" where
  "close_fd H i s = (case trap H s of
     (Some EINTR, s) \<Rightarrow> (Some EINTR, if closed_anyway H then s\<lparr>fds := (fds s)(i := None)\<rparr> else s)
   | (Some e, s) \<Rightarrow> (Some e, s)
   | (None, s) \<Rightarrow> if fds s i = None then (Some EBADF, s) else (None, s\<lparr>fds := (fds s)(i := None)\<rparr>))"

section \<open>The function\<close>

text \<open>The loops \<^verbatim>\<open>do status = ...; while (status < 0 && errno == EINTR)\<close>.\<close>

partial_function (option) retry ::
  "(fd_state \<Rightarrow> errno option \<times> fd_state) \<Rightarrow> fd_state \<Rightarrow> (errno option \<times> fd_state) option" where
  "retry call s = (case call s of (e, s) \<Rightarrow> if e = Some EINTR then retry call s else Some (e, s))"

text \<open>One descriptor; \<open>rv\<close> is \<open>return_value\<close>.\<close>

definition nullify_one :: "fd_host \<Rightarrow> nat \<Rightarrow> nat \<Rightarrow> int \<Rightarrow> fd_state \<Rightarrow> (int \<times> fd_state) option" where
  "nullify_one H dev_null i rv s =
     (if i = dev_null then Some (rv, s)
      else do {
        (e, s) \<leftarrow> retry (fcntl_getfl H i) s;
        if e = None then Some (rv, s)
        else if e \<noteq> Some EBADF then Some (-1, s)
        else do {
          (e, s) \<leftarrow> retry (dup2 H dev_null i) s;
          Some (if e \<noteq> None then -1 else rv, s)
        }
      })"

fun nullify_loop :: "fd_host \<Rightarrow> nat \<Rightarrow> nat list \<Rightarrow> int \<Rightarrow> fd_state \<Rightarrow> (int \<times> fd_state) option" where
  "nullify_loop H dev_null [] rv s = Some (rv, s)"
| "nullify_loop H dev_null (i # is) rv s = do {
     (rv, s) \<leftarrow> nullify_one H dev_null i rv s;
     nullify_loop H dev_null is rv s
   }"

definition apkenv_nullify_closed_stdio :: "fd_host \<Rightarrow> fd_state \<Rightarrow> (int \<times> fd_state) option" where
  "apkenv_nullify_closed_stdio H s = (case open_null H s of
     (None, s) \<Rightarrow> Some (-1, s)
   | (Some dev_null, s) \<Rightarrow> do {
       (rv, s) \<leftarrow> nullify_loop H dev_null [0..<3] 0 s;
       if dev_null > 2 then do {
         (e, s) \<leftarrow> retry (close_fd H dev_null) s;
         Some (if e \<noteq> None then -1 else rv, s)
       } else Some (rv, s)
     })"

section \<open>It returns, and the streams are open\<close>

text \<open>A host that does not interrupt for ever.\<close>

definition fair :: "fd_host \<Rightarrow> bool" where
  "fair H \<longleftrightarrow> (\<forall>n. \<exists>m\<ge>n. \<not> interrupted H m)"

text \<open>
  A call can be repeated: it counts itself, reports an interruption only when there is one, and an
  interruption keeps a condition on the table, from which the final call gives the result.
\<close>

locale restartable =
  fixes H :: fd_host and call :: "fd_state \<Rightarrow> errno option \<times> fd_state"
    and pre :: "(nat \<Rightarrow> fd_file option) \<Rightarrow> bool" and post :: "errno option \<Rightarrow> (nat \<Rightarrow> fd_file option) \<Rightarrow> bool"
  assumes counts: "call s = (e, s') \<Longrightarrow> calls s' = Suc (calls s)"
    and only_if: "call s = (Some EINTR, s') \<Longrightarrow> interrupted H (calls s)"
    and again: "pre (fds s) \<Longrightarrow> call s = (Some EINTR, s') \<Longrightarrow> pre (fds s')"
    and ending: "pre (fds s) \<Longrightarrow> call s = (e, s') \<Longrightarrow> e \<noteq> Some EINTR \<Longrightarrow> post e (fds s')"
begin

lemma retry_returns:
  assumes fair: "fair H" and "pre (fds s)"
  shows "\<exists>e s'. retry call s = Some (e, s') \<and> e \<noteq> Some EINTR \<and> post e (fds s')"
proof -
  obtain m where m: "m \<ge> calls s" "\<not> interrupted H m" using fair unfolding fair_def by blast
  from m(1) assms(2) show ?thesis
  proof (induction "m - calls s" arbitrary: s)
    case 0
    obtain e s' where c: "call s = (e, s')" by fastforce
    have "calls s = m" using 0 by simp
    then have "e \<noteq> Some EINTR" using c only_if [of s s'] m(2) by auto
    then show ?case using c ending [OF 0(3) c] by (simp add: retry.simps)
  next
    case (Suc k)
    obtain e s' where c: "call s = (e, s')" by fastforce
    show ?case
    proof (cases "e = Some EINTR")
      case True
      have "k = m - calls s'" "calls s' \<le> m" using counts [OF c] Suc.hyps(2) by linarith+
      then show ?thesis using Suc.hyps(1) [of s'] again [OF Suc.prems(2)] c True by (simp add: retry.simps [of call s])
    next
      case False
      then show ?thesis using c ending [OF Suc.prems(2) c] by (simp add: retry.simps)
    qed
  qed
qed

end

lemma trap_cases:
  assumes "trap H s = (e, s')"
  shows "calls s' = Suc (calls s)" "fds s' = fds s" "e = Some EINTR \<Longrightarrow> interrupted H (calls s)"
    "e = Some Other_error \<Longrightarrow> failing H (calls s)" "e \<noteq> Some EBADF"
  using assms by (auto simp: trap_def split: if_splits)

lemmas fd_calls = fcntl_getfl_def dup2_def close_fd_def trap_def

interpretation getfl: restartable H "fcntl_getfl H i" "\<lambda>f. f = ft"
    "\<lambda>e f. f = ft \<and> (e = None \<longleftrightarrow> ft i \<noteq> None \<and> e \<noteq> Some Other_error) \<and> (e = Some Other_error \<longrightarrow> (\<exists>n. failing H n))
      \<and> (e = Some EBADF \<longrightarrow> ft i = None)" for H i ft
  by unfold_locales (auto simp: fd_calls split: if_splits)

interpretation dup: restartable H "dup2 H d i" "\<lambda>f. f = ft \<and> ft d = Some Dev_null"
    "\<lambda>e f. (e = None \<longrightarrow> f = ft(i := Some Dev_null)) \<and> (e \<noteq> None \<longrightarrow> f = ft \<and> (\<exists>n. failing H n))" for H d i ft
  by unfold_locales (auto simp: fd_calls split: if_splits)

interpretation clo: restartable H "close_fd H i" "\<lambda>f. ft i \<noteq> None \<and> (f = ft \<or> closed_anyway H \<and> f = ft(i := None))"
    "\<lambda>e f. (e = None \<longrightarrow> f = ft(i := None)) \<and> (e = Some EBADF \<longrightarrow> closed_anyway H \<and> f = ft(i := None))
      \<and> (e = Some Other_error \<longrightarrow> (\<exists>n. failing H n)) \<and> (\<forall>j. j \<noteq> i \<longrightarrow> f j = ft j)" for H i ft
  by unfold_locales (auto simp: fd_calls split: if_splits)

text \<open>The table with \<^verbatim>\<open>/dev/null\<close> for every closed stream.\<close>

definition with_null :: "nat set \<Rightarrow> (nat \<Rightarrow> fd_file option) \<Rightarrow> nat \<Rightarrow> fd_file option" where
  "with_null A f i = (if i \<in> A \<and> f i = None then Some Dev_null else f i)"

text \<open>What the function may have done to a table so far: a closed stream may have become \<^verbatim>\<open>/dev/null\<close>.\<close>

definition grown :: "(nat \<Rightarrow> fd_file option) \<Rightarrow> (nat \<Rightarrow> fd_file option) \<Rightarrow> nat set \<Rightarrow> bool" where
  "grown f f' A \<longleftrightarrow> (\<forall>i. f' i = f i \<or> i \<in> A \<and> f i = None \<and> f' i = Some Dev_null)"

lemma grown_trans:
  assumes "grown f g A" "grown g h B" shows "grown f h (A \<union> B)"
  unfolding grown_def
proof
  fix i
  show "h i = f i \<or> i \<in> A \<union> B \<and> f i = None \<and> h i = Some Dev_null"
    using assms [unfolded grown_def, THEN spec, of i] by auto
qed

lemma grown_open: "grown f g A \<Longrightarrow> f i \<noteq> None \<Longrightarrow> g i = f i"
  unfolding grown_def by (erule allE [of _ i]) auto

lemma nullify_one_returns:
  assumes "fair H" "fds s d = Some Dev_null"
  shows "\<exists>rv' s'. nullify_one H d i rv s = Some (rv', s') \<and> grown (fds s) (fds s') {i} \<and>
    (rv' = rv \<and> fds s' i \<noteq> None \<or> rv' = -1 \<and> (\<exists>n. failing H n))"
proof (cases "i = d")
  case True
  then show ?thesis using assms by (simp add: nullify_one_def grown_def)
next
  case False
  obtain e s1 where g: "retry (fcntl_getfl H i) s = Some (e, s1)" "e \<noteq> Some EINTR" "fds s1 = fds s"
    "e = None \<longleftrightarrow> fds s i \<noteq> None \<and> e \<noteq> Some Other_error" "e = Some Other_error \<longrightarrow> (\<exists>n. failing H n)"
    using getfl.retry_returns [OF assms(1), where ft = "fds s" and s = s and i = i] by blast
  show ?thesis
  proof (cases "e = Some EBADF")
    case True
    then have closed: "fds s i = None" using g(4) by auto
    obtain e2 s2 where d: "retry (dup2 H d i) s1 = Some (e2, s2)"
      "e2 = None \<longrightarrow> fds s2 = (fds s)(i := Some Dev_null)" "e2 \<noteq> None \<longrightarrow> fds s2 = fds s \<and> (\<exists>n. failing H n)"
      using dup.retry_returns [OF assms(1), where ft = "fds s" and s = s1 and d = d and i = i] g(3) assms(2) by blast
    then show ?thesis using False True g(1) closed by (cases e2) (auto simp: nullify_one_def grown_def)
  next
    case False
    then have "e = None \<or> e = Some Other_error" using g(2) by (cases "the e"; cases e) auto
    then show ?thesis using \<open>i \<noteq> d\<close> g by (auto simp: nullify_one_def grown_def)
  qed
qed

lemma nullify_loop_returns:
  assumes "fair H" "fds s d = Some Dev_null"
  shows "\<exists>rv' s'. nullify_loop H d is rv s = Some (rv', s') \<and> grown (fds s) (fds s') (set is) \<and>
    (rv' = rv \<and> (\<forall>i\<in>set is. fds s' i \<noteq> None) \<or> rv' = -1 \<and> (\<exists>n. failing H n))"
  using assms(2)
proof (induction "is" arbitrary: rv s)
  case Nil
  then show ?case by (simp add: grown_def)
next
  case (Cons i "is")
  obtain rv1 s1 where one: "nullify_one H d i rv s = Some (rv1, s1)" "grown (fds s) (fds s1) {i}"
    "rv1 = rv \<and> fds s1 i \<noteq> None \<or> rv1 = -1 \<and> (\<exists>n. failing H n)"
    using nullify_one_returns [OF assms(1) Cons.prems, of i rv] by blast
  have "fds s1 d = Some Dev_null" using grown_open [OF one(2), of d] Cons.prems by simp
  then obtain rv2 s2 where rest: "nullify_loop H d is rv1 s1 = Some (rv2, s2)" "grown (fds s1) (fds s2) (set is)"
    "rv2 = rv1 \<and> (\<forall>i\<in>set is. fds s2 i \<noteq> None) \<or> rv2 = -1 \<and> (\<exists>n. failing H n)"
    using Cons.IH [of s1 rv1] by blast
  have "grown (fds s) (fds s2) (set (i # is))" using grown_trans [OF one(2) rest(2)] by simp
  moreover have "fds s2 i \<noteq> None" if "fds s1 i \<noteq> None" using grown_open [OF rest(2), of i] that by simp
  ultimately show ?case using one(1,3) rest(1,3) by auto
qed

text \<open>
  C40. Take a host that does not interrupt system calls for ever, a table of descriptors with a free number below the limit, and let
  \<^verbatim>\<open>/dev/null\<close> be there. Then \<open>apkenv_nullify_closed_stdio\<close> returns. What was open is as before. When the result is 0, the
  descriptors 0, 1 and 2 are open, each that was closed is \<^verbatim>\<open>/dev/null\<close>, and no other number has changed; and the result is 0
  unless a call failed for another reason or an interrupted \<^verbatim>\<open>close\<close> had released its descriptor.
\<close>

theorem nullify_closed_stdio_returns:
  assumes "fair H" "null_opens H" "fds s k = None" "k < fd_limit H"
  shows "\<exists>rv s'. apkenv_nullify_closed_stdio H s = Some (rv, s') \<and>
    (\<forall>i. fds s i \<noteq> None \<longrightarrow> fds s' i = fds s i) \<and>
    (rv = 0 \<longrightarrow> fds s' = with_null {0, 1, 2} (fds s)) \<and>
    ((\<forall>n. \<not> failing H n) \<and> \<not> closed_anyway H \<longrightarrow> rv = 0)"
proof -
  have "find (\<lambda>i. fds s i = None) [0..<fd_limit H] \<noteq> None" using assms(3,4) by (auto simp: find_None_iff)
  then obtain d where d: "find (\<lambda>i. fds s i = None) [0..<fd_limit H] = Some d" by blast
  then have free: "fds s d = None" and all: "\<And>i. i < d \<Longrightarrow> fds s i \<noteq> None" by (auto simp: find_Some_iff)
  let ?s0 = "s\<lparr>fds := (fds s)(d := Some Dev_null)\<rparr>"
  have op: "open_null H s = (Some d, ?s0)" using assms(2) d by (simp add: open_null_def)
  obtain rv s1 where loop: "nullify_loop H d [0..<3] 0 ?s0 = Some (rv, s1)" "grown (fds ?s0) (fds s1) (set [0..<3])"
    "rv = 0 \<and> (\<forall>i\<in>set [0..<3]. fds s1 i \<noteq> None) \<or> rv = -1 \<and> (\<exists>n. failing H n)"
    using nullify_loop_returns [OF assms(1), of ?s0 d "[0..<3]" 0] by auto
  have three: "set [0..<3] = {0, 1, 2 :: nat}" unfolding set_upt by auto
  have open_before: "fds s1 i = fds s i" if "fds s i \<noteq> None" for i
    using grown_open [OF loop(2), of i] that free by (cases "i = d") auto
  show ?thesis
  proof (cases "d > 2")
    case False
    have "fds s1 = with_null {0, 1, 2} (fds s)" if "rv = 0"
    proof
      fix i
      show "fds s1 i = with_null {0, 1, 2} (fds s) i"
        using loop(2) [unfolded grown_def three, THEN spec, of i] loop(3) that free False
        unfolding with_null_def three by (cases "i = d"; cases "i \<in> {0, 1, 2}") auto
    qed
    then show ?thesis using op loop False open_before by (auto simp: apkenv_nullify_closed_stdio_def)
  next
    case True
    have table: "fds s1 = (fds s)(d := Some Dev_null)"
    proof
      fix i
      show "fds s1 i = ((fds s)(d := Some Dev_null)) i"
        using loop(2) all [of i] True unfolding grown_def three by fastforce
    qed
    obtain e s2 where c: "retry (close_fd H d) s1 = Some (e, s2)" "e = None \<longrightarrow> fds s2 = (fds s1)(d := None)"
      "e = Some EBADF \<longrightarrow> closed_anyway H" "e = Some Other_error \<longrightarrow> (\<exists>n. failing H n)" "e \<noteq> Some EINTR"
      "\<forall>j. j \<noteq> d \<longrightarrow> fds s2 j = fds s1 j"
      using clo.retry_returns [OF assms(1), where ft = "fds s1" and s = s1 and i = d] table by auto
    have "with_null {0, 1, 2} (fds s) = fds s" using all True by (fastforce simp: with_null_def)
    then have "fds s2 = with_null {0, 1, 2} (fds s)" if "e = None" using c(2) that table free by auto
    moreover have "fds s2 i = fds s i" if "fds s i \<noteq> None" for i using c(6) that table free by (cases "i = d") auto
    moreover have "e = None" if "\<forall>n. \<not> failing H n" "\<not> closed_anyway H"
      using c(3,4,5) that by (cases e) (auto intro: errno.exhaust)
    moreover have "apkenv_nullify_closed_stdio H s = Some (if e \<noteq> None then -1 else rv, s2)"
      using op loop(1) c(1) True by (simp add: apkenv_nullify_closed_stdio_def)
    ultimately show ?thesis using loop(3) by auto
  qed
qed

theorem nullify_closed_stdio_returns_witness:
  "\<exists>rv s'. apkenv_nullify_closed_stdio \<lparr>interrupted = even, failing = (\<lambda>_. False), null_opens = True, fd_limit = 1024, closed_anyway = False\<rparr>
      \<lparr>fds = [0 \<mapsto> File 0, 2 \<mapsto> File 2], calls = 0\<rparr> = Some (rv, s') \<and> rv = 0 \<and>
    fds s' 0 = Some (File 0) \<and> fds s' 1 = Some Dev_null \<and> fds s' 2 = Some (File 2)"
proof -
  let ?H = "\<lparr>interrupted = even, failing = (\<lambda>_. False), null_opens = True, fd_limit = 1024, closed_anyway = False\<rparr>"
  let ?s = "\<lparr>fds = [0 \<mapsto> File 0, 2 \<mapsto> File 2], calls = 0\<rparr>"
  have "fair ?H" unfolding fair_def by (simp, metis even_Suc le_Suc_eq order_refl)
  then show ?thesis
    using nullify_closed_stdio_returns [of ?H ?s 1] by (auto simp: with_null_def)
qed

end
