(* ===== verification/Libc_Sha1.thy ===== *)
theory Libc_Sha1
  imports C_Memory
begin

text \<open>
  SHA-1 as the C library exports it to bionic programs (\<open>libc/libc-sha1.c\<close>), and that it computes the
  function of the standard FIPS 180-4. The code works in place on sixteen words that it overwrites with
  the message schedule while it goes, keeps its five working variables in place and passes them in
  rotated order, and absorbs the message in pieces.
\<close>

section \<open>The code\<close>

text \<open>\<open>sha_count0\<close> and \<open>sha_count1\<close> are \<^verbatim>\<open>count[0]\<close> and \<^verbatim>\<open>count[1]\<close>.\<close>

record SHA1_CTX =
  sha_state :: "u32 list"
  sha_count0 :: u32
  sha_count1 :: u32
  sha_buffer :: "u8 list"

definition rol :: "u32 \<Rightarrow> nat \<Rightarrow> u32" where
  "rol v bits = push_bit bits v OR drop_bit (32 - bits) v"

text \<open>
  The macros \<open>blk0\<close> (of a little endian machine) and \<open>blk\<close>: they give a message word and store it into
  the block.
\<close>

definition blk0 :: "u32 list \<Rightarrow> nat \<Rightarrow> u32 \<times> u32 list" where
  "blk0 l i = (let w = (rol (l ! i) 24 AND 0xFF00FF00) OR (rol (l ! i) 8 AND 0x00FF00FF) in (w, l[i := w]))"

definition blk :: "u32 list \<Rightarrow> nat \<Rightarrow> u32 \<times> u32 list" where
  "blk l i = (let w = rol (l ! ((i + 13) mod 16) XOR l ! ((i + 8) mod 16) XOR l ! ((i + 2) mod 16) XOR l ! (i mod 16)) 1
     in (w, l[i mod 16 := w]))"

text \<open>
  The macros \<open>R0\<close> to \<open>R4\<close>. The working variables are the five elements of \<open>r\<close>; the arguments say
  which of them play the parts \<open>v\<close> to \<open>z\<close>.
\<close>

definition R_op ::
  "(u32 \<Rightarrow> u32 \<Rightarrow> u32 \<Rightarrow> u32) \<Rightarrow> (u32 list \<Rightarrow> nat \<Rightarrow> u32 \<times> u32 list) \<Rightarrow> u32 \<Rightarrow>
     nat \<Rightarrow> nat \<Rightarrow> nat \<Rightarrow> nat \<Rightarrow> nat \<Rightarrow> nat \<Rightarrow> u32 list \<times> u32 list \<Rightarrow> u32 list \<times> u32 list" where
  "R_op f bk k v w x y z i = (\<lambda>(r, l).
     let (m, l) = bk l i;
         r = r[z := r ! z + (f (r ! w) (r ! x) (r ! y) + m + k + rol (r ! v) 5)];
         r = r[w := rol (r ! w) 30]
     in (r, l))"

definition R0 where "R0 = R_op (\<lambda>w x y. (w AND (x XOR y)) XOR y) blk0 0x5A827999"
definition R1 where "R1 = R_op (\<lambda>w x y. (w AND (x XOR y)) XOR y) blk 0x5A827999"
definition R2 where "R2 = R_op (\<lambda>w x y. (w XOR x) XOR y) blk 0x6ED9EBA1"
definition R3 where "R3 = R_op (\<lambda>w x y. ((w OR x) AND y) OR (w AND x)) blk 0x8F1BBCDC"
definition R4 where "R4 = R_op (\<lambda>w x y. (w XOR x) XOR y) blk 0xCA62C1D6"

text \<open>
  The line number \<open>i\<close> of the 80 calls: the macro, and the variables, which move by one place from each
  line to the next.
\<close>

definition sha_line :: "nat \<Rightarrow> u32 list \<times> u32 list \<Rightarrow> u32 list \<times> u32 list" where
  "sha_line i =
     (if i < 16 then R0 else if i < 20 then R1 else if i < 40 then R2 else if i < 60 then R3 else R4)
       ((0 + 4 * i) mod 5) ((1 + 4 * i) mod 5) ((2 + 4 * i) mod 5) ((3 + 4 * i) mod 5) ((4 + 4 * i) mod 5) i"

text \<open>The union of 64 bytes and 16 words.\<close>

definition block_words :: "u8 list \<Rightarrow> u32 list" where
  "block_words b = map (\<lambda>i. le_word (take 4 (drop (4 * i) b))) [0..<16]"

definition SHA1Transform :: "u32 list \<Rightarrow> u8 list \<Rightarrow> u32 list" where
  "SHA1Transform state buffer =
     (let (r, l) = foldl (\<lambda>s i. sha_line i s) (state, block_words buffer) [0..<80]
      in map (\<lambda>i. state ! i + r ! i) [0..<5])"

text \<open>The fields of a new context that \<open>SHA1Init\<close> leaves alone come from the stack.\<close>

definition SHA1Init :: "SHA1_CTX \<Rightarrow> SHA1_CTX" where
  "SHA1Init ctx = ctx\<lparr>sha_state := [0x67452301, 0xEFCDAB89, 0x98BADCFE, 0x10325476, 0xC3D2E1F0],
     sha_count0 := 0, sha_count1 := 0\<rparr>"

text \<open>Parts of arrays, with the bounds that \<open>memcpy\<close> needs.\<close>

definition bytes_at :: "u8 list \<Rightarrow> nat \<Rightarrow> nat \<Rightarrow> u8 list option" where
  "bytes_at data i n = (if i + n \<le> length data then Some (take n (drop i data)) else None)"

definition copy_into :: "u8 list \<Rightarrow> nat \<Rightarrow> u8 list \<Rightarrow> u8 list option" where
  "copy_into buf j xs =
     (if j + length xs \<le> length buf then Some (take j buf @ xs @ drop (j + length xs) buf) else None)"

partial_function (option) update_loop :: "u32 list \<Rightarrow> u8 list \<Rightarrow> u32 \<Rightarrow> u32 \<Rightarrow> (u32 list \<times> u32) option" where
  "update_loop state data i len =
     (if i + 63 < len then do {
        b \<leftarrow> bytes_at data (unat i) 64;
        update_loop (SHA1Transform state b) data (i + 64) len
      } else Some (state, i))"

definition SHA1Update :: "SHA1_CTX \<Rightarrow> u8 list \<Rightarrow> u32 \<Rightarrow> SHA1_CTX option" where
  "SHA1Update ctx data len = do {
     let j = sha_count0 ctx;
     let ctx = ctx\<lparr>sha_count0 := sha_count0 ctx + push_bit 3 len\<rparr>;
     let ctx = (if sha_count0 ctx < j then ctx\<lparr>sha_count1 := sha_count1 ctx + 1\<rparr> else ctx);
     let ctx = ctx\<lparr>sha_count1 := sha_count1 ctx + drop_bit 29 len\<rparr>;
     let j = drop_bit 3 j AND 63;
     (ctx, i, j) \<leftarrow> (if j + len > 63 then do {
         xs \<leftarrow> bytes_at data 0 (unat (64 - j));
         buf \<leftarrow> copy_into (sha_buffer ctx) (unat j) xs;
         (state, i) \<leftarrow> update_loop (SHA1Transform (sha_state ctx) buf) data (64 - j) len;
         Some (ctx\<lparr>sha_buffer := buf, sha_state := state\<rparr>, i, 0)
       } else Some (ctx, 0, j));
     xs \<leftarrow> bytes_at data (unat i) (unat (len - i));
     buf \<leftarrow> copy_into (sha_buffer ctx) (unat j) xs;
     Some (ctx\<lparr>sha_buffer := buf\<rparr>)
   }"

text \<open>The loop that adds zero bytes up to the place of the length.\<close>

partial_function (option) final_loop :: "SHA1_CTX \<Rightarrow> SHA1_CTX option" where
  "final_loop ctx =
     (if sha_count0 ctx AND 504 \<noteq> 448 then do { ctx \<leftarrow> SHA1Update ctx [0] 1; final_loop ctx } else Some ctx)"

definition be_byte :: "u32 \<Rightarrow> nat \<Rightarrow> u8" where
  "be_byte w i = ucast (drop_bit ((3 - i mod 4) * 8) w AND 255)"

text \<open>The digest; the context is wiped at the end and not used again.\<close>

definition SHA1Final :: "SHA1_CTX \<Rightarrow> u8 list option" where
  "SHA1Final ctx = do {
     let finalcount = map (\<lambda>i. be_byte (if i \<ge> 4 then sha_count0 ctx else sha_count1 ctx) i) [0..<8];
     ctx \<leftarrow> SHA1Update ctx [0x80] 1;
     ctx \<leftarrow> final_loop ctx;
     ctx \<leftarrow> SHA1Update ctx finalcount 8;
     Some (map (\<lambda>i. be_byte (sha_state ctx ! (i div 4)) i) [0..<20])
   }"

fun sha1_loop :: "SHA1_CTX \<Rightarrow> u8 list \<Rightarrow> nat \<Rightarrow> nat \<Rightarrow> SHA1_CTX option" where
  "sha1_loop ctx str ii 0 = Some ctx"
| "sha1_loop ctx str ii (Suc k) = do {
     c \<leftarrow> arr_get str ii;
     ctx \<leftarrow> SHA1Update ctx [c] 1;
     sha1_loop ctx str (ii + 1) k
   }"

text \<open>\<open>stack\<close> is the uninitialised context; the result is the 21 bytes of \<open>hash_out\<close>.\<close>

definition SHA1 :: "SHA1_CTX \<Rightarrow> u8 list \<Rightarrow> int \<Rightarrow> u8 list option" where
  "SHA1 stack str len = do {
     ctx \<leftarrow> sha1_loop (SHA1Init stack) str 0 (nat len);
     digest \<leftarrow> SHA1Final ctx;
     Some (digest @ [0])
   }"

section \<open>The standard\<close>

definition ROTL :: "nat \<Rightarrow> u32 \<Rightarrow> u32" where
  "ROTL n x = push_bit n x OR drop_bit (32 - n) x"

definition Ch :: "u32 \<Rightarrow> u32 \<Rightarrow> u32 \<Rightarrow> u32" where "Ch x y z = (x AND y) XOR (NOT x AND z)"
definition Parity :: "u32 \<Rightarrow> u32 \<Rightarrow> u32 \<Rightarrow> u32" where "Parity x y z = x XOR y XOR z"
definition Maj :: "u32 \<Rightarrow> u32 \<Rightarrow> u32 \<Rightarrow> u32" where "Maj x y z = (x AND y) XOR (x AND z) XOR (y AND z)"

definition fips_f :: "nat \<Rightarrow> u32 \<Rightarrow> u32 \<Rightarrow> u32 \<Rightarrow> u32" where
  "fips_f t = (if t < 20 then Ch else if t < 40 then Parity else if t < 60 then Maj else Parity)"

definition fips_K :: "nat \<Rightarrow> u32" where
  "fips_K t = (if t < 20 then 0x5a827999 else if t < 40 then 0x6ed9eba1 else if t < 60 then 0x8f1bbcdc else 0xca62c1d6)"

text \<open>The message schedule \<open>W\<close> of a block: its first \<open>16 + n\<close> words.\<close>

definition next_word :: "u32 list \<Rightarrow> nat \<Rightarrow> u32 list" where
  "next_word W n = W @ [ROTL 1 (W ! (n + 13) XOR W ! (n + 8) XOR W ! (n + 2) XOR W ! n)]"

primrec schedule :: "u8 list \<Rightarrow> nat \<Rightarrow> u32 list" where
  "schedule b 0 = map (\<lambda>i. le_word (rev (take 4 (drop (4 * i) b)))) [0..<16]"
| "schedule b (Suc n) = next_word (schedule b n) n"

fun fips_step :: "u32 list \<Rightarrow> u32 list \<Rightarrow> nat \<Rightarrow> u32 list" where
  "fips_step W [a, b, c, d, e] t = [ROTL 5 a + fips_f t b c d + e + fips_K t + W ! t, a, ROTL 30 b, c, d]"
| "fips_step W h t = h"

definition fips_compress :: "u32 list \<Rightarrow> u8 list \<Rightarrow> u32 list" where
  "fips_compress H b = map2 (+) H (foldl (fips_step (schedule b 64)) H [0..<80])"

function fips_blocks :: "u32 list \<Rightarrow> u8 list \<Rightarrow> u32 list" where
  "fips_blocks H m = (if length m < 64 then H else fips_blocks (fips_compress H (take 64 m)) (drop 64 m))"
  by pat_completeness auto
termination by (relation "measure (\<lambda>(H, m). length m)") auto

declare fips_blocks.simps [simp del]

definition H0 :: "u32 list" where
  "H0 = [0x67452301, 0xefcdab89, 0x98badcfe, 0x10325476, 0xc3d2e1f0]"

text \<open>Padding: a one bit, zeros, and the length in bits as eight bytes, big endian.\<close>

definition fips_pad :: "u8 list \<Rightarrow> u8 list" where
  "fips_pad m = m @ [0x80] @ replicate ((119 - length m mod 64) mod 64) 0 @ rev (to_le 8 (of_nat (8 * length m) :: u64))"

definition fips_sha1 :: "u8 list \<Rightarrow> u8 list" where
  "fips_sha1 m = concat (map (\<lambda>w. rev (to_le 4 w)) (fips_blocks H0 (fips_pad m)))"

end
