(* ===== verification/Sha1_Correct.thy ===== *)
theory Sha1_Correct
  imports Libc_Sha1
begin

text \<open>
  That the code of \<open>libc-sha1.c\<close> computes SHA-1: one block, then the message in pieces, then the
  padding.
\<close>

section \<open>One block\<close>

subsection \<open>Bit identities\<close>

lemma rol_ROTL: "rol v n = ROTL n v"
  by (simp add: rol_def ROTL_def)

lemma Ch_code: "(w AND (x XOR y)) XOR y = Ch w x y" for w x y :: u32
  by (rule bit_word_eqI) (auto simp: Ch_def bit_simps)

lemma Maj_code: "((w OR x) AND y) OR (w AND x) = Maj w x y" for w x y :: u32
  by (rule bit_word_eqI) (auto simp: Maj_def bit_simps)

lemma Parity_code: "(w XOR x) XOR y = Parity w x y" for w x y :: u32
  by (simp add: Parity_def ac_simps)

subsection \<open>The working variables\<close>

lemma rotated_index: "(j + 4 * i) mod 5 = (j + 4 * (i mod 5)) mod 5" for i j :: nat
  by (metis mod_add_right_eq mod_mult_right_eq)

lemma R_op_step:
  fixes f :: "u32 \<Rightarrow> u32 \<Rightarrow> u32 \<Rightarrow> u32" and k :: u32
  assumes r: "length r = 5" and h: "h = [a, b, c, d, e]" and rh: "\<forall>j<5. r ! ((j + 4 * i) mod 5) = h ! j"
    and bk: "bk l i = (m, l')"
  defines "res \<equiv> R_op f bk k ((0 + 4 * i) mod 5) ((1 + 4 * i) mod 5) ((2 + 4 * i) mod 5) ((3 + 4 * i) mod 5)
    ((4 + 4 * i) mod 5) i (r, l)"
  shows "snd res = l' \<and> length (fst res) = 5 \<and>
    (\<forall>j<5. fst res ! ((j + 4 * Suc i) mod 5) = [ROTL 5 a + f b c d + e + k + m, a, ROTL 30 b, c, d] ! j)"
proof -
  define q where "q = i mod 5"
  have q: "q < 5" unfolding q_def by simp
  have ix: "(j + 4 * i) mod 5 = (j + 4 * q) mod 5" "(j + 4 * Suc i) mod 5 = (j + 4 + 4 * q) mod 5" for j
    unfolding q_def using rotated_index [of j i] rotated_index [of "j + 4" i] by (simp_all add: add.assoc)
  obtain r0 r1 r2 r3 r4 where rr: "r = [r0, r1, r2, r3, r4]"
    using r by (auto simp: length_Suc_conv eval_nat_numeral)
  have five: "(\<forall>j<5. P j) \<longleftrightarrow> P 0 \<and> P 1 \<and> P 2 \<and> P 3 \<and> P (4::nat)" for P
    by (auto simp: eval_nat_numeral less_Suc_eq)
  note rh' = rh [unfolded ix five]
  from q consider "q = 0" | "q = 1" | "q = 2" | "q = 3" | "q = 4" by linarith
  then show ?thesis
    unfolding res_def ix five using rh'
    by cases (simp_all add: R_op_def bk rr h rol_ROTL ac_simps)
qed

subsection \<open>The message words\<close>

lemma byte_masks:
  assumes "i < 32"
  shows "bit (0xFF00FF00 :: u32) i \<longleftrightarrow> odd (i div 8)" "bit (0x00FF00FF :: u32) i \<longleftrightarrow> even (i div 8)"
proof -
  have "\<forall>i\<in>set [0..<32]. bit (0xFF00FF00 :: u32) i = odd (i div 8) \<and> bit (0x00FF00FF :: u32) i = even (i div 8)"
    by code_simp
  then show "bit (0xFF00FF00 :: u32) i \<longleftrightarrow> odd (i div 8)" "bit (0x00FF00FF :: u32) i \<longleftrightarrow> even (i div 8)"
    using assms by (simp_all del: upt_conv_Cons)
qed

lemma swap_bytes:
  "(rol (le_word [a, b, c, d]) 24 AND 0xFF00FF00) OR (rol (le_word [a, b, c, d]) 8 AND 0x00FF00FF)
     = (le_word [d, c, b, a] :: u32)"
proof (rule bit_word_eqI)
  fix i assume "i < LENGTH(32)"
  then have i: "i < 32" by simp
  define q s where "q = i div 8" and "s = i mod 8"
  have qs: "i = 8 * q + s" "s < 8" unfolding q_def s_def by simp_all
  then have "q < 4" using i by linarith
  have bytes: "(8 + s) div 8 = 1" "(16 + s) div 8 = 2" "(24 + s) div 8 = 3"
    "(8 + s) mod 8 = s" "(16 + s) mod 8 = s" "(24 + s) mod 8 = s" using qs(2) by presburger+
  from \<open>q < 4\<close> consider "q = 0" | "q = 1" | "q = 2" | "q = 3" by linarith
  then show "bit ((rol (le_word [a, b, c, d]) 24 AND 0xFF00FF00) OR (rol (le_word [a, b, c, d]) 8 AND 0x00FF00FF)) i
     \<longleftrightarrow> bit (le_word [d, c, b, a] :: u32) i"
    using qs i byte_masks [OF i]
    by cases (simp_all add: rol_def bit_simps bit_le_word bytes del: le_word.simps)
qed

lemma length_schedule [simp]: "length (schedule b n) = 16 + n"
  by (induction n) (simp_all add: next_word_def)

lemma schedule_extend: "t < 16 + n \<Longrightarrow> schedule b (n + k) ! t = schedule b n ! t"
  by (induction k) (simp_all add: next_word_def nth_append)

lemma schedule_rec:
  assumes "n < k"
  shows "schedule b k ! (16 + n)
    = ROTL 1 (schedule b k ! (n + 13) XOR schedule b k ! (n + 8) XOR schedule b k ! (n + 2) XOR schedule b k ! n)"
proof -
  obtain j where "k = Suc n + j" using assms less_iff_Suc_add by (metis add_Suc)
  then have old: "schedule b k ! t = schedule b n ! t" if "t < 16 + n" for t
    using schedule_extend [of t n b "Suc j"] that by simp
  have "schedule b k ! (16 + n) = schedule b (Suc n) ! (16 + n)"
    using schedule_extend [of "16 + n" "Suc n" b j] \<open>k = _\<close> by (simp del: schedule.simps)
  also have "\<dots> = ROTL 1 (schedule b n ! (n + 13) XOR schedule b n ! (n + 8) XOR schedule b n ! (n + 2) XOR schedule b n ! n)"
    by (simp add: next_word_def nth_append)
  finally show ?thesis by (simp add: old)
qed

lemma four_bytes:
  assumes "i < 16" "length b = 64"
  obtains p q r s where "take 4 (drop (4 * i) b) = [p, q, r, s]"
proof -
  define xs where "xs = take 4 (drop (4 * i) b)"
  have "length xs = 4" using assms unfolding xs_def by simp
  then obtain p q r s where "xs = [p, q, r, s]"
    by (auto simp: length_Suc_conv eval_nat_numeral)
  then show thesis using that unfolding xs_def by blast
qed

lemma blk0_schedule:
  assumes i: "i < 16" and b: "length b = 64" and l: "l ! i = block_words b ! i"
  shows "blk0 l i = (schedule b 64 ! i, l[i mod 16 := schedule b 64 ! i])"
proof -
  obtain p q r s where e: "take 4 (drop (4 * i) b) = [p, q, r, s]" using four_bytes [OF i b] .
  have "schedule b 64 ! i = le_word [s, r, q, p]"
    using schedule_extend [of i 0 b 64] i e by (simp del: upt.simps)
  moreover have "l ! i = le_word [p, q, r, s]" using l i e by (simp add: block_words_def del: upt.simps)
  ultimately show ?thesis
    using i unfolding blk0_def Let_def by (simp only: swap_bytes mod_less)
qed

text \<open>The sixteen words after \<open>i\<close> lines: the last sixteen of the schedule, or the words of the block still to come.\<close>

definition window :: "u8 list \<Rightarrow> nat \<Rightarrow> u32 list \<Rightarrow> bool" where
  "window b i l \<longleftrightarrow> length l = 16 \<and> (\<forall>t<i. i \<le> t + 16 \<longrightarrow> l ! (t mod 16) = schedule b 64 ! t)
     \<and> (\<forall>t<16. i \<le> t \<longrightarrow> l ! t = block_words b ! t)"

lemma window_start: "window b 0 (block_words b)"
  by (simp add: window_def block_words_def)

lemma window_step:
  assumes "window b i l"
  shows "window b (Suc i) (l[i mod 16 := schedule b 64 ! i])"
proof -
  have "l[i mod 16 := schedule b 64 ! i] ! (t mod 16) = schedule b 64 ! t"
    if "t < Suc i" "Suc i \<le> t + 16" for t
  proof (cases "t = i")
    case False
    then have "t < i" "i - t < 16" "0 < i - t" using that by linarith+
    then have "\<not> 16 dvd (i - t)" by (auto dest: dvd_imp_le)
    then have "i mod 16 \<noteq> t mod 16" using \<open>t < i\<close> by (metis mod_eq_dvd_iff_nat less_imp_le)
    then show ?thesis using assms that \<open>t < i\<close> by (simp add: window_def)
  qed (use assms in \<open>simp add: window_def\<close>)
  moreover have "l[i mod 16 := schedule b 64 ! i] ! t = block_words b ! t" if "t < 16" "Suc i \<le> t" for t
    using assms that by (simp add: window_def)
  ultimately show ?thesis using assms by (simp add: window_def)
qed

lemma blk_schedule:
  assumes w: "window b i l" and i: "16 \<le> i" "i < 80"
  shows "blk l i = (schedule b 64 ! i, l[i mod 16 := schedule b 64 ! i])"
proof -
  obtain n where n: "i = 16 + n" "n < 64" using i by (auto simp: le_iff_add)
  have m: "(16 + n + k) mod 16 = (n + k) mod 16" "(16 + n) mod 16 = n mod 16" for k by (simp_all add: add.assoc)
  have old: "l ! (t mod 16) = schedule b 64 ! t" if "n \<le> t" "t < 16 + n" for t
    using w that n by (simp add: window_def)
  have "l ! ((i + 13) mod 16) = schedule b 64 ! (n + 13)" "l ! ((i + 8) mod 16) = schedule b 64 ! (n + 8)"
    "l ! ((i + 2) mod 16) = schedule b 64 ! (n + 2)" "l ! (i mod 16) = schedule b 64 ! n"
    using old [of "n + 13"] old [of "n + 8"] old [of "n + 2"] old [of n] unfolding n(1) m by simp_all
  then show ?thesis
    using schedule_rec [OF n(2), of b] n unfolding blk_def Let_def by (simp add: rol_ROTL)
qed

subsection \<open>The eighty lines\<close>

definition rotated :: "nat \<Rightarrow> u32 list \<Rightarrow> u32 list \<Rightarrow> bool" where
  "rotated i r h \<longleftrightarrow> length r = 5 \<and> length h = 5 \<and> (\<forall>j<5. r ! ((j + 4 * i) mod 5) = h ! j)"

lemma rotated_length: "rotated i r h \<Longrightarrow> length h = 5"
  by (simp add: rotated_def)

lemma sha_line_R_op:
  assumes "i < 80"
  shows "sha_line i = R_op (fips_f i) (if i < 16 then blk0 else blk) (fips_K i)
     ((0 + 4 * i) mod 5) ((1 + 4 * i) mod 5) ((2 + 4 * i) mod 5) ((3 + 4 * i) mod 5) ((4 + 4 * i) mod 5) i"
proof -
  have f: "(\<lambda>w x y. (w AND (x XOR y)) XOR y) = Ch" "(\<lambda>w x y. (w XOR x) XOR y) = Parity"
    "(\<lambda>w x y. ((w OR x) AND y) OR (w AND x)) = Maj"
    by (simp_all only: Ch_code Parity_code Maj_code)
  show ?thesis
    unfolding sha_line_def R0_def R1_def R2_def R3_def R4_def f fips_f_def fips_K_def by auto
qed

lemma sha_line_step:
  assumes b: "length b = 64" and i: "i < 80" and w: "window b i l" and r: "rotated i r h"
  shows "window b (Suc i) (snd (sha_line i (r, l)))"
    and "rotated (Suc i) (fst (sha_line i (r, l))) (fips_step (schedule b 64) h i)"
proof -
  let ?bk = "if i < 16 then blk0 else blk" and ?W = "schedule b 64"
  have bk: "?bk l i = (?W ! i, l[i mod 16 := ?W ! i])"
    using blk0_schedule [of i b l] blk_schedule [of b i l] b w i by (auto simp: window_def)
  obtain a2 b2 c2 d2 e2 where h: "h = [a2, b2, c2, d2, e2]"
    using rotated_length [OF r] by (auto simp: length_Suc_conv eval_nat_numeral)
  note step = R_op_step [where bk = ?bk and f = "fips_f i" and k = "fips_K i", OF _ h _ bk, of r,
      folded sha_line_R_op [OF i]]
  have "snd (sha_line i (r, l)) = l[i mod 16 := ?W ! i]" using step r by (simp add: rotated_def)
  then show "window b (Suc i) (snd (sha_line i (r, l)))" using window_step [OF w] by simp
  show "rotated (Suc i) (fst (sha_line i (r, l))) (fips_step (schedule b 64) h i)"
    using step r unfolding rotated_def by (simp add: h)
qed

lemma sha_lines:
  assumes b: "length b = 64" and s: "length s = 5" and n: "n \<le> 80"
  defines "res \<equiv> foldl (\<lambda>s i. sha_line i s) (s, block_words b) [0..<n]"
  shows "window b n (snd res) \<and> rotated n (fst res) (foldl (fips_step (schedule b 64)) s [0..<n])"
  using n unfolding res_def
proof (induction n)
  case 0
  then show ?case using s by (simp add: window_start rotated_def)
next
  case (Suc n)
  then show ?case
    using sha_line_step [OF b, of n "snd (foldl (\<lambda>s i. sha_line i s) (s, block_words b) [0..<n])"
        "fst (foldl (\<lambda>s i. sha_line i s) (s, block_words b) [0..<n])"
        "foldl (fips_step (schedule b 64)) s [0..<n]"] by simp
qed

lemma SHA1Transform_eq:
  assumes "length state = 5" "length b = 64"
  shows "SHA1Transform state b = fips_compress state b"
proof -
  let ?res = "foldl (\<lambda>s i. sha_line i s) (state, block_words b) [0..<80]"
  let ?h = "foldl (fips_step (schedule b 64)) state [0..<80]"
  have home: "(j + 4 * 80) mod 5 = j" if "j < 5" for j :: nat using that by presburger
  have "rotated 80 (fst ?res) ?h" using sha_lines [OF assms(2,1), of 80] by blast
  then have h: "length ?h = 5" "\<forall>j<5. fst ?res ! j = ?h ! j"
    unfolding rotated_def using home by metis+
  have "SHA1Transform state b = map (\<lambda>i. state ! i + fst ?res ! i) [0..<5]"
    unfolding SHA1Transform_def by (simp only: case_prod_unfold Let_def)
  also have "\<dots> = map2 (+) state ?h"
    using h assms by (intro nth_equalityI) (simp_all del: upt_rec_numeral upt_conv_Cons)
  finally show ?thesis by (simp only: fips_compress_def)
qed

lemma length_fips_compress [simp]:
  assumes "length H = 5" shows "length (fips_compress H b) = 5"
proof -
  have "length (fips_step W h t) = length h" for W h t
    by (cases "(W, h, t)" rule: fips_step.cases) simp_all
  then have "length (foldl (fips_step W) H ts) = length H" for W H ts
    by (induction ts arbitrary: H) simp_all
  then show ?thesis using assms by (simp add: fips_compress_def del: upt_rec_numeral upt_conv_Cons)
qed

section \<open>The message in pieces\<close>

lemma fips_blocks_short: "length m < 64 \<Longrightarrow> fips_blocks H m = H"
  by (simp add: fips_blocks.simps)

lemma fips_blocks_append:
  "64 dvd length xs \<Longrightarrow> fips_blocks H (xs @ ys) = fips_blocks (fips_blocks H xs) ys"
proof (induction H xs rule: fips_blocks.induct)
  case (1 H m)
  show ?case
  proof (cases "length m < 64")
    case True
    then have "m = []" using 1 by (auto dest: dvd_imp_le)
    then show ?thesis by (simp add: fips_blocks_short)
  next
    case False
    then have "64 dvd length (drop 64 m)" using 1(2) by (simp add: dvd_diff_nat)
    then show ?thesis using 1(1) False fips_blocks.simps [of H m] fips_blocks.simps [of H "m @ ys"] by simp
  qed
qed

lemma fips_blocks_one: "length b = 64 \<Longrightarrow> fips_blocks H b = fips_compress H b"
  using fips_blocks.simps [of H b] by (simp add: fips_blocks_short)

lemma length_fips_blocks [simp]: "length H = 5 \<Longrightarrow> length (fips_blocks H m) = 5"
proof (induction H m rule: fips_blocks.induct)
  case (1 H m)
  then show ?case using fips_blocks.simps [of H m] by simp
qed

lemma update_loop_correct:
  assumes "unat i \<le> unat len" "unat len + 64 < 2 ^ 32" "unat len \<le> length data" "length state = 5"
  shows "\<exists>B R i'. drop (unat i) (take (unat len) data) = B @ R \<and> 64 dvd length B \<and> length R < 64 \<and>
    update_loop state data i len = Some (fips_blocks state B, i') \<and> unat i' = unat i + length B"
  using assms
proof (induction "unat len - unat i" arbitrary: i state rule: less_induct)
  case less
  have plus: "unat (i + k) = unat i + unat k" if "unat k \<le> 64" for k
    using less.prems that by (simp add: unat_plus_if_size word_size)
  have cond: "i + 63 < len \<longleftrightarrow> unat i + 64 \<le> unat len" by (simp add: word_less_nat_alt plus) linarith
  show ?case
  proof (cases "i + 63 < len")
    case False
    then have "length (drop (unat i) (take (unat len) data)) < 64"
      using cond less.prems by simp
    then show ?thesis using False
      by (intro exI [of _ "[]"] exI [of _ "drop (unat i) (take (unat len) data)"] exI [of _ i])
        (simp add: update_loop.simps fips_blocks_short)
  next
    case True
    then have u: "unat i + 64 \<le> unat len" using cond by simp
    define b where "b = take 64 (drop (unat i) data)"
    have b: "length b = 64" "bytes_at data (unat i) 64 = Some b"
      using u less.prems unfolding b_def by (simp_all add: bytes_at_def)
    have p64: "unat (i + 64) = unat i + 64" using plus [of 64] by simp
    have head: "drop (unat i) (take (unat len) data) = b @ drop (unat (i + 64)) (take (unat len) data)"
      using append_take_drop_id [of 64 "drop (unat i) (take (unat len) data)", symmetric] u p64
      unfolding b_def by (simp add: drop_take min_def add.commute [of 64 "unat i"])
    obtain B R i' where BR: "drop (unat (i + 64)) (take (unat len) data) = B @ R" "64 dvd length B" "length R < 64"
      "update_loop (fips_compress state b) data (i + 64) len = Some (fips_blocks (fips_compress state b) B, i')"
      "unat i' = unat (i + 64) + length B"
      using less.hyps [OF _ _ less.prems(2,3) length_fips_compress [OF less.prems(4)], of "i + 64" b] u p64 by fastforce
    have "update_loop state data i len = Some (fips_blocks state (b @ B), i')"
      using True b less.prems BR(4)
      by (simp add: update_loop.simps [of state] SHA1Transform_eq fips_blocks_append fips_blocks_one)
    then show ?thesis
      using head BR b plus [of 64] by (intro exI [of _ "b @ B"] exI [of _ R] exI [of _ i']) simp
  qed
qed

text \<open>The context after the message \<open>xs\<close>: the counters hold its length in bits, modulo $2^{64}$.\<close>

definition ctx_for :: "u8 list \<Rightarrow> SHA1_CTX \<Rightarrow> bool" where
  "ctx_for xs ctx \<longleftrightarrow> (\<exists>F T. xs = F @ T \<and> 64 dvd length F \<and> length T < 64 \<and> sha_state ctx = fips_blocks H0 F \<and>
     length (sha_buffer ctx) = 64 \<and> take (length T) (sha_buffer ctx) = T)
     \<and> sha_count0 ctx = of_nat (8 * length xs) \<and> sha_count1 ctx = of_nat (8 * length xs div 2 ^ 32)"

lemma length_H0 [simp]: "length H0 = 5"
  by (simp add: H0_def)

lemma ctx_for_init: "length (sha_buffer stack) = 64 \<Longrightarrow> ctx_for [] (SHA1Init stack)"
  by (simp add: ctx_for_def SHA1Init_def fips_blocks_short H0_def)

lemma count_place: "unat (drop_bit 3 (of_nat (8 * n)) AND 63 :: u32) = n mod 64"
proof -
  have "unat (drop_bit 3 (of_nat (8 * n)) AND 63 :: u32) = (8 * n mod 2 ^ 32) div 8 mod 64"
    using take_bit_eq_mask [of 6 "drop_bit 3 (of_nat (8 * n)) :: u32", symmetric]
    by (simp add: mask_eq_exp_minus_1 take_bit_eq_mod drop_bit_eq_div unat_mod unat_div unat_of_nat
        del: of_nat_mult)
  also have "\<dots> = n mod 2 ^ 29 mod 64"
    using mult_mod_right [of 8 n "2 ^ 29", symmetric] by simp
  also have "\<dots> = n mod 64" by (rule mod_mod_cancel) simp
  finally show ?thesis .
qed

lemma count_low: "of_nat (8 * n) + push_bit 3 len = (of_nat (8 * (n + unat len)) :: u32)"
  by (simp add: push_bit_eq_mult algebra_simps)

lemma add_carry:
  fixes M a c :: nat
  assumes "0 < M"
  shows "(a + c) div M = a div M + (if (a + c) mod M < a mod M then 1 else 0) + c div M"
proof -
  let ?x = "a mod M" and ?y = "c mod M"
  have lt: "?x < M" "?y < M" using assms by simp_all
  have m: "(a + c) mod M = (?x + ?y) mod M" by (simp add: mod_simps)
  have d: "(a + c) div M = a div M + c div M + (?x + ?y) div M" by (rule div_add1_eq)
  show ?thesis
  proof (cases "?x + ?y < M")
    case False
    moreover have "?x + ?y - M < M" using lt by linarith
    ultimately have "(?x + ?y) mod M = ?x + ?y - M" "(?x + ?y) div M = 1"
      using assms by (simp_all add: le_mod_geq le_div_geq)
    then show ?thesis using m d lt False by simp
  qed (use m d in simp)
qed

lemma count_high:
  fixes len :: u32
  shows "of_nat (8 * n div 2 ^ 32) + (if of_nat (8 * (n + unat len)) < (of_nat (8 * n) :: u32) then 1 else 0) + drop_bit 29 len
    = (of_nat (8 * (n + unat len) div 2 ^ 32) :: u32)"
proof -
  define a c where "a = 8 * n" and "c = 8 * unat len"
  have len: "unat len < 2 ^ 32" using unsigned_less [of len] by simp
  have d: "drop_bit 29 len = of_nat (c div 2 ^ 32)"
    unfolding c_def using unat_drop_bit_eq [of 29 len] len
    by (simp add: drop_bit_eq_div word_unat_eq_iff unat_of_nat less_mult_imp_div_less)
  have "of_nat (a + c) < (of_nat a :: u32) \<longleftrightarrow> (a + c) mod 2 ^ 32 < a mod 2 ^ 32"
    by (simp add: word_less_nat_alt unat_of_nat del: of_nat_add)
  moreover note add_carry [of "2 ^ 32" a c]
  ultimately show ?thesis using d by (simp add: a_def c_def algebra_simps)
qed

lemma unat_small: "n < 2 ^ 32 \<Longrightarrow> unat (of_nat n :: u32) = n"
  by (simp add: unat_of_nat)

definition counted :: "nat \<Rightarrow> SHA1_CTX \<Rightarrow> SHA1_CTX" where
  "counted n ctx = ctx\<lparr>sha_count0 := of_nat (8 * n), sha_count1 := of_nat (8 * n div 2 ^ 32)\<rparr>"

lemma SHA1Update_counted:
  assumes c: "ctx_for xs ctx"
  shows "SHA1Update ctx data len = (let ctx = counted (length xs + unat len) ctx; j = of_nat (length xs mod 64) in do {
     (ctx, i, j) \<leftarrow> (if j + len > 63 then do {
         xs \<leftarrow> bytes_at data 0 (unat (64 - j));
         buf \<leftarrow> copy_into (sha_buffer ctx) (unat j) xs;
         (state, i) \<leftarrow> update_loop (SHA1Transform (sha_state ctx) buf) data (64 - j) len;
         Some (ctx\<lparr>sha_buffer := buf, sha_state := state\<rparr>, i, 0)
       } else Some (ctx, 0, j));
     xs \<leftarrow> bytes_at data (unat i) (unat (len - i));
     buf \<leftarrow> copy_into (sha_buffer ctx) (unat j) xs;
     Some (ctx\<lparr>sha_buffer := buf\<rparr>)
   })"
proof -
  have j: "drop_bit 3 (sha_count0 ctx) AND 63 = of_nat (length xs mod 64)"
  proof -
    have c0: "sha_count0 ctx = of_nat (8 * length xs)" using c by (simp add: ctx_for_def)
    have lt: "length xs mod 64 < 2 ^ 32" by (rule less_le_trans [of _ 64]) simp_all
    show ?thesis using lt unfolding c0 word_unat_eq_iff by (simp only: count_place unat_small)
  qed
  have "(if sha_count0 ctx + push_bit 3 len < sha_count0 ctx then sha_count1 ctx + 1 else sha_count1 ctx) + drop_bit 29 len
      = of_nat (8 * (length xs + unat len) div 2 ^ 32)"
    "sha_count0 ctx + push_bit 3 len = of_nat (8 * (length xs + unat len))"
    using c count_high [of "length xs" len] count_low [of "length xs" len] unfolding ctx_for_def by (simp_all split: if_splits)
  then show ?thesis
    unfolding SHA1Update_def Let_def j counted_def
    by (cases ctx) (auto split: if_splits simp del: of_nat_mult)
qed

lemma ctx_forI:
  assumes "xs = F @ T" "64 dvd length F" "length T < 64" "sha_state ctx = fips_blocks H0 F"
    "length (sha_buffer ctx) = 64" "take (length T) (sha_buffer ctx) = T"
    "sha_count0 ctx = of_nat (8 * n)" "sha_count1 ctx = of_nat (8 * n div 2 ^ 32)" "n = length xs"
  shows "ctx_for xs ctx"
  unfolding ctx_for_def using assms by (intro conjI exI [of _ F] exI [of _ T]) blast+

lemma counted_simps [simp]:
  "sha_count0 (counted n ctx) = of_nat (8 * n)" "sha_count1 (counted n ctx) = of_nat (8 * n div 2 ^ 32)"
  "sha_state (counted n ctx) = sha_state ctx" "sha_buffer (counted n ctx) = sha_buffer ctx"
  by (simp_all add: counted_def)

lemma SHA1Update_correct:
  assumes c: "ctx_for xs ctx" and len: "unat len + 64 < 2 ^ 32" "unat len \<le> length data"
  shows "\<exists>ctx'. SHA1Update ctx data len = Some ctx' \<and> ctx_for (xs @ take (unat len) data) ctx'"
proof -
  obtain F T where FT: "xs = F @ T" "64 dvd length F" "length T < 64" "sha_state ctx = fips_blocks H0 F"
    "length (sha_buffer ctx) = 64" "take (length T) (sha_buffer ctx) = T"
    using c unfolding ctx_for_def by blast
  define j n where "j = length T" and "n = unat len"
  have jx: "length xs mod 64 = j" using FT by (auto simp: j_def)
  have j: "j < 64" using FT j_def by simp
  have uj: "unat (of_nat j :: u32) = j" using j by (simp add: unat_small)
  have ujl: "unat (of_nat j + len) = j + n" "63 < of_nat j + len \<longleftrightarrow> 63 < j + n"
    using j len uj by (simp_all add: unat_plus_if_size word_size word_less_nat_alt n_def)
  let ?buf = "\<lambda>d. take j (sha_buffer ctx) @ d @ drop (j + length d) (sha_buffer ctx)"
  show ?thesis
  proof (cases "j + n \<le> 63")
    case True
    have "SHA1Update ctx data len = Some ((counted (length xs + n) ctx)\<lparr>sha_buffer := ?buf (take n data)\<rparr>)"
      using True len FT ujl uj unfolding SHA1Update_counted [OF c] Let_def jx n_def [symmetric]
      by (simp add: bytes_at_def copy_into_def counted_def n_def)
    moreover have "ctx_for (F @ T @ take n data) ((counted (length xs + n) ctx)\<lparr>sha_buffer := ?buf (take n data)\<rparr>)"
      by (rule ctx_forI [where F = F and T = "T @ take n data" and n = "length xs + n"])
        (use True FT len in \<open>simp_all add: j_def n_def\<close>)
    ultimately show ?thesis using FT(1) n_def by simp
  next
    case False
    define d where "d = take (64 - j) data"
    have d: "length d = 64 - j" using False len by (simp add: d_def n_def)
    have u64: "unat (64 - of_nat j :: u32) = 64 - j" using j uj by (simp add: unat_sub word_le_nat_alt)
    define buf where "buf = T @ d"
    have buf: "length buf = 64" "?buf d = buf" using d FT j by (simp_all add: buf_def j_def)
    obtain B R i' where BR: "drop (64 - j) (take n data) = B @ R" "64 dvd length B" "length R < 64"
      "update_loop (fips_compress (fips_blocks H0 F) buf) data (64 - of_nat j) len
         = Some (fips_blocks (fips_compress (fips_blocks H0 F) buf) B, i')" "unat i' = 64 - j + length B"
      using update_loop_correct [of "64 - of_nat j" len data "fips_compress (fips_blocks H0 F) buf"] False len
      unfolding u64 n_def by fastforce
    have all: "take n data = d @ B @ R"
    proof -
      have "64 - j \<le> n" using False by linarith
      then show ?thesis using append_take_drop_id [of "64 - j" "take n data"] BR(1) by (simp add: d_def min_def)
    qed
    then have "length (take n data) = length d + length B + length R" by simp
    then have lR: "n = unat i' + length R" using BR(5) d len(2) unfolding n_def by simp
    have state: "fips_blocks (fips_compress (fips_blocks H0 F) buf) B = fips_blocks H0 (F @ buf @ B)"
      using FT(2) buf(1) by (simp add: fips_blocks_append fips_blocks_one)
    have rest: "take (length R) (drop (unat i') data) = R"
      using arg_cong [OF all, of "drop (unat i')"] BR(5) d lR by (simp add: drop_take)
    have ul: "unat (len - i') = length R" using lR by (simp add: unat_sub word_le_nat_alt n_def)
    let ?ctx' = "(counted (length xs + n) ctx)\<lparr>sha_state := fips_blocks H0 (F @ buf @ B), sha_buffer := R @ drop (length R) buf\<rparr>"
    have steps: "63 < of_nat j + len" "bytes_at data 0 (unat (64 - of_nat j :: u32)) = Some d"
      "copy_into (sha_buffer ctx) (unat (of_nat j :: u32)) d = Some buf"
      "SHA1Transform (sha_state ctx) buf = fips_compress (fips_blocks H0 F) buf"
      using False ujl u64 uj d FT buf len j by (simp_all add: bytes_at_def copy_into_def SHA1Transform_eq d_def n_def)
    have last: "bytes_at data (unat i') (unat (len - i')) = Some R" "copy_into buf 0 R = Some (R @ drop (length R) buf)"
      using ul rest lR len BR(3) buf by (simp_all add: bytes_at_def copy_into_def n_def)
    have "SHA1Update ctx data len = Some ?ctx'"
      unfolding SHA1Update_counted [OF c] Let_def jx n_def [symmetric]
      by (simp add: steps last BR(4) state counted_def)
    moreover have "ctx_for ((F @ buf @ B) @ R) ?ctx'"
      by (rule ctx_forI [where F = "F @ buf @ B" and T = R and n = "length xs + n"])
        (use FT BR buf d lR j in \<open>simp_all add: dvd_add j_def\<close>)
    ultimately show ?thesis using FT(1) all by (simp add: buf_def flip: n_def)
  qed
qed

section \<open>The padding and the digest\<close>

lemma append_one:
  assumes "ctx_for xs ctx"
  obtains ctx' where "SHA1Update ctx [c] 1 = Some ctx'" "ctx_for (xs @ [c]) ctx'"
  using SHA1Update_correct [OF assms, of 1 "[c]"] by auto

lemma and_504: "x AND 504 = push_bit 3 (drop_bit 3 x AND 63)" for x :: u32
proof -
  have "(504 :: u32) = push_bit 3 (mask 6)" "(63 :: u32) = mask 6" by (simp_all add: mask_eq_exp_minus_1)
  then have "x AND 504 = x AND push_bit 3 (mask 6)" "drop_bit 3 x AND 63 = drop_bit 3 x AND mask 6" by simp_all
  moreover have "x AND push_bit 3 (mask 6) = push_bit 3 (drop_bit 3 x AND mask 6)"
    by (rule bit_word_eqI) (auto simp: bit_push_bit_iff bit_and_iff bit_drop_bit_eq bit_mask_iff)
  ultimately show ?thesis by (simp only:)
qed

lemma padded_place:
  assumes "ctx_for xs ctx"
  shows "sha_count0 ctx AND 504 = 448 \<longleftrightarrow> length xs mod 64 = 56"
proof -
  define y where "y = drop_bit 3 (sha_count0 ctx) AND 63"
  have "sha_count0 ctx = of_nat (8 * length xs)" using assms by (simp add: ctx_for_def)
  then have y: "unat y = length xs mod 64" unfolding y_def by (simp only: count_place)
  then have "unat (push_bit 3 y) = 8 * (length xs mod 64)"
    by (simp add: push_bit_eq_mult unat_word_ariths)
  then show ?thesis unfolding and_504 y_def [symmetric] by (simp add: word_unat_eq_iff)
qed

definition pad_zeros :: "nat \<Rightarrow> nat" where
  "pad_zeros n = (120 - n mod 64) mod 64"

lemma pad_zeros_eq: "pad_zeros n = (if n mod 64 \<le> 56 then 56 - n mod 64 else 120 - n mod 64)"
proof -
  define m where "m = n mod 64"
  have "(120 - m) mod 64 = 56 - m" if "m \<le> 56"
  proof -
    have "120 - m = 64 + (56 - m)" using that by simp
    then have "(120 - m) mod 64 = (56 - m) mod 64" by (simp only: mod_add_self1)
    also have "\<dots> = 56 - m" by (rule mod_less) simp
    finally show ?thesis .
  qed
  moreover have "(120 - m) mod 64 = 120 - m" if "\<not> m \<le> 56" using that by simp
  ultimately show ?thesis unfolding pad_zeros_def m_def [symmetric] by simp
qed

lemma pad_zeros_Suc:
  assumes "pad_zeros n = Suc k" shows "pad_zeros (Suc n) = k"
proof -
  have "Suc n mod 64 = (if n mod 64 = 63 then 0 else Suc (n mod 64))" by (simp add: mod_Suc)
  moreover have "n mod 64 < 64" by simp
  ultimately show ?thesis
    using assms unfolding pad_zeros_eq by (simp split: if_splits) linarith+
qed

lemma final_loop_correct:
  assumes "ctx_for xs ctx"
  shows "\<exists>ctx'. final_loop ctx = Some ctx' \<and> ctx_for (xs @ replicate (pad_zeros (length xs)) 0) ctx'"
  using assms
proof (induction "pad_zeros (length xs)" arbitrary: xs ctx)
  case 0
  then have "length xs mod 64 = 56" using mod_less_divisor [of 64 "length xs"] by (auto simp: pad_zeros_eq split: if_splits)
  then show ?case using 0 padded_place [OF 0(2)] by (simp add: final_loop.simps)
next
  case (Suc k)
  from Suc.hyps(2) have ne: "length xs mod 64 \<noteq> 56" unfolding pad_zeros_eq by force
  obtain ctx1 where one: "SHA1Update ctx [0] 1 = Some ctx1" "ctx_for (xs @ [0]) ctx1"
    using append_one [OF Suc.prems] .
  have k: "k = pad_zeros (length (xs @ [0 :: u8]))" using pad_zeros_Suc [OF Suc.hyps(2) [symmetric]] by simp
  obtain ctx' where "final_loop ctx1 = Some ctx'" "ctx_for ((xs @ [0]) @ replicate k 0) ctx'"
    using Suc.hyps(1) [OF k one(2)] k by auto
  then show ?case
    using one ne padded_place [OF Suc.prems] Suc.hyps(2) [symmetric] by (simp add: final_loop.simps [of ctx] replicate_app_Cons_same)
qed

lemma be_byte_bit: "bit (be_byte w i) k \<longleftrightarrow> k < 8 \<and> bit w ((3 - i mod 4) * 8 + k)"
proof -
  have "(255 :: u32) = mask 8" by (simp add: mask_eq_exp_minus_1)
  then have "be_byte w i = ucast (drop_bit ((3 - i mod 4) * 8) w AND mask 8)" by (simp only: be_byte_def)
  then show ?thesis by (auto simp only: bit_unsigned_iff bit_and_iff bit_mask_iff bit_drop_bit_eq o_def) (auto dest: bit_imp_le_length)
qed

lemma be_bytes_word: "map (be_byte w) [0..<4] = rev (to_le 4 w)"
proof (rule nth_equalityI)
  fix i assume "i < length (map (be_byte w) [0..<4])"
  then have i: "i < 4" by simp
  have "be_byte w i = ucast (drop_bit (8 * (3 - i)) w)"
    using i by (intro bit_word_eqI) (simp add: be_byte_bit bit_simps mult.commute)
  then show "map (be_byte w) [0..<4] ! i = rev (to_le 4 w) ! i"
    using i by (simp add: rev_nth nth_to_le del: upt.simps to_le.simps)
qed simp

lemma to_le_append: "to_le (m + n) w = to_le m w @ to_le n (drop_bit (8 * m) w)"
  by (induction m arbitrary: w) (simp_all add: drop_bit_drop_bit add.commute)

lemma to_le_ucast: "8 * n \<le> 32 \<Longrightarrow> to_le n (ucast w :: u32) = to_le n (w :: u64)"
  by (rule nth_equalityI) (auto simp: nth_to_le intro!: bit_word_eqI simp: bit_simps)

lemma low_half: "ucast (of_nat n :: u64) = (of_nat n :: u32)"
  by (simp add: unsigned_of_nat word_of_nat_eq_iff)

lemma high_half: "ucast (drop_bit 32 (of_nat n :: u64)) = (of_nat (n div 2 ^ 32) :: u32)"
proof -
  have "unat (drop_bit 32 (of_nat n :: u64)) = (n mod (2 ^ 32 * 2 ^ 32)) div 2 ^ 32"
    by (simp add: drop_bit_eq_div unat_div unat_of_nat)
  also have "\<dots> = n div 2 ^ 32 mod 2 ^ 32" unfolding mod_mult2_eq by simp
  finally show ?thesis by (simp add: word_unat_eq_iff unat_of_nat unsigned_ucast_eq unsigned_take_bit_eq take_bit_eq_mod)
qed

lemma be_bytes_count:
  assumes "ctx_for m ctx"
  shows "map (\<lambda>i. be_byte (if i \<ge> 4 then sha_count0 ctx else sha_count1 ctx) i) [0..<8]
    = rev (to_le 8 (of_nat (8 * length m) :: u64))"
proof -
  define w where "w = (of_nat (8 * length m) :: u64)"
  have c0: "sha_count0 ctx = ucast w"
    using assms unfolding w_def ctx_for_def by (simp only: low_half)
  have c1: "sha_count1 ctx = ucast (drop_bit 32 w)"
    using assms unfolding w_def ctx_for_def by (simp only: high_half)
  have "map (\<lambda>i. be_byte (if i \<ge> 4 then sha_count0 ctx else sha_count1 ctx) i) [0..<8]
      = map (be_byte (sha_count1 ctx)) [0..<4] @ map (be_byte (sha_count0 ctx)) [0..<4]"
    by (simp add: be_byte_def upt_rec)
  also have "\<dots> = rev (to_le 4 w @ to_le 4 (drop_bit 32 w))"
    unfolding be_bytes_word c0 c1 by (simp add: to_le_ucast del: to_le.simps)
  finally show ?thesis using to_le_append [of 4 4 w] unfolding w_def by simp
qed

lemma digest_bytes:
  assumes "length st = 5"
  shows "map (\<lambda>i. be_byte (st ! (i div 4)) i) [0..<20] = concat (map (\<lambda>w. rev (to_le 4 w)) st)"
proof -
  obtain a b c d e where "st = [a, b, c, d, e]" using assms by (auto simp: length_Suc_conv eval_nat_numeral)
  then show ?thesis unfolding be_bytes_word [symmetric] by (simp add: be_byte_def upt_rec)
qed

lemma fips_pad_zeros: "fips_pad m = m @ [0x80] @ replicate (pad_zeros (Suc (length m))) 0
    @ rev (to_le 8 (of_nat (8 * length m) :: u64))"
proof -
  have "(119 - length m mod 64) mod 64 = pad_zeros (Suc (length m))"
  proof (cases "length m mod 64 = 63")
    case False
    then show ?thesis by (simp add: pad_zeros_def mod_Suc)
  qed (simp add: pad_zeros_def mod_Suc)
  then show ?thesis by (simp only: fips_pad_def)
qed

lemma length_fips_pad: "64 dvd length (fips_pad m)"
proof -
  have "(Suc (length m) + pad_zeros (Suc (length m))) mod 64 = 56"
  proof -
    define r where "r = Suc (length m) mod 64"
    have "r < 64" by (simp add: r_def)
    then have "(r + (if r \<le> 56 then 56 - r else 120 - r)) mod 64 = 56" by simp
    then show ?thesis unfolding pad_zeros_eq r_def by (simp only: mod_add_left_eq)
  qed
  then have "(Suc (length m) + pad_zeros (Suc (length m)) + 8) mod 64 = 0"
    using mod_add_left_eq [of "Suc (length m) + pad_zeros (Suc (length m))" 64 8, symmetric] by simp
  then show ?thesis unfolding fips_pad_zeros by (simp add: dvd_eq_mod_eq_0 ac_simps)
qed

lemma SHA1Final_correct:
  assumes c: "ctx_for m ctx"
  shows "SHA1Final ctx = Some (fips_sha1 m)"
proof -
  let ?fc = "map (\<lambda>i. be_byte (if i \<ge> 4 then sha_count0 ctx else sha_count1 ctx) i) [0..<8]"
  obtain c1 where c1: "SHA1Update ctx [0x80] 1 = Some c1" "ctx_for (m @ [0x80]) c1" using append_one [OF c] .
  obtain c2 where c2: "final_loop c1 = Some c2" "ctx_for ((m @ [0x80]) @ replicate (pad_zeros (Suc (length m))) 0) c2"
    using final_loop_correct [OF c1(2)] by auto
  obtain c3 where c3: "SHA1Update c2 ?fc 8 = Some c3" "ctx_for (fips_pad m) c3"
    using SHA1Update_correct [OF c2(2), of 8 ?fc] unfolding be_bytes_count [OF c] fips_pad_zeros
    by (auto simp del: to_le.simps)
  have "sha_state c3 = fips_blocks H0 (fips_pad m)"
    using c3(2) length_fips_pad [of m] unfolding ctx_for_def by (auto simp: fips_blocks_append fips_blocks_short)
  then show ?thesis
    unfolding SHA1Final_def Let_def fips_sha1_def
    by (simp add: c1 c2 c3 digest_bytes del: upt_rec_numeral upt_conv_Cons)
qed

lemma sha1_loop_correct:
  assumes "ctx_for (take ii str) ctx" "ii + k \<le> length str"
  shows "\<exists>ctx'. sha1_loop ctx str ii k = Some ctx' \<and> ctx_for (take (ii + k) str) ctx'"
  using assms
proof (induction k arbitrary: ii ctx)
  case (Suc k)
  obtain c1 where c1: "SHA1Update ctx [str ! ii] 1 = Some c1" "ctx_for (take ii str @ [str ! ii]) c1"
    using append_one [OF Suc.prems(1)] .
  then have "ctx_for (take (Suc ii) str) c1" using Suc.prems by (simp add: take_Suc_conv_app_nth)
  then show ?case using Suc.IH [of "Suc ii" c1] Suc.prems c1 by (simp add: arr_get_def)
qed simp

text \<open>
  C29. For a message \<open>str\<close>, a length \<open>len\<close> that does not exceed it and a context on the stack whose buffer has
  64 bytes, whatever they are, \<open>SHA1\<close> returns and \<open>hash_out\<close> holds the SHA-1 digest that FIPS 180-4 defines for the
  first \<open>len\<close> bytes (none for a negative \<open>len\<close>), followed by a zero byte.
\<close>

theorem sha1_correct:
  assumes "length (sha_buffer stack) = 64" "len \<le> int (length str)"
  shows "SHA1 stack str len = Some (fips_sha1 (take (nat len) str) @ [0])"
proof -
  obtain ctx where "sha1_loop (SHA1Init stack) str 0 (nat len) = Some ctx" "ctx_for (take (nat len) str) ctx"
    using sha1_loop_correct [of 0 str "SHA1Init stack" "nat len"] ctx_for_init [OF assms(1)] assms(2)
    by (auto simp: nat_le_iff)
  then show ?thesis by (simp add: SHA1_def SHA1Final_correct)
qed

theorem sha1_correct_witness:
  "SHA1 \<lparr>sha_state = [], sha_count0 = 0, sha_count1 = 0, sha_buffer = replicate 64 7\<rparr> [0x61, 0x62, 0x63, 0x64] 3
     = Some (fips_sha1 [0x61, 0x62, 0x63] @ [0])"
  using sha1_correct [of "\<lparr>sha_state = [], sha_count0 = 0, sha_count1 = 0, sha_buffer = replicate 64 7\<rparr>" 3
      "[0x61, 0x62, 0x63, 0x64]"] by simp

end
