(* ===== verification/Libc_Wrap.thy ===== *)
theory Libc_Wrap
  imports C_Memory
begin

text \<open>
  The parts of the C library interface that are not passed straight to the host: checked string functions
  (\<open>libc/libc-chk.c\<close>), directory entries, signal masks, system properties and the end of the program
  (\<open>libc/libc.c\<close>), and the locale and property functions of \<open>libc/libc-misc.c\<close>. The functions of the host
  that they call are parameters.
\<close>

section \<open>Checked functions\<close>

text \<open>A call returns or aborts the program; \<open>None\<close> is an access outside the arrays.\<close>

datatype 'a outcome = Returns 'a | Aborts

text \<open>The value of a plain \<^verbatim>\<open>char\<close>: signed on x86-64, unsigned on aarch64.\<close>

definition char_val :: "bool \<Rightarrow> u8 \<Rightarrow> int" where
  "char_val sg c = (if sg then sint c else uint c)"

text \<open>\<^verbatim>\<open>fwrite\<close> is the host's, as a function of the size and the number of elements.\<close>

definition bionic___fwrite_chk :: "(u64 \<Rightarrow> u64 \<Rightarrow> u64) \<Rightarrow> u64 \<Rightarrow> u64 \<Rightarrow> u64 \<Rightarrow> u64 outcome" where
  "bionic___fwrite_chk fwrite sz count buf_size =
     (let total = sz * count in
      if uint sz * uint count \<noteq> uint total then Returns (fwrite sz count)
      else if total > buf_size then Aborts
      else Returns (fwrite sz count))"

text \<open>A position in \<open>xs\<close> stands for a pointer.\<close>

function bionic___strchr_chk :: "bool \<Rightarrow> u8 list \<Rightarrow> nat \<Rightarrow> int \<Rightarrow> u64 \<Rightarrow> nat option outcome option" where
  "bionic___strchr_chk sg xs p ch s_len =
     (if s_len = 0 then Some Aborts else do {
        c \<leftarrow> arr_get xs p;
        if char_val sg c = ch then Some (Returns (Some p))
        else if c = 0 then Some (Returns None)
        else bionic___strchr_chk sg xs (p + 1) ch (s_len - 1)
      })"
  by pat_completeness auto
termination by (relation "measure (\<lambda>(sg, xs, p, ch, s_len). unat s_len)") (auto simp: unat_minus_one unat_gt_0)

function strrchr_loop :: "bool \<Rightarrow> u8 list \<Rightarrow> nat \<Rightarrow> int \<Rightarrow> u64 \<Rightarrow> nat option \<Rightarrow> nat option outcome option" where
  "strrchr_loop sg xs p ch s_len save =
     (if s_len = 0 then Some Aborts else do {
        c \<leftarrow> arr_get xs p;
        if char_val sg c = ch then strrchr_loop sg xs (p + 1) ch (s_len - 1) (Some p)
        else if c = 0 then Some (Returns save)
        else strrchr_loop sg xs (p + 1) ch (s_len - 1) save
      })"
  by pat_completeness auto
termination by (relation "measure (\<lambda>(sg, xs, p, ch, s_len, save). unat s_len)") (auto simp: unat_minus_one unat_gt_0)

definition bionic___strrchr_chk :: "bool \<Rightarrow> u8 list \<Rightarrow> nat \<Rightarrow> int \<Rightarrow> u64 \<Rightarrow> nat option outcome option" where
  "bionic___strrchr_chk sg xs p ch s_len = strrchr_loop sg xs p ch s_len None"

declare bionic___strchr_chk.simps [simp del] strrchr_loop.simps [simp del]

text \<open>The loops of \<open>__strncpy_chk2\<close>: the copy, and the padding once the terminator was copied.\<close>

lemma unat_count_down: "unat (n - 2) < unat (n - 1)" if "n \<noteq> 1" for n :: u64
proof -
  have "n - 1 \<noteq> 0" using that by simp
  then have "unat (n - 1 - 1) < unat (n - 1)" by (metis unat_minus_one unat_gt_0 diff_less zero_less_one)
  then show ?thesis by (simp add: algebra_simps)
qed

function strncpy_pad :: "u8 list \<Rightarrow> nat \<Rightarrow> u64 \<Rightarrow> u8 list option" where
  "strncpy_pad dst d n =
     (let n = n - 1 in if n \<noteq> 0 then do { dst \<leftarrow> arr_set dst d 0; strncpy_pad dst (d + 1) n } else Some dst)"
  by pat_completeness auto
termination by (relation "measure (\<lambda>(dst, d, n). unat (n - 1))") (auto intro: unat_count_down)

function strncpy_loop :: "u8 list \<Rightarrow> u8 list \<Rightarrow> nat \<Rightarrow> u64 \<Rightarrow> u8 list option" where
  "strncpy_loop dst src i n = do {
     c \<leftarrow> arr_get src i;
     dst \<leftarrow> arr_set dst i c;
     if c = 0 then strncpy_pad dst (i + 1) n
     else if n - 1 \<noteq> 0 then strncpy_loop dst src (i + 1) (n - 1)
     else Some dst
   }"
  by pat_completeness auto
termination by (relation "measure (\<lambda>(dst, src, i, n). unat (n - 1))") (auto intro: unat_count_down)

definition bionic___strncpy_chk2 :: "u8 list \<Rightarrow> u8 list \<Rightarrow> u64 \<Rightarrow> u64 \<Rightarrow> u64 \<Rightarrow> u8 list option" where
  "bionic___strncpy_chk2 dst src n dest_len src_len = (if n \<noteq> 0 then strncpy_loop dst src 0 n else Some dst)"

declare strncpy_pad.simps [simp del] strncpy_loop.simps [simp del]

definition SSIZE_MAX :: u64 where "SSIZE_MAX = 0x7FFFFFFFFFFFFFFF"

definition bionic___write_chk :: "(u64 \<Rightarrow> int) \<Rightarrow> u64 \<Rightarrow> u64 \<Rightarrow> int outcome" where
  "bionic___write_chk write count buf_size =
     (if count > buf_size then Aborts else if count > SSIZE_MAX then Aborts else Returns (write count))"

definition bionic___fgets_chk :: "(int \<Rightarrow> 'r) \<Rightarrow> int \<Rightarrow> u64 \<Rightarrow> 'r outcome" where
  "bionic___fgets_chk fgets supplied_size dest_len_from_compiler =
     (if supplied_size < 0 then Aborts
      else if (word_of_int supplied_size :: u64) > dest_len_from_compiler then Aborts
      else Returns (fgets supplied_size))"

text \<open>\<^verbatim>\<open>strlen\<close> of the host reads until the terminator.\<close>

definition bionic___strlen_chk :: "u8 list \<Rightarrow> u64 \<Rightarrow> u64 outcome option" where
  "bionic___strlen_chk s s_len = do {
     c_assert (0 \<in> set s);
     let ret = of_nat (length (takeWhile (\<lambda>c. c \<noteq> 0) s));
     Some (if ret \<ge> s_len then Aborts else Returns ret)
   }"

section \<open>Properties, directories\<close>

definition PROP_VALUE_MAX :: nat where "PROP_VALUE_MAX = 92"

text \<open>The new contents of the buffer for the value and the result.\<close>

definition system_property_get :: "string \<Rightarrow> string \<Rightarrow> (int \<times> string) option" where
  "system_property_get name value =
     (if name = ''ro.build.version.sdk''
      then do { c_assert (3 \<le> length value); Some (2, ''21'' @ [CHR 0x00] @ drop 3 value) }
      else do { value \<leftarrow> arr_set value 0 (CHR 0x00); Some (0, value) })"

text \<open>\<^verbatim>\<open>strlcpy\<close> of the C library: the size is ignored.\<close>

definition libc_strlcpy :: "string \<Rightarrow> string \<Rightarrow> nat \<Rightarrow> (nat \<times> string) option" where
  "libc_strlcpy dst src sz = do {
     c_assert (CHR 0x00 \<in> set src);
     let n = length (takeWhile (\<lambda>c. c \<noteq> CHR 0x00) src);
     c_assert (n < length dst);
     Some (n, take (n + 1) src @ drop (n + 1) dst)
   }"

record bionic_dirent =
  d_ino :: u64
  d_off :: u64
  d_reclen :: u16
  d_type :: u8
  d_name :: "u8 list"

text \<open>The host's entry has the same fields on a 64-bit machine.\<close>

definition glibc_dirent_to_bionic_dirent :: "bionic_dirent \<Rightarrow> bionic_dirent" where
  "glibc_dirent_to_bionic_dirent de =
     \<lparr>d_ino = d_ino de, d_off = d_off de, d_reclen = d_reclen de, d_type = d_type de, d_name = take 256 (d_name de)\<rparr>"

text \<open>The result, what was stored in \<open>entry\<close>, and whether \<^verbatim>\<open>*result\<close> is \<open>entry\<close> and not NULL.\<close>

definition bionic_readdir_r :: "int \<times> bionic_dirent option \<Rightarrow> bionic_dirent \<Rightarrow> int \<times> bionic_dirent \<times> bool" where
  "bionic_readdir_r host entry =
     (let (ret, der) = host in
      case der of
        None \<Rightarrow> (ret, entry, False)
      | Some de \<Rightarrow> if ret \<noteq> 0 then (ret, entry, False) else (0, glibc_dirent_to_bionic_dirent de, True))"

definition bionic_readdir :: "bionic_dirent option \<Rightarrow> bionic_dirent option" where
  "bionic_readdir host = map_option glibc_dirent_to_bionic_dirent host"

section \<open>Signals\<close>

definition EINVAL :: int where "EINVAL = 22"

text \<open>The result, the new \<^verbatim>\<open>errno\<close> if it is set, and the set. No set is a null pointer.\<close>

definition bionic_sigaddset :: "u64 option \<Rightarrow> int \<Rightarrow> int \<times> int option \<times> u64 option" where
  "bionic_sigaddset sset sig =
     (let b = sig - 1 in
      case sset of
        None \<Rightarrow> (-1, Some EINVAL, None)
      | Some local_set \<Rightarrow>
          if b < 0 \<or> b \<ge> 64 then (-1, Some EINVAL, Some local_set)
          else (0, None, Some (local_set OR push_bit (nat b) 1)))"

definition bionic_sigismember :: "u64 option \<Rightarrow> int \<Rightarrow> int \<times> int option" where
  "bionic_sigismember sset sig =
     (let b = sig - 1 in
      case sset of
        None \<Rightarrow> (-1, Some EINVAL)
      | Some local_set \<Rightarrow>
          if b < 0 \<or> b \<ge> 64 then (-1, Some EINVAL)
          else (uint (drop_bit (nat b) local_set AND 1), None))"

record bionic_sigaction =
  sa_flags :: u32
  bsa_handler :: u64
  sa_mask :: u64
  sa_restorer :: u64

text \<open>The host's structure, whose mask holds more signals than a word has bits.\<close>

record sigaction =
  g_handler :: u64
  g_flags :: u32
  g_restorer :: u64
  g_mask :: "int set"

definition zero_sigaction :: sigaction where
  "zero_sigaction = \<lparr>g_handler = 0, g_flags = 0, g_restorer = 0, g_mask = {}\<rparr>"

text \<open>
  What the host provides: the range of its real-time signals, and \<^verbatim>\<open>sigaction\<close>, which gives the result and
  the action that was in force.
\<close>

record signal_host =
  SIGRTMIN :: int
  SIGRTMAX :: int
  host_sigaction :: "int \<Rightarrow> sigaction option \<Rightarrow> int \<times> sigaction"

definition mask_to_host :: "signal_host \<Rightarrow> u64 \<Rightarrow> int set" where
  "mask_to_host H w =
     foldl (\<lambda>m signo. if fst (bionic_sigismember (Some w) signo) \<noteq> 0 then insert signo m else m) {} [35..SIGRTMAX H - 1]"

definition mask_from_host :: "signal_host \<Rightarrow> int set \<Rightarrow> u64" where
  "mask_from_host H m =
     foldl (\<lambda>w signo. if signo \<in> m then the (snd (snd (bionic_sigaddset (Some w) signo))) else w) 0
       [SIGRTMIN H + 3..SIGRTMAX H - 1]"

text \<open>The result and the old action, if one was asked for.\<close>

definition bionic_sigaction ::
  "signal_host \<Rightarrow> int \<Rightarrow> bionic_sigaction option \<Rightarrow> bool \<Rightarrow> (int \<times> bionic_sigaction option) outcome" where
  "bionic_sigaction H sig act oact =
     (let sig = (if sig = 33 then SIGRTMIN H else sig) in
      if act \<noteq> None \<and> \<not> 35 < SIGRTMAX H then Aborts
      else
        let gact = map_option (\<lambda>a. zero_sigaction\<lparr>g_handler := bsa_handler a, g_flags := sa_flags a,
                     g_restorer := sa_restorer a, g_mask := mask_to_host H (sa_mask a)\<rparr>) act;
            (ret, goact) = host_sigaction H sig gact
        in Returns (ret, if oact
             then Some \<lparr>sa_flags = g_flags goact, bsa_handler = g_handler goact, sa_mask = mask_from_host H (g_mask goact),
                    sa_restorer = g_restorer goact\<rparr>
             else None))"

section \<open>The end of the program\<close>

text \<open>
  \<open>__libc_fini\<close>: the functions called, in order. A call of the null pointer crashes. The array is the memory
  from \<^verbatim>\<open>array\<close> on; no array is a null pointer.
\<close>

fun fini_count :: "u64 list \<Rightarrow> nat \<Rightarrow> nat option" where
  "fini_count [] count = None"
| "fini_count (p # ps) count = (if p \<noteq> 0 then fini_count ps (count + 1) else Some count)"

fun fini_loop :: "u64 list \<Rightarrow> nat \<Rightarrow> u64 list option" where
  "fini_loop fini_array 0 = Some []"
| "fini_loop fini_array (Suc k) = do {
     fini \<leftarrow> arr_get fini_array (Suc k);
     if fini \<noteq> -1 then do {
       c_assert (fini \<noteq> 0);
       called \<leftarrow> fini_loop fini_array k;
       Some (fini # called)
     } else fini_loop fini_array k
   }"

definition libc_fini :: "u64 list option \<Rightarrow> u64 list option" where
  "libc_fini array = (case array of
     None \<Rightarrow> Some []
   | Some fini_array \<Rightarrow> do {
       first \<leftarrow> arr_get fini_array 0;
       if first \<noteq> -1 then Some [] else do {
         let fini_array = tl fini_array;
         count \<leftarrow> fini_count fini_array 0;
         fini_loop fini_array count
       }
     })"

section \<open>Locales\<close>

text \<open>The call that reaches the host, or the error.\<close>

datatype locale_call = Query | Set_locale string | Set_errno int

definition ENOENT :: int where "ENOENT = 2"

definition bionic_setlocale :: "string option \<Rightarrow> locale_call" where
  "bionic_setlocale loc = (case loc of
     None \<Rightarrow> Query
   | Some l \<Rightarrow>
       if l = '''' \<or> l = ''C.UTF-8'' \<or> l = ''en_US.UTF-8'' then Set_locale ''C.UTF-8''
       else if l = ''C'' \<or> l = ''POSIX'' then Set_locale ''C''
       else Set_errno ENOENT)"

end
