(* ===== verification/Libc_Wrap_Correct.thy ===== *)
theory Libc_Wrap_Correct
  imports Libc_Wrap
begin

text \<open>
  What the wrappers of the C library do: the searches in bounded strings, the signals that survive the
  translation of a mask, and the functions that run at the end of the program.
\<close>

section \<open>Searching\<close>

text \<open>
  What a search of the bytes \<open>s\<close> at position \<open>p\<close> gives: the first byte equal to \<open>ch\<close> before or at the end of the string,
  the last one; the program aborts when the string does not end within \<open>s\<close>.
\<close>

definition first_in :: "bool \<Rightarrow> int \<Rightarrow> nat \<Rightarrow> u8 list \<Rightarrow> nat option outcome" where
  "first_in sg ch p s = (let t = takeWhile (\<lambda>c. c \<noteq> 0 \<and> char_val sg c \<noteq> ch) s in
     if length t = length s then Aborts
     else if char_val sg (s ! length t) = ch then Returns (Some (p + length t)) else Returns None)"

definition matches :: "bool \<Rightarrow> int \<Rightarrow> u8 list \<Rightarrow> nat list" where
  "matches sg ch t = filter (\<lambda>i. char_val sg (t ! i) = ch) [0..<length t]"

definition last_in :: "bool \<Rightarrow> int \<Rightarrow> nat \<Rightarrow> u8 list \<Rightarrow> nat option outcome" where
  "last_in sg ch p s = (let t = takeWhile (\<lambda>c. c \<noteq> 0) s in
     if length t = length s then Aborts
     else Returns (if matches sg ch t = [] then None else Some (p + last (matches sg ch t))))"

lemma first_in_simps:
  "first_in sg ch p [] = Aborts"
  "first_in sg ch p (c # s) =
     (if char_val sg c = ch then Returns (Some p) else if c = 0 then Returns None else first_in sg ch (p + 1) s)"
  by (simp_all add: first_in_def Let_def)

lemma string_step:
  assumes "p + unat n \<le> length xs" "n \<noteq> (0 :: u64)"
  shows "arr_get xs p = Some (xs ! p)"
    "take (unat n) (drop p xs) = xs ! p # take (unat (n - 1)) (drop (p + 1) xs)"
    "p + 1 + unat (n - 1) \<le> length xs"
proof -
  have n: "0 < unat n" "unat (n - 1) = unat n - 1" using assms by (simp_all add: unat_gt_0 unat_minus_one)
  then have p: "p < length xs" using assms by linarith
  then show "arr_get xs p = Some (xs ! p)" by (simp add: arr_get_def)
  show "take (unat n) (drop p xs) = xs ! p # take (unat (n - 1)) (drop (p + 1) xs)"
    using p n by (simp add: take_Cons' Cons_nth_drop_Suc [symmetric])
  show "p + 1 + unat (n - 1) \<le> length xs" using assms n by linarith
qed

lemma strchr_chk_eq:
  "p + unat s_len \<le> length xs \<Longrightarrow>
    bionic___strchr_chk sg xs p ch s_len = Some (first_in sg ch p (take (unat s_len) (drop p xs)))"
proof (induction sg xs p ch s_len rule: bionic___strchr_chk.induct)
  case (1 sg xs p ch s_len)
  show ?case
  proof (cases "s_len = 0")
    case False
    note step = string_step [OF 1(2) False]
    show ?thesis
      unfolding bionic___strchr_chk.simps [of sg xs p] step(2) first_in_simps using False step(1,3) 1(1) by simp
  qed (simp add: bionic___strchr_chk.simps first_in_simps)
qed

fun last_match :: "bool \<Rightarrow> int \<Rightarrow> nat option \<Rightarrow> nat \<Rightarrow> u8 list \<Rightarrow> nat option" where
  "last_match sg ch save p [] = save"
| "last_match sg ch save p (c # s) = last_match sg ch (if char_val sg c = ch then Some p else save) (p + 1) s"

lemma matches_Cons: "matches sg ch (c # t) = (if char_val sg c = ch then [0] else []) @ map Suc (matches sg ch t)"
  unfolding matches_def by (simp add: upt_conv_Cons map_Suc_upt [symmetric] filter_map o_def del: upt.simps)

lemma last_match_eq:
  "last_match sg ch save p t = (if matches sg ch t = [] then save else Some (p + last (matches sg ch t)))"
proof (induction t arbitrary: save p)
  case (Cons c t)
  then show ?case by (auto simp: matches_Cons last_map)
qed (simp add: matches_def)

lemma strrchr_loop_eq:
  "p + unat s_len \<le> length xs \<Longrightarrow> ch \<noteq> 0 \<Longrightarrow>
    strrchr_loop sg xs p ch s_len save = Some (
      let s = take (unat s_len) (drop p xs); t = takeWhile (\<lambda>c. c \<noteq> 0) s in
      if length t = length s then Aborts else Returns (last_match sg ch save p t))"
proof (induction sg xs p ch s_len save rule: strrchr_loop.induct)
  case (1 sg xs p ch s_len save)
  have z: "char_val sg 0 \<noteq> ch" using 1(4) by (simp add: char_val_def)
  show ?case
  proof (cases "s_len = 0")
    case False
    note step = string_step [OF 1(3) False]
    show ?thesis
      unfolding strrchr_loop.simps [of sg xs p] step(2) using False step(1,3) 1(1,2,4) z by (auto simp: Let_def)
  qed (simp add: strrchr_loop.simps)
qed

lemma strrchr_loop_NUL:
  "p + unat s_len \<le> length xs \<Longrightarrow> strrchr_loop sg xs p 0 s_len save = Some Aborts"
proof (induction sg xs p "0::int" s_len save rule: strrchr_loop.induct)
  case (1 sg xs p s_len save)
  have z: "c = 0 \<Longrightarrow> char_val sg c = 0" for c by (simp add: char_val_def)
  show ?case
  proof (cases "s_len = 0")
    case False
    note step = string_step [OF 1(3) False]
    show ?thesis
      unfolding strrchr_loop.simps [of sg xs p] using False step(1,3) 1(1,2) z by auto
  qed (simp add: strrchr_loop.simps)
qed

text \<open>
  C35. With a buffer of at least \<open>s_len\<close> bytes behind \<open>p\<close>, \<open>__strchr_chk\<close> and \<open>__strrchr_chk\<close> stay inside the buffer.
  The first gives the first byte, up to and including the terminator, whose value as a plain char is \<open>ch\<close>, or NULL;
  the second, for \<open>ch\<close> other than zero, gives the last such byte before the terminator, or NULL; both abort when
  they do not find an end within \<open>s_len\<close> bytes. For the terminator itself \<open>__strrchr_chk\<close> never returns: it runs past
  the end of the string and always aborts.
\<close>

theorem strchr_chk_correct:
  assumes "p + unat s_len \<le> length xs"
  shows "bionic___strchr_chk sg xs p ch s_len = Some (first_in sg ch p (take (unat s_len) (drop p xs))) \<and>
    (ch \<noteq> 0 \<longrightarrow> bionic___strrchr_chk sg xs p ch s_len = Some (last_in sg ch p (take (unat s_len) (drop p xs)))) \<and>
    bionic___strrchr_chk sg xs p 0 s_len = Some Aborts"
  using assms
  by (simp_all add: strchr_chk_eq bionic___strrchr_chk_def strrchr_loop_eq strrchr_loop_NUL last_match_eq last_in_def Let_def)

theorem strchr_chk_correct_witness:
  "bionic___strchr_chk True [47, 97, 47, 98, 0, 1] 0 47 6 = Some (Returns (Some 0)) \<and>
   bionic___strrchr_chk True [47, 97, 47, 98, 0, 1] 0 47 6 = Some (Returns (Some 2)) \<and>
   bionic___strrchr_chk True [47, 97, 47, 98, 0, 1] 0 0 6 = Some Aborts"
  using strchr_chk_correct [where p = 0 and s_len = 6 and xs = "[47, 97, 47, 98, 0, 1]" and sg = True and ch = 47]
  by (simp add: first_in_def last_in_def matches_def char_val_def upt_rec)

section \<open>Signal masks\<close>

lemma and_one_bit: "uint (x AND 1) \<noteq> 0 \<longleftrightarrow> bit x 0" for x :: u64
proof -
  have "uint (x AND 1) = 0 \<longleftrightarrow> x AND 1 = 0" by (metis uint_0_iff)
  then show ?thesis by (auto simp: and_one_eq bit_0 even_iff_mod_2_eq_zero)
qed

lemma sigismember_iff:
  assumes "0 < s" "s \<le> 64"
  shows "fst (bionic_sigismember (Some w) s) \<noteq> 0 \<longleftrightarrow> bit w (nat (s - 1))"
  using assms and_one_bit [of "drop_bit (nat (s - 1)) w"] by (simp add: bionic_sigismember_def bit_simps)

lemma foldl_insert_if: "foldl (\<lambda>m x. if P x then insert x m else m) M xs = M \<union> {x \<in> set xs. P x}"
  by (induction xs arbitrary: M) auto

lemma mask_to_host_eq:
  assumes "SIGRTMAX H \<le> 65"
  shows "mask_to_host H w = {s. 35 \<le> s \<and> s < SIGRTMAX H \<and> bit w (nat (s - 1))}"
proof -
  have "{s \<in> set [35..SIGRTMAX H - 1]. fst (bionic_sigismember (Some w) s) \<noteq> 0}
      = {s. 35 \<le> s \<and> s < SIGRTMAX H \<and> bit w (nat (s - 1))}"
  proof (rule Collect_cong)
    fix s
    show "s \<in> set [35..SIGRTMAX H - 1] \<and> fst (bionic_sigismember (Some w) s) \<noteq> 0
      \<longleftrightarrow> 35 \<le> s \<and> s < SIGRTMAX H \<and> bit w (nat (s - 1))"
      using assms sigismember_iff [of s w] by (cases "35 \<le> s \<and> s < SIGRTMAX H") auto
  qed
  then show ?thesis by (simp only: mask_to_host_def foldl_insert_if Un_empty_left)
qed

lemma bit_add_signals:
  assumes "\<forall>s\<in>set xs. 0 < s \<and> s \<le> 64"
  shows "bit (foldl (\<lambda>w s. if s \<in> m then the (snd (snd (bionic_sigaddset (Some w) s))) else w) w xs) k
    \<longleftrightarrow> bit w k \<or> (int k + 1 \<in> set xs \<and> int k + 1 \<in> m)"
  using assms
proof (induction xs arbitrary: w)
  case (Cons s xs)
  have "bit (the (snd (snd (bionic_sigaddset (Some w) s)))) k \<longleftrightarrow> bit w k \<or> int k + 1 = s"
    using Cons.prems by (auto simp: bionic_sigaddset_def bit_simps)
  then show ?case using Cons by auto
qed simp

lemma bit_mask_from_host:
  assumes "0 < SIGRTMIN H + 3" "SIGRTMAX H \<le> 65"
  shows "bit (mask_from_host H m) k \<longleftrightarrow> SIGRTMIN H + 3 \<le> int k + 1 \<and> int k + 1 < SIGRTMAX H \<and> int k + 1 \<in> m"
  unfolding mask_from_host_def using assms by (subst bit_add_signals) auto

text \<open>
  C36. On a host whose last real-time signal is above 35 and at most 65, \<open>bionic_sigaction\<close> with a new action calls
  the host once, for \<open>SIGRTMIN\<close> in place of signal 33, with the same handler, flags and restorer; of the mask exactly the
  signals from 35 to below \<open>SIGRTMAX\<close> reach the host, and all others, the ordinary signals 1 to 31 included, are dropped.
  The old action that it reports has the host's handler, flags and restorer and of the host's mask exactly the signals from
  \<open>SIGRTMIN + 3\<close> to below \<open>SIGRTMAX\<close>.
\<close>

theorem sigaction_masks:
  assumes "35 < SIGRTMAX H" "SIGRTMAX H \<le> 65" "0 < SIGRTMIN H"
    and "host_sigaction H (if sig = 33 then SIGRTMIN H else sig)
      (Some \<lparr>g_handler = bsa_handler a, g_flags = sa_flags a, g_restorer = sa_restorer a,
        g_mask = {s. 35 \<le> s \<and> s < SIGRTMAX H \<and> bit (sa_mask a) (nat (s - 1))}\<rparr>) = (ret, old)"
  shows "\<exists>oact. bionic_sigaction H sig (Some a) True = Returns (ret, Some oact) \<and>
    bsa_handler oact = g_handler old \<and> sa_flags oact = g_flags old \<and> sa_restorer oact = g_restorer old \<and>
    (\<forall>k. bit (sa_mask oact) k \<longleftrightarrow>
       SIGRTMIN H + 3 \<le> int k + 1 \<and> int k + 1 < SIGRTMAX H \<and> int k + 1 \<in> g_mask old)"
  using assms by (simp add: bionic_sigaction_def mask_to_host_eq zero_sigaction_def bit_mask_from_host)

text \<open>A host that reports the action it is given.\<close>

definition echo_host :: signal_host where
  "echo_host = \<lparr>SIGRTMIN = 34, SIGRTMAX = 64,
     host_sigaction = (\<lambda>sig act. (0, case act of Some a \<Rightarrow> a | None \<Rightarrow> zero_sigaction))\<rparr>"

theorem sigaction_masks_witness:
  "\<exists>oact. bionic_sigaction echo_host 33 (Some \<lparr>sa_flags = 4, bsa_handler = 0x1000, sa_mask = push_bit 1 1 OR push_bit 39 1,
      sa_restorer = 0\<rparr>) True = Returns (0, Some oact) \<and>
    bsa_handler oact = 0x1000 \<and> \<not> bit (sa_mask oact) 1 \<and> bit (sa_mask oact) 39"
proof -
  let ?a = "\<lparr>sa_flags = 4, bsa_handler = 0x1000, sa_mask = push_bit 1 1 OR push_bit 39 1, sa_restorer = 0\<rparr>"
  have "\<exists>oact. bionic_sigaction echo_host 33 (Some ?a) True = Returns (0, Some oact) \<and> bsa_handler oact = 0x1000 \<and>
    sa_flags oact = 4 \<and> sa_restorer oact = 0 \<and>
    (\<forall>k. bit (sa_mask oact) k \<longleftrightarrow> SIGRTMIN echo_host + 3 \<le> int k + 1 \<and> int k + 1 < SIGRTMAX echo_host \<and>
      int k + 1 \<in> {s. 35 \<le> s \<and> s < 64 \<and> bit (sa_mask ?a) (nat (s - 1))})"
    using sigaction_masks [of echo_host 33 ?a 0 "\<lparr>g_handler = 0x1000, g_flags = 4, g_restorer = 0,
        g_mask = {s. 35 \<le> s \<and> s < 64 \<and> bit (sa_mask ?a) (nat (s - 1))}\<rparr>"]
    by (simp add: echo_host_def)
  then show ?thesis by (rule ex_forward) (simp add: echo_host_def bit_simps)
qed

section \<open>The end of the program\<close>

lemma fini_count_eq: "0 \<notin> set fs \<Longrightarrow> fini_count (fs @ 0 # rest) n = Some (n + length fs)"
  by (induction fs arbitrary: n) auto

text \<open>
  Let the array of a program hold the marker -1, the functions \<open>fs\<close> and a terminating null pointer. With no function
  \<open>__libc_fini\<close> returns and calls nothing. With any function at all it calls the null pointer first: the program
  crashes before one of its functions has run.
\<close>

lemma libc_fini_crashes:
  assumes "0 \<notin> set fs"
  shows "libc_fini (Some (-1 # fs @ 0 # rest)) = (if fs = [] then Some [] else None)"
proof (cases fs rule: rev_cases)
  case (snoc gs f)
  have "arr_get (fs @ 0 # rest) (length fs) = Some 0" by (simp add: arr_get_def)
  then have "fini_loop (fs @ 0 # rest) (length fs) = None" using snoc by simp
  then show ?thesis using fini_count_eq [OF assms, of rest 0] snoc by (simp add: libc_fini_def arr_get_def)
qed (simp add: libc_fini_def arr_get_def)

end
