(* ===== verification/Libc_Start.thy ===== *)
theory Libc_Start
  imports Libc_Wrap_Correct C_Memory
begin

text \<open>
  The start of a program: the main executable finds the structure that debuggers read
  (\<open>main_executable/bionic_compat.c\<close>), and \<open>bionic___libc_init\<close> of \<open>libc/libc.c\<close> runs the program's \<open>main\<close>. Also the
  structures that 32-bit programs lay out differently, and the properties of \<open>libc/libc-misc.c\<close>.
\<close>

section \<open>The debugger's structure\<close>

definition DT_DEBUG :: u64 where "DT_DEBUG = 21"

text \<open>
  The loop over the dynamic section at \<open>dyn\<close>: the value of the first DT_DEBUG entry is stored, and the entry with tag 0
  ends the search. \<open>None\<close> is an access to memory that is not there, or a search that does not end.
\<close>

partial_function (option) r_debug_loop :: "memory \<Rightarrow> u64 \<Rightarrow> u64 \<Rightarrow> u64 option" where
  "r_debug_loop m dyn ptr = do {
     d_tag \<leftarrow> load64 m dyn;
     if d_tag = DT_DEBUG then load64 m (dyn + 8)
     else if d_tag \<noteq> 0 then r_debug_loop m (dyn + 16) ptr
     else Some ptr
   }"

text \<open>\<open>Inl\<close> is the exit status of the program, \<open>Inr\<close> the new value of \<open>_r_debug_ptr\<close>.\<close>

definition init__r_debug :: "memory \<Rightarrow> u64 \<Rightarrow> u64 \<Rightarrow> (int + u64) option" where
  "init__r_debug m DYNAMIC ptr = do {
     ptr \<leftarrow> r_debug_loop m DYNAMIC ptr;
     Some (if ptr = 0 then Inl 1 else Inr ptr)
   }"

primrec dynamic_at :: "memory \<Rightarrow> u64 \<Rightarrow> (u64 \<times> u64) list \<Rightarrow> bool" where
  "dynamic_at m a [] \<longleftrightarrow> load64 m a = Some 0"
| "dynamic_at m a (e # es) \<longleftrightarrow> fst e \<noteq> 0 \<and> load64 m a = Some (fst e) \<and> load64 m (a + 8) = Some (snd e) \<and> dynamic_at m (a + 16) es"

lemma r_debug_loop_eq:
  "dynamic_at m a es \<Longrightarrow> r_debug_loop m a ptr = Some (case map_of es DT_DEBUG of Some v \<Rightarrow> v | None \<Rightarrow> ptr)"
proof (induction es arbitrary: a)
  case Nil
  then show ?case by (subst r_debug_loop.simps) (simp add: DT_DEBUG_def)
next
  case (Cons e es)
  then show ?case by (subst r_debug_loop.simps) (cases e, auto)
qed

text \<open>
  On a dynamic section that is terminated the search ends, with the value of the first DT_DEBUG entry; the program exits
  when there is none or when the system linker left it empty.
\<close>

lemma init__r_debug_correct:
  assumes "dynamic_at m a es"
  shows "init__r_debug m a 0 = Some (case map_of es DT_DEBUG of
     Some v \<Rightarrow> if v = 0 then Inl 1 else Inr v | None \<Rightarrow> Inl 1)"
  by (simp add: init__r_debug_def r_debug_loop_eq [OF assms] split: option.split)

text \<open>The slots behind the thread pointer that the main executable fills on ARM, from slot 2 on.\<close>

definition TLS :: "u64 list" where "TLS = replicate 6 0x5555555555555555"

definition tls_slot :: "nat \<Rightarrow> u64 option" where
  "tls_slot n = (if n < 2 then None else arr_get TLS (n - 2))"

text \<open>The guard that the stack protector of a program reads in slot 5 is the same in every thread.\<close>

lemma tls_stack_guard: "tls_slot 5 = Some 0x5555555555555555" "tls_slot n = Some v \<Longrightarrow> 2 \<le> n \<and> n \<le> 7"
  by (auto simp: tls_slot_def TLS_def arr_get_def split: if_splits)

section \<open>Running a program\<close>

datatype ending = Aborted | Exit int "u64 list"

text \<open>
  \<open>main\<close> gets the words that \<open>raw_args\<close> points to and the environment behind the arguments. Its result is the exit status;
  at the exit the termination functions of the program run when their registration succeeded.
\<close>

definition bionic___libc_init ::
  "u64 \<Rightarrow> u64 \<Rightarrow> (u32 \<Rightarrow> u64 \<Rightarrow> u64 \<Rightarrow> int) \<Rightarrow> u64 list option \<Rightarrow> bool \<Rightarrow> ending option" where
  "bionic___libc_init argc argv slingshot fini_array atexit_fails =
     (if fini_array \<noteq> None \<and> atexit_fails then Some Aborted
      else do {
        let status = slingshot (ucast argc) argv (argv + 8 * argc + 8);
        called \<leftarrow> (if fini_array \<noteq> None then libc_fini fini_array else Some []);
        Some (Exit status called)
      })"

text \<open>A program that returns from its main function exits with that result when it has no termination functions, but
  one with any such function crashes at the exit: the loop over the functions starts at the null word that ends them.
  The main function itself has run by then, on the arguments given and with the environment behind the null word that
  ends them.\<close>

lemma libc_init_exit:
  assumes "0 \<notin> set fs"
  shows "bionic___libc_init argc argv slingshot (Some (-1 # fs @ 0 # rest)) False =
       (if fs = [] then Some (Exit (slingshot (ucast argc) argv (argv + 8 * (argc + 1))) []) else None) \<and>
     bionic___libc_init argc argv slingshot None atexit_fails = Some (Exit (slingshot (ucast argc) argv (argv + 8 * (argc + 1))) []) \<and>
     bionic___libc_init argc argv slingshot (Some fini) True = Some Aborted"
  using libc_fini_crashes [OF assms] by (simp add: bionic___libc_init_def algebra_simps)

section \<open>Files and time in 32-bit programs\<close>

record timespec32 =
  tv_sec :: u32
  tv_nsec :: u32

record bionic_stat =
  st_dev :: u64
  pad0 :: u32
  st_ino32 :: u32
  st_mode :: u32
  st_nlink :: u32
  st_uid :: u32
  st_gid :: u32
  st_rdev :: u64
  pad3 :: u32
  st_size :: u64
  st_blksize :: u32
  st_blocks :: u64
  st_atim :: timespec32
  st_mtim :: timespec32
  st_ctim :: timespec32
  st_ino :: u64

text \<open>The host's structure, with 64-bit times.\<close>

record native_timespec =
  n_sec :: u64
  n_nsec :: u32

record native_stat =
  n_dev :: u64
  n_ino :: u64
  n_mode :: u32
  n_nlink :: u32
  n_uid :: u32
  n_gid :: u32
  n_rdev :: u64
  n_size :: u64
  n_blksize :: u32
  n_blocks :: u64
  n_atim :: native_timespec
  n_mtim :: native_timespec
  n_ctim :: native_timespec

definition to_timespec32 :: "native_timespec \<Rightarrow> timespec32" where
  "to_timespec32 t = \<lparr>tv_sec = ucast (n_sec t), tv_nsec = n_nsec t\<rparr>"

text \<open>
  The fields that the initialiser does not name are zero. The host's structure is \<open>uninit\<close> when \<open>stat\<close> fails: it is copied
  all the same.
\<close>

definition bionic_stat32 :: "int \<times> native_stat option \<Rightarrow> native_stat \<Rightarrow> int \<times> bionic_stat" where
  "bionic_stat32 result uninit =
     (let (ret, filled) = result; n = (case filled of Some n \<Rightarrow> n | None \<Rightarrow> uninit)
      in (ret, \<lparr>st_dev = n_dev n, pad0 = 0, st_ino32 = 0, st_mode = n_mode n, st_nlink = n_nlink n, st_uid = n_uid n,
        st_gid = n_gid n, st_rdev = n_rdev n, pad3 = 0, st_size = 0, st_blksize = n_blksize n, st_blocks = n_blocks n,
        st_atim = to_timespec32 (n_atim n), st_mtim = to_timespec32 (n_mtim n), st_ctim = to_timespec32 (n_ctim n),
        st_ino = n_ino n\<rparr>))"

text \<open>The size of a file is not copied: every file is empty to a 32-bit program.\<close>

lemma stat32_size: "st_size (snd (bionic_stat32 r u)) = 0"
  by (simp add: bionic_stat32_def split_def Let_def)

definition bionic_clock_gettime :: "int \<times> native_timespec option \<Rightarrow> native_timespec \<Rightarrow> int \<times> timespec32" where
  "bionic_clock_gettime result uninit =
     (let (ret, filled) = result in (ret, to_timespec32 (case filled of Some t \<Rightarrow> t | None \<Rightarrow> uninit)))"

text \<open>The seconds are kept up to the year 2106.\<close>

lemma clock_gettime_seconds:
  assumes "n_sec t < 2 ^ 32"
  shows "unat (tv_sec (snd (bionic_clock_gettime (ret, Some t) u))) = unat (n_sec t)"
proof -
  have "unat (n_sec t) < 2 ^ 32" using assms by (simp add: word_less_nat_alt)
  then show ?thesis
    by (simp add: bionic_clock_gettime_def to_timespec32_def unsigned_ucast_eq take_bit_nat_eq_self)
qed

section \<open>Properties of the system\<close>

record prop_info =
  prop_name :: string

definition bionic___system_property_find :: "string \<Rightarrow> prop_info" where
  "bionic___system_property_find name = \<lparr>prop_name = name\<rparr>"

definition PROP_NAME_MAX :: nat where "PROP_NAME_MAX = 32"

text \<open>\<^verbatim>\<open>strncpy\<close>: the bytes written; the buffer keeps the rest. A source that fills it leaves no terminator.\<close>

definition c_strncpy :: "string \<Rightarrow> nat \<Rightarrow> string" where
  "c_strncpy src n = take n (src @ replicate n NUL)"

text \<open>
  The length that is returned and what is written to the two buffers, when they are given; whether the name is known only
  decides about a message.
\<close>

definition bionic___system_property_read :: "prop_info \<Rightarrow> bool \<Rightarrow> bool \<Rightarrow> nat \<times> string option \<times> string option" where
  "bionic___system_property_read prop name value =
     (let written = (if name then Some (c_strncpy (prop_name prop) PROP_NAME_MAX) else None)
      in if \<not> value then (0, written, None)
         else (0, written, Some (c_strncpy [] PROP_VALUE_MAX)))"

text \<open>The value of a property is always empty; a name of 32 characters or more is read back without a terminator.\<close>

lemma property_read_value:
  "bionic___system_property_read p name True = (0, w, v) \<Longrightarrow> v = Some (replicate 92 NUL)"
  by (auto simp: bionic___system_property_read_def Let_def c_strncpy_def PROP_VALUE_MAX_def)

lemma property_name_unterminated:
  assumes "c_string name" "32 \<le> length name"
  shows "\<exists>w. fst (snd (bionic___system_property_read (bionic___system_property_find name) True value)) = Some w \<and> NUL \<notin> set w"
  using assms by (auto simp: bionic___system_property_read_def bionic___system_property_find_def Let_def c_strncpy_def
      PROP_NAME_MAX_def c_string_def dest: in_set_takeD)

end
