(* ===== verification/Libc_Tables.thy ===== *)
theory Libc_Tables
  imports Libc_Wrap
begin

text \<open>
  The tables of the C library: the numbers of the \<^verbatim>\<open>sysconf\<close> variables (\<open>libc/libc-sysconf.h\<close>) and the classes and
  cases of the characters (\<open>libc/libc-ctype.h\<close>).
\<close>

section \<open>System variables\<close>

text \<open>The cases of the switch in their order: bionic's number and the host's macro.\<close>

definition sysconf_cases_0 :: "(int \<times> string) list" where
  "sysconf_cases_0 = [
    (0x00, ''_SC_ARG_MAX''), (0x01, ''_SC_BC_BASE_MAX''), (0x02, ''_SC_BC_DIM_MAX''), (0x03, ''_SC_BC_SCALE_MAX''),
    (0x04, ''_SC_BC_STRING_MAX''), (0x05, ''_SC_CHILD_MAX''), (0x06, ''_SC_CLK_TCK''),
    (0x07, ''_SC_COLL_WEIGHTS_MAX''), (0x08, ''_SC_EXPR_NEST_MAX''), (0x09, ''_SC_LINE_MAX''),
    (0x0A, ''_SC_NGROUPS_MAX''), (0x0B, ''_SC_OPEN_MAX''), (0x0C, ''_SC_PASS_MAX''), (0x0D, ''_SC_2_C_BIND''),
    (0x0E, ''_SC_2_C_DEV''), (0x0F, ''_SC_2_C_VERSION''), (0x10, ''_SC_2_CHAR_TERM''), (0x11, ''_SC_2_FORT_DEV''),
    (0x12, ''_SC_2_FORT_RUN''), (0x13, ''_SC_2_LOCALEDEF''), (0x14, ''_SC_2_SW_DEV''), (0x15, ''_SC_2_UPE''),
    (0x16, ''_SC_2_VERSION''), (0x17, ''_SC_JOB_CONTROL''), (0x18, ''_SC_SAVED_IDS''), (0x19, ''_SC_VERSION''),
    (0x1A, ''_SC_RE_DUP_MAX''), (0x1B, ''_SC_STREAM_MAX''), (0x1C, ''_SC_TZNAME_MAX''), (0x1D, ''_SC_XOPEN_CRYPT''),
    (0x1E, ''_SC_XOPEN_ENH_I18N''), (0x1F, ''_SC_XOPEN_SHM''), (0x20, ''_SC_XOPEN_VERSION''),
    (0x21, ''_SC_XOPEN_XCU_VERSION''), (0x22, ''_SC_XOPEN_REALTIME''), (0x23, ''_SC_XOPEN_REALTIME_THREADS''),
    (0x24, ''_SC_XOPEN_LEGACY''), (0x25, ''_SC_ATEXIT_MAX''), (0x26, ''_SC_IOV_MAX''), (0x27, ''_SC_PAGESIZE''),
    (0x28, ''_SC_PAGE_SIZE''), (0x29, ''_SC_XOPEN_UNIX''), (0x2A, ''_SC_XBS5_ILP32_OFF32''),
    (0x2B, ''_SC_XBS5_ILP32_OFFBIG''), (0x2C, ''_SC_XBS5_LP64_OFF64''), (0x2D, ''_SC_XBS5_LPBIG_OFFBIG''),
    (0x2E, ''_SC_AIO_LISTIO_MAX''), (0x2F, ''_SC_AIO_MAX''), (0x30, ''_SC_AIO_PRIO_DELTA_MAX''),
    (0x31, ''_SC_DELAYTIMER_MAX'')]"

definition sysconf_cases_1 :: "(int \<times> string) list" where
  "sysconf_cases_1 = [
    (0x32, ''_SC_MQ_OPEN_MAX''), (0x33, ''_SC_MQ_PRIO_MAX''), (0x34, ''_SC_RTSIG_MAX''),
    (0x35, ''_SC_SEM_NSEMS_MAX''), (0x36, ''_SC_SEM_VALUE_MAX''), (0x37, ''_SC_SIGQUEUE_MAX''),
    (0x38, ''_SC_TIMER_MAX''), (0x39, ''_SC_ASYNCHRONOUS_IO''), (0x3A, ''_SC_FSYNC''), (0x3B, ''_SC_MAPPED_FILES''),
    (0x3C, ''_SC_MEMLOCK''), (0x3D, ''_SC_MEMLOCK_RANGE''), (0x3E, ''_SC_MEMORY_PROTECTION''),
    (0x3F, ''_SC_MESSAGE_PASSING''), (0x40, ''_SC_PRIORITIZED_IO''), (0x41, ''_SC_PRIORITY_SCHEDULING''),
    (0x42, ''_SC_REALTIME_SIGNALS''), (0x43, ''_SC_SEMAPHORES''), (0x44, ''_SC_SHARED_MEMORY_OBJECTS''),
    (0x45, ''_SC_SYNCHRONIZED_IO''), (0x46, ''_SC_TIMERS''), (0x47, ''_SC_GETGR_R_SIZE_MAX''),
    (0x48, ''_SC_GETPW_R_SIZE_MAX''), (0x49, ''_SC_LOGIN_NAME_MAX''), (0x4A, ''_SC_THREAD_DESTRUCTOR_ITERATIONS''),
    (0x4B, ''_SC_THREAD_KEYS_MAX''), (0x4C, ''_SC_THREAD_STACK_MIN''), (0x4D, ''_SC_THREAD_THREADS_MAX''),
    (0x4E, ''_SC_TTY_NAME_MAX''), (0x4F, ''_SC_THREADS''), (0x50, ''_SC_THREAD_ATTR_STACKADDR''),
    (0x51, ''_SC_THREAD_ATTR_STACKSIZE''), (0x52, ''_SC_THREAD_PRIORITY_SCHEDULING''),
    (0x53, ''_SC_THREAD_PRIO_INHERIT''), (0x54, ''_SC_THREAD_PRIO_PROTECT''), (0x55, ''_SC_THREAD_SAFE_FUNCTIONS''),
    (0x60, ''_SC_NPROCESSORS_CONF''), (0x61, ''_SC_NPROCESSORS_ONLN''), (0x62, ''_SC_PHYS_PAGES''),
    (0x63, ''_SC_AVPHYS_PAGES''), (0x64, ''_SC_MONOTONIC_CLOCK''), (0x65, ''_SC_2_PBS''),
    (0x66, ''_SC_2_PBS_ACCOUNTING''), (0x67, ''_SC_2_PBS_CHECKPOINT''), (0x68, ''_SC_2_PBS_LOCATE''),
    (0x69, ''_SC_2_PBS_MESSAGE''), (0x6A, ''_SC_2_PBS_TRACK''), (0x6B, ''_SC_ADVISORY_INFO''),
    (0x6C, ''_SC_BARRIERS''), (0x6D, ''_SC_CLOCK_SELECTION'')]"

definition sysconf_cases_2 :: "(int \<times> string) list" where
  "sysconf_cases_2 = [
    (0x6E, ''_SC_CPUTIME''), (0x6F, ''_SC_HOST_NAME_MAX''), (0x70, ''_SC_IPV6''), (0x71, ''_SC_RAW_SOCKETS''),
    (0x72, ''_SC_READER_WRITER_LOCKS''), (0x73, ''_SC_REGEXP''), (0x74, ''_SC_SHELL''), (0x75, ''_SC_SPAWN''),
    (0x76, ''_SC_SPIN_LOCKS''), (0x77, ''_SC_SPORADIC_SERVER''), (0x78, ''_SC_SS_REPL_MAX''),
    (0x79, ''_SC_SYMLOOP_MAX''), (0x7A, ''_SC_THREAD_CPUTIME''), (0x7B, ''_SC_THREAD_PROCESS_SHARED''),
    (0x7C, ''_SC_THREAD_ROBUST_PRIO_INHERIT''), (0x7D, ''_SC_THREAD_ROBUST_PRIO_PROTECT''),
    (0x7E, ''_SC_THREAD_SPORADIC_SERVER''), (0x7F, ''_SC_TIMEOUTS''), (0x80, ''_SC_TRACE''),
    (0x81, ''_SC_TRACE_EVENT_FILTER''), (0x82, ''_SC_TRACE_EVENT_NAME_MAX''), (0x83, ''_SC_TRACE_INHERIT''),
    (0x84, ''_SC_TRACE_LOG''), (0x85, ''_SC_TRACE_NAME_MAX''), (0x86, ''_SC_TRACE_SYS_MAX''),
    (0x87, ''_SC_TRACE_USER_EVENT_MAX''), (0x88, ''_SC_TYPED_MEMORY_OBJECTS''), (0x89, ''_SC_V7_ILP32_OFF32''),
    (0x8A, ''_SC_V7_ILP32_OFFBIG''), (0x8B, ''_SC_V7_LP64_OFF64''), (0x8C, ''_SC_V7_LPBIG_OFFBIG''),
    (0x8D, ''_SC_XOPEN_STREAMS''), (0x8E, ''_SC_XOPEN_UUCP''), (0x8F, ''_SC_LEVEL1_ICACHE_SIZE''),
    (0x90, ''_SC_LEVEL1_ICACHE_ASSOC''), (0x91, ''_SC_LEVEL1_ICACHE_LINESIZE''), (0x92, ''_SC_LEVEL1_DCACHE_SIZE''),
    (0x93, ''_SC_LEVEL1_DCACHE_ASSOC''), (0x94, ''_SC_LEVEL1_DCACHE_LINESIZE''), (0x95, ''_SC_LEVEL2_CACHE_SIZE''),
    (0x96, ''_SC_LEVEL2_CACHE_ASSOC''), (0x97, ''_SC_LEVEL2_CACHE_LINESIZE''), (0x98, ''_SC_LEVEL3_CACHE_SIZE''),
    (0x99, ''_SC_LEVEL3_CACHE_ASSOC''), (0x9A, ''_SC_LEVEL3_CACHE_LINESIZE''), (0x9B, ''_SC_LEVEL4_CACHE_SIZE''),
    (0x9C, ''_SC_LEVEL4_CACHE_ASSOC''), (0x9D, ''_SC_LEVEL4_CACHE_LINESIZE'')]"

definition sysconf_cases :: "(int \<times> string) list" where
  "sysconf_cases = sysconf_cases_0 @ sysconf_cases_1 @ sysconf_cases_2"

text \<open>\<open>host\<close> gives the values of the macros that the host defines; a case without its macro is not compiled.\<close>

definition bionic_sysconf_to_glibc_sysconf :: "(string \<Rightarrow> int option) \<Rightarrow> int \<Rightarrow> int outcome" where
  "bionic_sysconf_to_glibc_sysconf host nm =
     (case map_of (filter (\<lambda>(c, m). host m \<noteq> None) sysconf_cases) nm of
        Some m \<Rightarrow> Returns (the (host m))
      | None \<Rightarrow> Aborts)"

definition bionic_sysconf :: "(string \<Rightarrow> int option) \<Rightarrow> (int \<Rightarrow> int) \<Rightarrow> int \<Rightarrow> int outcome" where
  "bionic_sysconf host sysconf nm =
     (case bionic_sysconf_to_glibc_sysconf host nm of Returns v \<Rightarrow> Returns (sysconf v) | Aborts \<Rightarrow> Aborts)"

section \<open>Characters\<close>

definition ct_U :: u8 where "ct_U = 0x01"
definition ct_L :: u8 where "ct_L = 0x02"
definition ct_D :: u8 where "ct_D = 0x04"
definition ct_S :: u8 where "ct_S = 0x08"
definition ct_P :: u8 where "ct_P = 0x10"
definition ct_C :: u8 where "ct_C = 0x20"
definition ct_X :: u8 where "ct_X = 0x40"
definition ct_B :: u8 where "ct_B = 0x80"
definition ct_N :: u8 where "ct_N = ct_D"

text \<open>The entry for a character stands one place behind its code; the first entry is for \<^verbatim>\<open>EOF\<close>.\<close>

definition ctype :: "u8 list" where
  "ctype = [
    0, ct_C, ct_C, ct_C, ct_C, ct_C, ct_C, ct_C, ct_C, ct_C, ct_C OR ct_S, ct_C OR ct_S, ct_C OR ct_S,
    ct_C OR ct_S, ct_C OR ct_S, ct_C, ct_C, ct_C, ct_C, ct_C, ct_C, ct_C, ct_C, ct_C, ct_C, ct_C, ct_C, ct_C, ct_C,
    ct_C, ct_C, ct_C, ct_C, ct_S OR ct_B, ct_P, ct_P, ct_P, ct_P, ct_P, ct_P, ct_P, ct_P, ct_P, ct_P, ct_P, ct_P,
    ct_P, ct_P, ct_P, ct_N, ct_N, ct_N, ct_N, ct_N, ct_N, ct_N, ct_N, ct_N, ct_N, ct_P, ct_P, ct_P, ct_P, ct_P,
    ct_P, ct_P, ct_U OR ct_X, ct_U OR ct_X, ct_U OR ct_X, ct_U OR ct_X, ct_U OR ct_X, ct_U OR ct_X, ct_U, ct_U,
    ct_U, ct_U, ct_U, ct_U, ct_U, ct_U, ct_U, ct_U, ct_U, ct_U, ct_U, ct_U, ct_U, ct_U, ct_U, ct_U, ct_U, ct_U,
    ct_P, ct_P, ct_P, ct_P, ct_P, ct_P, ct_L OR ct_X, ct_L OR ct_X, ct_L OR ct_X, ct_L OR ct_X, ct_L OR ct_X,
    ct_L OR ct_X, ct_L, ct_L, ct_L, ct_L, ct_L, ct_L, ct_L, ct_L, ct_L, ct_L, ct_L, ct_L, ct_L, ct_L, ct_L, ct_L,
    ct_L, ct_L, ct_L, ct_L, ct_P, ct_P, ct_P, ct_P, ct_C] @
    replicate 128 0"

definition tolower_tab :: "int list" where
  "tolower_tab = [
    -1, 0, 1, 2, 3, 4, 5, 6, 7, 8, 9, 10, 11, 12, 13, 14, 15, 16, 17, 18, 19, 20, 21, 22, 23, 24, 25, 26, 27, 28,
    29, 30, 31, 32, 33, 34, 35, 36, 37, 38, 39, 40, 41, 42, 43, 44, 45, 46, 47, 48, 49, 50, 51, 52, 53, 54, 55, 56,
    57, 58, 59, 60, 61, 62, 63, 64, 97, 98, 99, 100, 101, 102, 103, 104, 105, 106, 107, 108, 109, 110, 111, 112,
    113, 114, 115, 116, 117, 118, 119, 120, 121, 122, 91, 92, 93, 94, 95, 96, 97, 98, 99, 100, 101, 102, 103, 104,
    105, 106, 107, 108, 109, 110, 111, 112, 113, 114, 115, 116, 117, 118, 119, 120, 121, 122, 123, 124, 125, 126,
    127, 128, 129, 130, 131, 132, 133, 134, 135, 136, 137, 138, 139, 140, 141, 142, 143, 144, 145, 146, 147, 148,
    149, 150, 151, 152, 153, 154, 155, 156, 157, 158, 159, 160, 161, 162, 163, 164, 165, 166, 167, 168, 169, 170,
    171, 172, 173, 174, 175, 176, 177, 178, 179, 180, 181, 182, 183, 184, 185, 186, 187, 188, 189, 190, 191, 192,
    193, 194, 195, 196, 197, 198, 199, 200, 201, 202, 203, 204, 205, 206, 207, 208, 209, 210, 211, 212, 213, 214,
    215, 216, 217, 218, 219, 220, 221, 222, 223, 224, 225, 226, 227, 228, 229, 230, 231, 232, 233, 234, 235, 236,
    237, 238, 239, 240, 241, 242, 243, 244, 245, 246, 247, 248, 249, 250, 251, 252, 253, 254, 255]"

definition toupper_tab :: "int list" where
  "toupper_tab = [
    -1, 0, 1, 2, 3, 4, 5, 6, 7, 8, 9, 10, 11, 12, 13, 14, 15, 16, 17, 18, 19, 20, 21, 22, 23, 24, 25, 26, 27, 28,
    29, 30, 31, 32, 33, 34, 35, 36, 37, 38, 39, 40, 41, 42, 43, 44, 45, 46, 47, 48, 49, 50, 51, 52, 53, 54, 55, 56,
    57, 58, 59, 60, 61, 62, 63, 64, 65, 66, 67, 68, 69, 70, 71, 72, 73, 74, 75, 76, 77, 78, 79, 80, 81, 82, 83, 84,
    85, 86, 87, 88, 89, 90, 91, 92, 93, 94, 95, 96, 65, 66, 67, 68, 69, 70, 71, 72, 73, 74, 75, 76, 77, 78, 79, 80,
    81, 82, 83, 84, 85, 86, 87, 88, 89, 90, 123, 124, 125, 126, 127, 128, 129, 130, 131, 132, 133, 134, 135, 136,
    137, 138, 139, 140, 141, 142, 143, 144, 145, 146, 147, 148, 149, 150, 151, 152, 153, 154, 155, 156, 157, 158,
    159, 160, 161, 162, 163, 164, 165, 166, 167, 168, 169, 170, 171, 172, 173, 174, 175, 176, 177, 178, 179, 180,
    181, 182, 183, 184, 185, 186, 187, 188, 189, 190, 191, 192, 193, 194, 195, 196, 197, 198, 199, 200, 201, 202,
    203, 204, 205, 206, 207, 208, 209, 210, 211, 212, 213, 214, 215, 216, 217, 218, 219, 220, 221, 222, 223, 224,
    225, 226, 227, 228, 229, 230, 231, 232, 233, 234, 235, 236, 237, 238, 239, 240, 241, 242, 243, 244, 245, 246,
    247, 248, 249, 250, 251, 252, 253, 254, 255]"

section \<open>What the tables say\<close>

lemma sysconf_numbers_distinct: "distinct (map fst sysconf_cases)"
  by code_simp

text \<open>Each number gives the value of its own macro, and the program aborts for every other number.\<close>

lemma map_of_filter_distinct:
  assumes "distinct (map fst xs)"
  shows "map_of (filter (\<lambda>(c, m). P m) xs) n = Some m \<longleftrightarrow> (n, m) \<in> set xs \<and> P m"
proof -
  have "distinct (map fst (filter (\<lambda>(c, m). P m) xs))" using assms by (rule distinct_map_filter)
  then show ?thesis by (simp add: map_of_eq_Some_iff case_prod_unfold)
qed

lemma sysconf_number:
  assumes "(n, m) \<in> set sysconf_cases" "host m = Some v"
  shows "bionic_sysconf_to_glibc_sysconf host n = Returns v"
  using map_of_filter_distinct [OF sysconf_numbers_distinct, of "\<lambda>m. host m \<noteq> None" n m] assms
  by (simp add: bionic_sysconf_to_glibc_sysconf_def)

lemma sysconf_other:
  assumes "\<forall>m. (n, m) \<in> set sysconf_cases \<longrightarrow> host m = None"
  shows "bionic_sysconf_to_glibc_sysconf host n = Aborts"
  using map_of_filter_distinct [OF sysconf_numbers_distinct, of "\<lambda>m. host m \<noteq> None" n] assms
  by (auto simp: bionic_sysconf_to_glibc_sysconf_def split: option.splits)

text \<open>The classes are those of the C locale, and the case tables move the letters only.\<close>

lemma ctype_classes:
  "\<forall>c\<in>set [0..<256].
     (ctype ! (c + 1) AND ct_U \<noteq> 0) = (65 \<le> c \<and> c \<le> 90) \<and>
     (ctype ! (c + 1) AND ct_L \<noteq> 0) = (97 \<le> c \<and> c \<le> 122) \<and>
     (ctype ! (c + 1) AND ct_D \<noteq> 0) = (48 \<le> c \<and> c \<le> 57) \<and>
     (ctype ! (c + 1) AND ct_S \<noteq> 0) = (c = 32 \<or> 9 \<le> c \<and> c \<le> 13) \<and>
     (ctype ! (c + 1) AND ct_C \<noteq> 0) = (c < 32 \<or> c = 127)"
  by code_simp

lemma case_tables:
  "\<forall>c\<in>set [0..<256].
     tolower_tab ! (c + 1) = (if 65 \<le> c \<and> c \<le> 90 then int c + 32 else int c) \<and>
     toupper_tab ! (c + 1) = (if 97 \<le> c \<and> c \<le> 122 then int c - 32 else int c)"
  by code_simp

end
