(* ===== verification/Open_Wrap.thy ===== *)
theory Open_Wrap
  imports Bionic_Prelude
begin

text \<open>
  Opening files (\<open>libc/libc-antiantidebug.c\<close>): paths that Android programs expect are replaced by those of the
  host, and the status of the process is served from a copy without the line that shows a debugger.
\<close>

section \<open>The code\<close>

definition starts_with :: "string \<Rightarrow> string \<Rightarrow> bool" where
  "starts_with str sub \<longleftrightarrow> take (length sub) str = sub"

text \<open>
  The path that is opened, whether it was allocated, and whether the warning is printed. The slash behind
  \<^verbatim>\<open>/fonts\<close> exists, so \<^verbatim>\<open>strchr\<close> finds it.
\<close>

definition apply_path_overrides :: "string \<Rightarrow> string \<times> bool \<times> bool" where
  "apply_path_overrides path =
     (let path = (if path = ''/system/etc/fonts.xml'' then ''/etc/fonts.xml'' else path);
          (path, free_path) = (if starts_with path ''/fonts/''
            then (''/usr/share/fonts/truetype'' @ dropWhile (\<lambda>c. c \<noteq> CHR ''/'') (drop 1 path), True)
            else (path, False))
      in (path, free_path, starts_with path ''/system/'' \<or> starts_with path ''/data/''))"

text \<open>The static buffer of 4096 bytes, filled from the file.\<close>

definition read_status :: "string \<Rightarrow> string" where
  "read_status content = take 4096 content @ replicate (4096 - length content) NUL"

text \<open>\<^verbatim>\<open>strstr\<close> on a buffer with a terminator: the position of the first occurrence.\<close>

definition strstr :: "string \<Rightarrow> string \<Rightarrow> nat option option" where
  "strstr buf pat = do {
     c_assert (NUL \<in> set buf);
     let s = takeWhile (\<lambda>c. c \<noteq> NUL) buf;
     Some (find (\<lambda>i. take (length pat) (drop i s) = pat) [0..<Suc (length s)])
   }"

definition tracer_key :: string where "tracer_key = ''TracerPid:'' @ [CHR 0x09]"

text \<open>The text of the first such line is cut out: the tail of the buffer moves to its start.\<close>

definition hide_tracer :: "string \<Rightarrow> string option" where
  "hide_tracer status = do {
     q \<leftarrow> strstr status tracer_key;
     case q of
       None \<Rightarrow> Some status
     | Some s \<Rightarrow>
         let e = s + length (takeWhile (\<lambda>c. c \<noteq> NUL \<and> c \<noteq> CHR 0x0A) (drop s status))
         in Some (take s status @ drop e status @ drop (s + (length status - e)) status)
   }"

text \<open>
  What the host provides: its \<^verbatim>\<open>open\<close> and \<^verbatim>\<open>fopen\<close>, the contents of \<^verbatim>\<open>/proc/self/status\<close>, and \<^verbatim>\<open>fileno\<close> of a stream over
  memory.
\<close>

record open_host =
  host_open :: "string \<Rightarrow> u32 \<Rightarrow> u32 option \<Rightarrow> int"
  host_fopen :: "string \<Rightarrow> string \<Rightarrow> u64"
  proc_status :: "string option"
  memory_fileno :: int

text \<open>The values of x86.\<close>

definition O_CREAT :: u32 where "O_CREAT = 0x40"
definition O_TMPFILE :: u32 where "O_TMPFILE = 0x410000"

definition OPEN_NEEDS_MODE :: "u32 \<Rightarrow> bool" where
  "OPEN_NEEDS_MODE flags \<longleftrightarrow> flags AND O_CREAT \<noteq> 0 \<or> flags AND O_TMPFILE \<noteq> 0"

text \<open>The result and the new contents of the static buffer; there is none before the first use.\<close>

definition bionic_open :: "open_host \<Rightarrow> string \<Rightarrow> u32 \<Rightarrow> u32 \<Rightarrow> string option \<Rightarrow> (int \<times> string option) option" where
  "bionic_open H path oflag mode faked =
     (let (path, free_path, warn) = apply_path_overrides path in
      if path = ''/proc/self/status'' then do {
        buf \<leftarrow> (case faked of
            Some buf \<Rightarrow> Some buf
          | None \<Rightarrow> do { content \<leftarrow> proc_status H; hide_tracer (read_status content) });
        Some (memory_fileno H, Some buf)
      } else Some (host_open H path oflag (if OPEN_NEEDS_MODE oflag then Some mode else None), faked))"

definition bionic_fopen :: "open_host \<Rightarrow> string \<Rightarrow> string \<Rightarrow> u64" where
  "bionic_fopen H path mode = host_fopen H (fst (apply_path_overrides path)) mode"

text \<open>The names with a 64 that \<open>libc/libc-musl.c\<close> adds; an argument that is not passed on reads as \<open>undef\<close>.\<close>

definition bionic_open64 :: "open_host \<Rightarrow> u32 \<Rightarrow> string \<Rightarrow> u32 \<Rightarrow> u32 \<Rightarrow> string option \<Rightarrow> (int \<times> string option) option" where
  "bionic_open64 H undef filename flags mode faked =
     (if OPEN_NEEDS_MODE flags then bionic_open H filename flags mode faked else bionic_open H filename flags undef faked)"

definition bionic_fopen64 :: "open_host \<Rightarrow> string \<Rightarrow> string \<Rightarrow> u64" where
  "bionic_fopen64 H filename opentype = bionic_fopen H filename opentype"

section \<open>Paths\<close>

lemma open64_eq: "bionic_open64 H undef filename flags mode faked = bionic_open H filename flags mode faked"
  by (simp add: bionic_open64_def bionic_open_def Let_def split_def)

lemma override_fonts: "apply_path_overrides (''/fonts/'' @ rest) = (''/usr/share/fonts/truetype/'' @ rest, True, False)"
  by (simp add: apply_path_overrides_def starts_with_def)

lemma override_fonts_xml: "apply_path_overrides ''/system/etc/fonts.xml'' = (''/etc/fonts.xml'', False, False)"
  by (simp add: apply_path_overrides_def starts_with_def)

lemma override_other:
  assumes "\<not> starts_with path ''/fonts/''" "path \<noteq> ''/system/etc/fonts.xml''"
  shows "fst (apply_path_overrides path) = path"
  using assms by (simp add: apply_path_overrides_def)

text \<open>A directory is opened with the mode argument that only new files have.\<close>

lemma directory_needs_mode: "OPEN_NEEDS_MODE 0x10000"
  by (simp add: OPEN_NEEDS_MODE_def O_CREAT_def O_TMPFILE_def)

section \<open>The hidden line\<close>

lemma tracer_key_facts: "length tracer_key = 11" "NUL \<notin> set tracer_key" "CHR 0x0A \<notin> set tracer_key"
  by (simp_all add: tracer_key_def)

lemma takeWhile_stop: "\<forall>x\<in>set xs. P x \<Longrightarrow> \<not> P y \<Longrightarrow> takeWhile P (xs @ y # ys) = xs"
  by (induction xs) auto

lemma c_str_padded:
  assumes "NUL \<notin> set s" "0 < n"
  shows "takeWhile (\<lambda>c. c \<noteq> NUL) (s @ replicate n NUL) = s"
proof -
  have "\<forall>x\<in>set s. x \<noteq> NUL" using assms(1) by metis
  then show ?thesis using assms(2) takeWhile_stop [of s "\<lambda>c. c \<noteq> NUL" NUL "replicate (n - 1) NUL"] by (cases n) simp_all
qed

text \<open>A status with one text behind the key, which is not the first part of another line.\<close>

definition status_with :: "string \<Rightarrow> string \<Rightarrow> string \<Rightarrow> string \<Rightarrow> bool" where
  "status_with content before v after \<longleftrightarrow> content = before @ tracer_key @ v @ CHR 0x0A # after \<and>
     NUL \<notin> set content \<and> length content < 4096 \<and> CHR 0x0A \<notin> set v \<and>
     (\<forall>i<length before. take 11 (drop i content) \<noteq> tracer_key)"

lemma hide_tracer_eq:
  assumes "status_with content before v after"
  shows "\<exists>rest. hide_tracer (read_status content) = Some (before @ CHR 0x0A # after @ NUL # rest)"
proof -
  note S = assms [unfolded status_with_def]
  define z where "z = 4096 - length content"
  have c: "content = before @ tracer_key @ v @ CHR 0x0A # after" using S by blast
  have "length content < 4096" using S by blast
  then have z: "0 < z" "read_status content = content @ replicate z NUL" by (simp_all add: read_status_def z_def)
  have "find (\<lambda>i. take 11 (drop i content) = tracer_key) [0..<Suc (length content)] = Some (length before)"
    unfolding find_Some_iff
  proof (intro exI conjI allI impI)
    show "length before < length [0..<Suc (length content)]" by (simp add: c del: upt_Suc)
    show "take 11 (drop ([0..<Suc (length content)] ! length before) content) = tracer_key"
      by (simp add: c tracer_key_facts(1) nth_append del: upt_Suc)
    show "length before = [0..<Suc (length content)] ! length before" by (simp add: c del: upt_Suc)
    fix j assume "j < length before"
    then show "take 11 (drop ([0..<Suc (length content)] ! j) content) \<noteq> tracer_key"
      using S by (simp add: c del: upt_Suc)
  qed
  moreover have n: "NUL \<notin> set content" using S by blast
  ultimately have s: "strstr (content @ replicate z NUL) tracer_key = Some (Some (length before))"
    using z(1) unfolding strstr_def c_str_padded [OF n z(1)] Let_def tracer_key_facts(1) by (simp del: upt_Suc)
  have v: "NUL \<notin> set v" "CHR 0x0A \<notin> set v" using n S by (simp_all add: c)
  have tw: "takeWhile (\<lambda>c. c \<noteq> NUL \<and> c \<noteq> CHR 0x0A) (drop (length before) (content @ replicate z NUL)) = tracer_key @ v"
  proof -
    have "drop (length before) (content @ replicate z NUL) = (tracer_key @ v) @ CHR 0x0A # after @ replicate z NUL" by (simp add: c)
    moreover have "\<forall>x\<in>set (tracer_key @ v). x \<noteq> NUL \<and> x \<noteq> CHR 0x0A" using v tracer_key_facts(2,3) by (metis Un_iff set_append)
    ultimately show ?thesis by (simp only: takeWhile_stop simp_thms)
  qed
  let ?e = "length before + (11 + length v)"
  have parts: "take (length before) (content @ replicate z NUL) = before"
    "drop ?e (content @ replicate z NUL) = CHR 0x0A # after @ replicate z NUL"
    by (simp_all add: c tracer_key_facts(1))
  obtain m where m: "z = Suc m" using z(1) by (cases z) auto
  show ?thesis
    unfolding hide_tracer_def z(2) s tw Let_def Option.bind.simps option.case parts length_append tracer_key_facts(1) by (simp add: parts m)
qed

text \<open>The first open of the process status serves a copy of the file in which the line with the tracer is empty: the
  text before the key and, behind it, the newline and all following lines are unchanged, and the buffer is terminated.
  Every later open, whatever the flags and whatever the status of the process is by then, serves the same buffer.\<close>

lemma open_status_hidden:
  assumes "status_with content before v after" "proc_status H = Some content"
  shows "\<exists>buf. bionic_open H ''/proc/self/status'' oflag mode None = Some (memory_fileno H, Some buf) \<and>
     NUL \<in> set buf \<and> takeWhile (\<lambda>c. c \<noteq> NUL) buf = before @ CHR 0x0A # after \<and>
     (\<forall>H' oflag' mode'. bionic_open H' ''/proc/self/status'' oflag' mode' (Some buf) = Some (memory_fileno H', Some buf))"
proof -
  obtain rest where r: "hide_tracer (read_status content) = Some (before @ CHR 0x0A # after @ NUL # rest)"
    using hide_tracer_eq [OF assms(1)] by blast
  have "content = before @ tracer_key @ v @ CHR 0x0A # after" "NUL \<notin> set content"
    using assms(1) unfolding status_with_def by blast+
  then have n: "NUL \<notin> set before" "NUL \<notin> set after" by simp_all
  have "\<forall>x\<in>set (before @ CHR 0x0A # after). x \<noteq> NUL" using n by auto
  then have "takeWhile (\<lambda>c. c \<noteq> NUL) ((before @ CHR 0x0A # after) @ NUL # rest) = before @ CHR 0x0A # after"
    by (rule takeWhile_stop) simp
  moreover have "apply_path_overrides ''/proc/self/status'' = (''/proc/self/status'', False, False)"
    by (simp add: apply_path_overrides_def starts_with_def)
  ultimately show ?thesis using r assms(2)
    by (intro exI [of _ "before @ CHR 0x0A # after @ NUL # rest"]) (simp add: bionic_open_def)
qed

end
