(* ===== verification/Forwarders.thy ===== *)
theory Forwarders
  imports Bionic_Prelude
begin

text \<open>
  Functions that pass their arguments on to the C library of the host: those of \<open>libc/libc-stdio.c\<close>, the unchecked ones of
  \<open>libc/libc-chk.c\<close>, those of \<open>libc/libc.c\<close>, and \<open>libc/libc-musl.c\<close>, which is compiled when the host is musl. Each
  function is one row: its name, the kinds of its parameters, the function it calls, the expressions of the call's
  arguments in terms of the parameters, and the conversion of the result. The values of all types are words.
\<close>

section \<open>Rows\<close>

text \<open>\<open>P_off32\<close> is the unsigned 32-bit type that \<open>libc-musl.c\<close> declares for file offsets.\<close>

datatype par = P_FILE | P_off32 | P_other

datatype arg_ex = Arg nat | To_glibc nat | Or_macro nat string | Macro string | Literal u64

datatype ret_conv = Same | To_off32

datatype forwarder = Fw (fw_name: string) (fw_params: "par list") (fw_host: string) (fw_args: "arg_ex list") (fw_ret: ret_conv)

text \<open>
  The build and the host: the width of a pointer, the array with the standard streams of the program, the streams of the host,
  and the values of macros of its headers.
\<close>

record streams =
  is_lp64 :: bool
  bionic___sF :: u64
  host_stdin :: u64
  host_stdout :: u64
  host_stderr :: u64
  host_macro :: "string \<Rightarrow> u64"

definition sizeof_sFILE :: "bool \<Rightarrow> u64" where "sizeof_sFILE lp64 = (if lp64 then 152 else 84)"

text \<open>The address of an element of the array.\<close>

definition sF_at :: "streams \<Rightarrow> u64 \<Rightarrow> u64" where
  "sF_at W i = bionic___sF W + i * sizeof_sFILE (is_lp64 W)"

definition bionic_file_to_glibc_file :: "streams \<Rightarrow> u64 \<Rightarrow> u64" where
  "bionic_file_to_glibc_file W f =
     (if f = sF_at W 0 then host_stdin W
      else if f = sF_at W 1 then host_stdout W
      else if f = sF_at W 2 then host_stderr W
      else f)"

text \<open>The value that a parameter of a kind holds when it is given a word, and the value of an expression.\<close>

definition par_value :: "par \<Rightarrow> u64 \<Rightarrow> u64" where
  "par_value k v = (case k of P_off32 \<Rightarrow> ucast (ucast v :: u32) | _ \<Rightarrow> v)"

fun eval_ex :: "streams \<Rightarrow> u64 list \<Rightarrow> arg_ex \<Rightarrow> u64 option" where
  "eval_ex W vs (Arg i) = arr_get vs i"
| "eval_ex W vs (To_glibc i) = map_option (bionic_file_to_glibc_file W) (arr_get vs i)"
| "eval_ex W vs (Or_macro i c) = map_option (\<lambda>v. v OR host_macro W c) (arr_get vs i)"
| "eval_ex W vs (Macro c) = Some (host_macro W c)"
| "eval_ex W vs (Literal c) = Some c"

definition ret_value :: "ret_conv \<Rightarrow> u64 \<Rightarrow> u64" where
  "ret_value rt v = (case rt of Same \<Rightarrow> v | To_off32 \<Rightarrow> ucast (ucast v :: u32))"

type_synonym 's callee = "string \<Rightarrow> u64 list \<Rightarrow> 's \<Rightarrow> (u64 \<times> 's) option"

definition forward :: "streams \<Rightarrow> 's callee \<Rightarrow> forwarder \<Rightarrow> u64 list \<Rightarrow> 's \<Rightarrow> (u64 \<times> 's) option" where
  "forward W callee r vs st = do {
     c_assert (length vs = length (fw_params r));
     args \<leftarrow> those (map (eval_ex W (map2 par_value (fw_params r) vs)) (fw_args r));
     (v, st) \<leftarrow> callee (fw_host r) args st;
     Some (ret_value (fw_ret r) v, st)
   }"

text \<open>
  A call by name. A row may call another row of the table, which then calls the host; the host is a function of its state.
\<close>

definition call_leaf :: "streams \<Rightarrow> forwarder list \<Rightarrow> (string \<Rightarrow> u64 list \<Rightarrow> 's \<Rightarrow> u64 \<times> 's) \<Rightarrow> 's callee" where
  "call_leaf W rows host name vs st = (case find (\<lambda>r. fw_name r = name) rows of
     None \<Rightarrow> Some (host name vs st)
   | Some r \<Rightarrow> forward W (\<lambda>n vs st. Some (host n vs st)) r vs st)"

definition invoke :: "streams \<Rightarrow> forwarder list \<Rightarrow> (string \<Rightarrow> u64 list \<Rightarrow> 's \<Rightarrow> u64 \<times> 's) \<Rightarrow> 's callee" where
  "invoke W rows host name vs st = do {
     r \<leftarrow> find (\<lambda>r. fw_name r = name) rows;
     forward W (call_leaf W rows host) r vs st
   }"

section \<open>The functions\<close>

definition stdio_rows :: "forwarder list" where
  "stdio_rows = [
    Fw ''__srget'' [P_FILE] ''fgetc'' [To_glibc 0] Same,
    Fw ''__swbuf'' [P_other, P_FILE] ''fputc'' [Arg 0, To_glibc 1] Same,
    Fw ''bionic_fflush'' [P_FILE] ''fflush'' [To_glibc 0] Same,
    Fw ''bionic_fwrite'' [P_other, P_other, P_other, P_FILE] ''fwrite'' [Arg 0, Arg 1, Arg 2, To_glibc 3] Same,
    Fw ''bionic_putc'' [P_other, P_FILE] ''putc'' [Arg 0, To_glibc 1] Same,
    Fw ''__wrap_IO_file_xsputn'' [P_FILE, P_other, P_other] ''__real_IO_file_xsputn'' [To_glibc 0, Arg 1, Arg 2] Same]"

definition unchecked_set_rows :: "forwarder list" where
  "unchecked_set_rows = [
    Fw ''bionic___FD_ISSET_chk'' [P_other, P_other] ''FD_ISSET'' [Arg 0, Arg 1] Same,
    Fw ''bionic___FD_CLR_chk'' [P_other, P_other] ''FD_CLR'' [Arg 0, Arg 1] Same,
    Fw ''bionic___FD_SET_chk'' [P_other, P_other] ''FD_SET'' [Arg 0, Arg 1] Same,
    Fw ''bionic___strncpy_chk'' [P_other, P_other, P_other, P_other] ''strncpy'' [Arg 0, Arg 1, Arg 2] Same]"

definition unchecked_copy_rows :: "forwarder list" where
  "unchecked_copy_rows = [
    Fw ''bionic___vsnprintf_chk'' [P_other, P_other, P_other, P_other, P_other, P_other] ''vsnprintf'' [Arg 0, Arg 1, Arg 4, Arg 5] Same,
    Fw ''bionic___snprintf_chk'' [P_other, P_other, P_other, P_other, P_other, P_other] ''bionic___vsnprintf_chk'' [Arg 0, Arg 1, Arg 2, Arg 3, Arg 4, Arg 5] Same,
    Fw ''bionic___vsprintf_chk'' [P_other, P_other, P_other, P_other, P_other] ''vsnprintf'' [Arg 0, Arg 2, Arg 3, Arg 4] Same,
    Fw ''bionic___sprintf_chk'' [P_other, P_other, P_other, P_other, P_other] ''bionic___vsprintf_chk'' [Arg 0, Arg 1, Arg 2, Arg 3, Arg 4] Same,
    Fw ''bionic___memcpy_chk'' [P_other, P_other, P_other, P_other] ''memcpy'' [Arg 0, Arg 1, Arg 2] Same,
    Fw ''bionic___memmove_chk'' [P_other, P_other, P_other, P_other] ''memmove'' [Arg 0, Arg 1, Arg 2] Same,
    Fw ''bionic___read_chk'' [P_other, P_other, P_other, P_other] ''read'' [Arg 0, Arg 1, Arg 2] Same,
    Fw ''__open_2'' [P_other, P_other] ''open'' [Arg 0, Or_macro 1 ''O_LARGEFILE'', Literal 0] Same,
    Fw ''bionic___memset_chk'' [P_other, P_other, P_other, P_other] ''memset'' [Arg 0, Arg 1, Arg 2] Same,
    Fw ''bionic___strcpy_chk'' [P_other, P_other, P_other] ''strcpy'' [Arg 0, Arg 1] Same]"

definition libc_thread_rows :: "forwarder list" where
  "libc_thread_rows = [
    Fw ''gettid'' [] ''syscall'' [Macro ''SYS_gettid''] Same,
    Fw ''tgkill'' [P_other, P_other, P_other] ''syscall'' [Macro ''SYS_tgkill'', Arg 0, Arg 1, Arg 2] Same,
    Fw ''tkill'' [P_other, P_other] ''syscall'' [Macro ''SYS_tkill'', Arg 0, Arg 1] Same]"

definition libc_stat_rows :: "forwarder list" where
  "libc_stat_rows = [
    Fw ''bionic_stat'' [P_other, P_other] ''stat'' [Arg 0, Arg 1] Same,
    Fw ''bionic_lstat'' [P_other, P_other] ''lstat'' [Arg 0, Arg 1] Same,
    Fw ''bionic_fstat'' [P_other, P_other] ''fstat'' [Arg 0, Arg 1] Same,
    Fw ''bionic_fstatat'' [P_other, P_other, P_other, P_other] ''fstatat'' [Arg 0, Arg 1, Arg 2, Arg 3] Same]"

definition musl_common_rows :: "forwarder list" where
  "musl_common_rows = [
    Fw ''strtoll_l'' [P_other, P_other, P_other, P_other] ''strtoll'' [Arg 0, Arg 1, Arg 2] Same,
    Fw ''strtoull_l'' [P_other, P_other, P_other, P_other] ''strtoull'' [Arg 0, Arg 1, Arg 2] Same,
    Fw ''__cmsg_nxthdr'' [P_other, P_other] ''CMSG_NXTHDR'' [Arg 0, Arg 1] Same,
    Fw ''bionic___strcat_chk'' [P_other, P_other] ''strcat'' [Arg 0, Arg 1] Same]"

definition musl_off32_rows :: "forwarder list" where
  "musl_off32_rows = [
    Fw ''bionic_mmap'' [P_other, P_other, P_other, P_other, P_other, P_off32] ''mmap'' [Arg 0, Arg 1, Arg 2, Arg 3, Arg 4, Arg 5] Same,
    Fw ''bionic_posix_fallocate'' [P_other, P_off32, P_off32] ''posix_fallocate'' [Arg 0, Arg 1, Arg 2] Same,
    Fw ''bionic_lseek'' [P_other, P_off32, P_other] ''lseek'' [Arg 0, Arg 1, Arg 2] To_off32,
    Fw ''bionic_pread'' [P_other, P_other, P_other, P_off32] ''pread'' [Arg 0, Arg 1, Arg 2, Arg 3] Same,
    Fw ''bionic_pwrite'' [P_other, P_other, P_other, P_off32] ''pwrite'' [Arg 0, Arg 1, Arg 2, Arg 3] Same,
    Fw ''bionic_truncate'' [P_other, P_off32] ''truncate'' [Arg 0, Arg 1] Same,
    Fw ''bionic_ftruncate'' [P_other, P_off32] ''ftruncate'' [Arg 0, Arg 1] Same,
    Fw ''bionic_ftello'' [P_FILE] ''ftello'' [To_glibc 0] To_off32,
    Fw ''bionic_fseeko'' [P_FILE, P_off32, P_other] ''fseeko'' [To_glibc 0, Arg 1, Arg 2] Same]"

definition musl_off64_rows :: "forwarder list" where
  "musl_off64_rows = [
    Fw ''bionic_ftello'' [P_FILE] ''ftello'' [To_glibc 0] Same,
    Fw ''bionic_fseeko'' [P_FILE, P_other, P_other] ''fseeko'' [To_glibc 0, Arg 1, Arg 2] Same]"

definition musl_stat64_rows :: "forwarder list" where
  "musl_stat64_rows = [
    Fw ''bionic_stat64'' [P_other, P_other] ''stat'' [Arg 0, Arg 1] Same,
    Fw ''bionic_fstat64'' [P_other, P_other] ''fstat'' [Arg 0, Arg 1] Same,
    Fw ''bionic_lstat64'' [P_other, P_other] ''lstat'' [Arg 0, Arg 1] Same,
    Fw ''statfs64'' [P_other, P_other] ''statfs'' [Arg 0, Arg 1] Same,
    Fw ''statvfs64'' [P_other, P_other] ''statfs'' [Arg 0, Arg 1] Same,
    Fw ''bionic_mmap64'' [P_other, P_other, P_other, P_other, P_other, P_other] ''mmap'' [Arg 0, Arg 1, Arg 2, Arg 3, Arg 4, Arg 5] Same,
    Fw ''bionic_readdir64'' [P_other] ''readdir'' [Arg 0] Same,
    Fw ''bionic_posix_fallocate64'' [P_other, P_other, P_other] ''posix_fallocate'' [Arg 0, Arg 1, Arg 2] Same]"

definition musl_file64_rows :: "forwarder list" where
  "musl_file64_rows = [
    Fw ''bionic_getrlimit64'' [P_other, P_other] ''getrlimit'' [Arg 0, Arg 1] Same,
    Fw ''bionic_setrlimit64'' [P_other, P_other] ''setrlimit'' [Arg 0, Arg 1] Same,
    Fw ''bionic_aio_read64'' [P_other] ''aio_read'' [Arg 0] Same,
    Fw ''bionic_aio_write64'' [P_other] ''aio_write'' [Arg 0] Same,
    Fw ''bionic_lio_listio64'' [P_other, P_other, P_other, P_other] ''lio_listio'' [Arg 0, Arg 1, Arg 2, Arg 3] Same,
    Fw ''bionic_globfree64'' [P_other] ''globfree'' [Arg 0] Same,
    Fw ''bionic_lseek64'' [P_other, P_other, P_other] ''lseek'' [Arg 0, Arg 1, Arg 2] Same,
    Fw ''bionic_pread64'' [P_other, P_other, P_other, P_other] ''pread'' [Arg 0, Arg 1, Arg 2, Arg 3] Same,
    Fw ''bionic_pwrite64'' [P_other, P_other, P_other, P_other] ''pwrite'' [Arg 0, Arg 1, Arg 2, Arg 3] Same,
    Fw ''bionic_truncate64'' [P_other, P_other] ''truncate'' [Arg 0, Arg 1] Same,
    Fw ''bionic_ftruncate64'' [P_other, P_other] ''ftruncate'' [Arg 0, Arg 1] Same,
    Fw ''bionic_ftw64'' [P_other, P_other, P_other] ''ftw'' [Arg 0, Arg 1, Arg 2] Same,
    Fw ''bionic_nftw64'' [P_other, P_other, P_other, P_other] ''nftw'' [Arg 0, Arg 1, Arg 2, Arg 3] Same,
    Fw ''bionic_ftello64'' [P_FILE] ''ftello'' [To_glibc 0] Same,
    Fw ''bionic_fseeko64'' [P_FILE, P_other, P_other] ''fseeko'' [To_glibc 0, Arg 1, Arg 2] Same,
    Fw ''bionic_aio_error64'' [P_other] ''aio_error'' [Arg 0] Same,
    Fw ''bionic_aio_return64'' [P_other] ''aio_return'' [Arg 0] Same,
    Fw ''bionic_aio_cancel64'' [P_other, P_other] ''aio_cancel'' [Arg 0, Arg 1] Same]"

definition musl_more64_rows :: "forwarder list" where
  "musl_more64_rows = [
    Fw ''bionic_freopen64'' [P_other, P_other, P_FILE] ''freopen'' [Arg 0, Arg 1, To_glibc 2] Same,
    Fw ''bionic_scandir64'' [P_other, P_other, P_other, P_other] ''scandir'' [Arg 0, Arg 1, Arg 2, Arg 3] Same,
    Fw ''bionic_alphasort64'' [P_other, P_other] ''alphasort'' [Arg 0, Arg 1] Same,
    Fw ''bionic_versionsort64'' [P_other, P_other] ''versionsort'' [Arg 0, Arg 1] Same,
    Fw ''bionic_fgetpos64'' [P_FILE, P_other] ''fgetpos'' [To_glibc 0, Arg 1] Same,
    Fw ''bionic_fsetpos64'' [P_FILE, P_other] ''fsetpos'' [To_glibc 0, Arg 1] Same,
    Fw ''bionic_tmpfile64'' [] ''tmpfile'' [] Same,
    Fw ''bionic_glob64'' [P_other, P_other, P_other, P_other] ''glob'' [Arg 0, Arg 1, Arg 2, Arg 3] Same,
    Fw ''bionic_aio_fsync64'' [P_other, P_other] ''aio_fsync'' [Arg 0, Arg 1] Same,
    Fw ''bionic_aio_suspend64'' [P_other, P_other, P_other] ''aio_suspend'' [Arg 0, Arg 1, Arg 2] Same]"

definition musl_line_rows :: "forwarder list" where
  "musl_line_rows = [
    Fw ''bionic_getline'' [P_other, P_other, P_FILE] ''getline'' [Arg 0, Arg 1, To_glibc 2] Same,
    Fw ''bionic_getdelim'' [P_other, P_other, P_other, P_FILE] ''getdelim'' [Arg 0, Arg 1, Arg 2, To_glibc 3] Same,
    Fw ''bionic_fgets'' [P_other, P_other, P_FILE] ''fgets'' [Arg 0, Arg 1, To_glibc 2] Same,
    Fw ''bionic_fgetws'' [P_other, P_other, P_FILE] ''fgetws'' [Arg 0, Arg 1, To_glibc 2] Same,
    Fw ''bionic_fgets_unlocked'' [P_other, P_other, P_FILE] ''fgets_unlocked'' [Arg 0, Arg 1, To_glibc 2] Same,
    Fw ''bionic_fgetws_unlocked'' [P_other, P_other, P_FILE] ''fgetws_unlocked'' [Arg 0, Arg 1, To_glibc 2] Same,
    Fw ''bionic_endmntent'' [P_FILE] ''endmntent'' [To_glibc 0] Same,
    Fw ''bionic_getmntent'' [P_FILE] ''getmntent'' [To_glibc 0] Same,
    Fw ''bionic_getmntent_r'' [P_FILE, P_other, P_other, P_other] ''getmntent_r'' [To_glibc 0, Arg 1, Arg 2, Arg 3] Same,
    Fw ''bionic_addmntent'' [P_FILE, P_other] ''addmntent'' [To_glibc 0, Arg 1] Same,
    Fw ''bionic_setvbuf'' [P_FILE, P_other, P_other, P_other] ''setvbuf'' [To_glibc 0, Arg 1, Arg 2, Arg 3] Same,
    Fw ''bionic_setbuf'' [P_FILE, P_other] ''setbuf'' [To_glibc 0, Arg 1] Same,
    Fw ''bionic_setbuffer'' [P_FILE, P_other, P_other] ''setbuffer'' [To_glibc 0, Arg 1, Arg 2] Same,
    Fw ''bionic_setlinebuf'' [P_FILE] ''setlinebuf'' [To_glibc 0] Same,
    Fw ''bionic___flbf'' [P_FILE] ''__flbf'' [To_glibc 0] Same,
    Fw ''bionic___fbufsize'' [P_FILE] ''__fbufsize'' [To_glibc 0] Same,
    Fw ''bionic___fpending'' [P_FILE] ''__fpending'' [To_glibc 0] Same,
    Fw ''bionic_fclose'' [P_FILE] ''fclose'' [To_glibc 0] Same,
    Fw ''bionic_fprintf'' [P_FILE, P_other, P_other] ''vfprintf'' [To_glibc 0, Arg 1, Arg 2] Same,
    Fw ''bionic_vfprintf'' [P_FILE, P_other, P_other] ''vfprintf'' [To_glibc 0, Arg 1, Arg 2] Same,
    Fw ''bionic_vfwprintf'' [P_FILE, P_other, P_other] ''vfwprintf'' [To_glibc 0, Arg 1, Arg 2] Same,
    Fw ''bionic_fgetc'' [P_FILE] ''fgetc'' [To_glibc 0] Same,
    Fw ''bionic_fgetwc'' [P_FILE] ''fgetwc'' [To_glibc 0] Same,
    Fw ''bionic_fgetc_unlocked'' [P_FILE] ''fgetc_unlocked'' [To_glibc 0] Same,
    Fw ''bionic_fgetwc_unlocked'' [P_FILE] ''fgetwc_unlocked'' [To_glibc 0] Same,
    Fw ''bionic_getc'' [P_FILE] ''getc'' [To_glibc 0] Same,
    Fw ''bionic_getwc'' [P_FILE] ''getwc'' [To_glibc 0] Same]"

definition musl_state_rows :: "forwarder list" where
  "musl_state_rows = [
    Fw ''bionic_getc_unlocked'' [P_FILE] ''getc_unlocked'' [To_glibc 0] Same,
    Fw ''bionic_getwc_unlocked'' [P_FILE] ''getwc_unlocked'' [To_glibc 0] Same,
    Fw ''bionic_getw'' [P_FILE] ''getw'' [To_glibc 0] Same,
    Fw ''bionic_flockfile'' [P_FILE] ''flockfile'' [To_glibc 0] Same,
    Fw ''bionic_ftrylockfile'' [P_FILE] ''ftrylockfile'' [To_glibc 0] Same,
    Fw ''bionic_funlockfile'' [P_FILE] ''funlockfile'' [To_glibc 0] Same,
    Fw ''bionic___fsetlocking'' [P_FILE, P_other] ''__fsetlocking'' [To_glibc 0, Arg 1] Same,
    Fw ''bionic_clearerr'' [P_FILE] ''clearerr'' [To_glibc 0] Same,
    Fw ''bionic_clearerr_unlocked'' [P_FILE] ''clearerr_unlocked'' [To_glibc 0] Same,
    Fw ''bionic_fflush_unlocked'' [P_FILE] ''fflush_unlocked'' [To_glibc 0] Same,
    Fw ''bionic___fpurge'' [P_FILE] ''__fpurge'' [To_glibc 0] Same,
    Fw ''bionic_feof'' [P_FILE] ''feof'' [To_glibc 0] Same,
    Fw ''bionic_feof_unlocked'' [P_FILE] ''feof_unlocked'' [To_glibc 0] Same,
    Fw ''bionic_ferror'' [P_FILE] ''ferror'' [To_glibc 0] Same,
    Fw ''bionic_ferror_unlocked'' [P_FILE] ''ferror_unlocked'' [To_glibc 0] Same,
    Fw ''bionic_fputc'' [P_other, P_FILE] ''fputc'' [Arg 0, To_glibc 1] Same,
    Fw ''bionic_fputwc'' [P_other, P_FILE] ''fputwc'' [Arg 0, To_glibc 1] Same,
    Fw ''bionic_fputc_unlocked'' [P_other, P_FILE] ''fputc_unlocked'' [Arg 0, To_glibc 1] Same,
    Fw ''bionic_fputwc_unlocked'' [P_other, P_FILE] ''fputwc_unlocked'' [Arg 0, To_glibc 1] Same,
    Fw ''bionic_putwc'' [P_other, P_FILE] ''putwc'' [Arg 0, To_glibc 1] Same,
    Fw ''bionic_putc_unlocked'' [P_other, P_FILE] ''putc_unlocked'' [Arg 0, To_glibc 1] Same,
    Fw ''bionic_putwc_unlocked'' [P_other, P_FILE] ''putwc_unlocked'' [Arg 0, To_glibc 1] Same,
    Fw ''bionic_fputs'' [P_other, P_FILE] ''fputs'' [Arg 0, To_glibc 1] Same,
    Fw ''bionic_fputws'' [P_other, P_FILE] ''fputws'' [Arg 0, To_glibc 1] Same,
    Fw ''bionic_fputs_unlocked'' [P_other, P_FILE] ''fputs_unlocked'' [Arg 0, To_glibc 1] Same]"

definition musl_block_rows :: "forwarder list" where
  "musl_block_rows = [
    Fw ''bionic_fputws_unlocked'' [P_other, P_FILE] ''fputws_unlocked'' [Arg 0, To_glibc 1] Same,
    Fw ''bionic_putw'' [P_other, P_FILE] ''putw'' [Arg 0, To_glibc 1] Same,
    Fw ''bionic_ungetc'' [P_other, P_FILE] ''ungetc'' [Arg 0, To_glibc 1] Same,
    Fw ''bionic_ungetwc'' [P_other, P_FILE] ''ungetwc'' [Arg 0, To_glibc 1] Same,
    Fw ''bionic_pclose'' [P_FILE] ''pclose'' [To_glibc 0] Same,
    Fw ''bionic_ftell'' [P_FILE] ''ftell'' [To_glibc 0] Same,
    Fw ''bionic_fseek'' [P_FILE, P_other, P_other] ''fseek'' [To_glibc 0, Arg 1, Arg 2] Same,
    Fw ''bionic_rewind'' [P_FILE] ''rewind'' [To_glibc 0] Same,
    Fw ''bionic_freopen'' [P_other, P_other, P_FILE] ''freopen'' [Arg 0, Arg 1, To_glibc 2] Same,
    Fw ''bionic___freadable'' [P_FILE] ''__freadable'' [To_glibc 0] Same,
    Fw ''bionic___fwritable'' [P_FILE] ''__fwritable'' [To_glibc 0] Same,
    Fw ''bionic___freading'' [P_FILE] ''__freading'' [To_glibc 0] Same,
    Fw ''bionic___fwriting'' [P_FILE] ''__fwriting'' [To_glibc 0] Same,
    Fw ''bionic_fileno'' [P_FILE] ''fileno'' [To_glibc 0] Same,
    Fw ''bionic_fileno_unlocked'' [P_FILE] ''fileno_unlocked'' [To_glibc 0] Same,
    Fw ''bionic_fread'' [P_other, P_other, P_other, P_FILE] ''fread'' [Arg 0, Arg 1, Arg 2, To_glibc 3] Same,
    Fw ''bionic_fread_unlocked'' [P_other, P_other, P_other, P_FILE] ''fread_unlocked'' [Arg 0, Arg 1, Arg 2, To_glibc 3] Same,
    Fw ''bionic_fwrite_unlocked'' [P_other, P_other, P_other, P_FILE] ''fwrite_unlocked'' [Arg 0, Arg 1, Arg 2, To_glibc 3] Same,
    Fw ''bionic_fgetpos'' [P_FILE, P_other] ''fgetpos'' [To_glibc 0, Arg 1] Same,
    Fw ''bionic_fsetpos'' [P_FILE, P_other] ''fsetpos'' [To_glibc 0, Arg 1] Same,
    Fw ''bionic_vfscanf'' [P_FILE, P_other, P_other] ''vfscanf'' [To_glibc 0, Arg 1, Arg 2] Same,
    Fw ''bionic_vfwscanf'' [P_FILE, P_other, P_other] ''vfwscanf'' [To_glibc 0, Arg 1, Arg 2] Same,
    Fw ''bionic_fwide'' [P_FILE, P_other] ''fwide'' [To_glibc 0, Arg 1] Same]"

text \<open>The offset functions depend on the width of \<^verbatim>\<open>long\<close>.\<close>

definition musl_rows :: "bool \<Rightarrow> forwarder list" where
  "musl_rows lp64 = musl_common_rows @ (if lp64 then musl_off64_rows else musl_off32_rows) @
     musl_stat64_rows @ musl_file64_rows @ musl_more64_rows @ musl_line_rows @ musl_state_rows @ musl_block_rows"

definition unchecked_rows :: "forwarder list" where
  "unchecked_rows = unchecked_set_rows @ unchecked_copy_rows"

lemmas musl_rows_defs = musl_rows_def musl_common_rows_def musl_off64_rows_def musl_off32_rows_def musl_stat64_rows_def
  musl_file64_rows_def musl_more64_rows_def musl_line_rows_def musl_state_rows_def musl_block_rows_def

end
