(* ===== verification/Forwarders_Correct.thy ===== *)
theory Forwarders_Correct
  imports Forwarders
begin

text \<open>
  What the forwarding functions promise: the host's function of the same name gets the arguments in their order, unchanged
  but for the standard streams, which become those of the host.
\<close>

section \<open>Rows that pass all their parameters\<close>

definition std_ex :: "par \<Rightarrow> nat \<Rightarrow> arg_ex" where
  "std_ex k i = (if k = P_FILE then To_glibc i else Arg i)"

definition passes_all :: "forwarder \<Rightarrow> bool" where
  "passes_all r \<longleftrightarrow> fw_args r = map2 std_ex (fw_params r) [0..<length (fw_params r)]"

definition host_value :: "streams \<Rightarrow> par \<Rightarrow> u64 \<Rightarrow> u64" where
  "host_value W k v = (case k of P_FILE \<Rightarrow> bionic_file_to_glibc_file W v | P_off32 \<Rightarrow> ucast (ucast v :: u32) | P_other \<Rightarrow> v)"

lemma those_map_Some: "(\<And>x. x \<in> set xs \<Longrightarrow> f x = Some (g x)) \<Longrightarrow> those (map f xs) = Some (map g xs)"
  by (induction xs) auto

lemma those_std:
  assumes "length vs = length ps"
  shows "those (map (eval_ex W (map2 par_value ps vs)) (map2 std_ex ps [0..<length ps])) = Some (map2 (host_value W) ps vs)"
proof -
  have v: "eval_ex W (map2 par_value ps vs) (std_ex (ps ! i) i) = Some (host_value W (ps ! i) (vs ! i))" if "i < length ps" for i
    using that assms by (cases "ps ! i") (simp_all add: std_ex_def arr_get_def par_value_def host_value_def)
  have "map2 std_ex ps [0..<length ps] = map (\<lambda>i. std_ex (ps ! i) i) [0..<length ps]"
    by (rule nth_equalityI) simp_all
  moreover have "map2 (host_value W) ps vs = map (\<lambda>i. host_value W (ps ! i) (vs ! i)) [0..<length ps]"
    using assms by (intro nth_equalityI) simp_all
  moreover have "those (map (\<lambda>i. eval_ex W (map2 par_value ps vs) (std_ex (ps ! i) i)) [0..<length ps]) =
      Some (map (\<lambda>i. host_value W (ps ! i) (vs ! i)) [0..<length ps])"
    using v by (intro those_map_Some) simp
  ultimately show ?thesis by (simp add: comp_def)
qed

lemma forward_passes_all:
  assumes "passes_all r" "length vs = length (fw_params r)"
  shows "forward W callee r vs st =
     map_option (\<lambda>(v, st'). (ret_value (fw_ret r) v, st')) (callee (fw_host r) (map2 (host_value W) (fw_params r) vs) st)"
  using assms those_std [OF assms(2), of W]
  by (simp add: forward_def passes_all_def c_assert_def map_conv_bind_option split_def comp_def)

section \<open>The names\<close>

definition strip_prefix_str :: "string \<Rightarrow> string \<Rightarrow> string" where
  "strip_prefix_str p s = (if take (length p) s = p then drop (length p) s else s)"

definition strip_64 :: "string \<Rightarrow> string" where
  "strip_64 s = rev (strip_prefix_str ''46'' (rev s))"

text \<open>The functions that call one of another name.\<close>

definition renamed :: "(string \<times> string) list" where
  "renamed = [(''__cmsg_nxthdr'', ''CMSG_NXTHDR''), (''bionic___strcat_chk'', ''strcat''), (''statvfs64'', ''statfs''),
     (''bionic_fprintf'', ''vfprintf'')]"

definition host_name :: "string \<Rightarrow> string" where
  "host_name name = (case map_of renamed name of Some h \<Rightarrow> h | None \<Rightarrow> strip_64 (strip_prefix_str ''bionic_'' name))"

definition drops_locale :: "string \<Rightarrow> bool" where
  "drops_locale name \<longleftrightarrow> name \<in> {''strtoll_l'', ''strtoull_l''}"

definition row_name :: "string \<Rightarrow> bool" where
  "row_name name \<longleftrightarrow> take 7 name = ''bionic_'' \<or> drops_locale name \<or> name \<in> {''__cmsg_nxthdr'', ''statfs64'', ''statvfs64''}"

definition musl_row_ok :: "forwarder \<Rightarrow> bool" where
  "musl_row_ok r \<longleftrightarrow> row_name (fw_name r) \<and> \<not> row_name (fw_host r) \<and>
     (drops_locale (fw_name r) \<or> passes_all r \<and> fw_host r = host_name (fw_name r))"

lemma musl_rows_ok:
  "list_all musl_row_ok musl_common_rows" "list_all musl_row_ok musl_off64_rows" "list_all musl_row_ok musl_off32_rows"
  "list_all musl_row_ok musl_stat64_rows" "list_all musl_row_ok musl_file64_rows" "list_all musl_row_ok musl_more64_rows"
  "list_all musl_row_ok musl_line_rows" "list_all musl_row_ok musl_state_rows" "list_all musl_row_ok musl_block_rows"
  by code_simp+

lemma musl_row_okI: "r \<in> set (musl_rows lp64) \<Longrightarrow> musl_row_ok r"
  using musl_rows_ok unfolding musl_rows_def list_all_iff by (auto split: if_splits)

lemma find_row_name_None:
  assumes "\<not> row_name name" shows "find (\<lambda>r. fw_name r = name) (musl_rows lp64) = None"
proof -
  have "fw_name r \<noteq> name" if "r \<in> set (musl_rows lp64)" for r
    using musl_row_okI [OF that] assms by (auto simp: musl_row_ok_def)
  then show ?thesis by (simp add: find_None_iff)
qed



section \<open>Functions that lose their check\<close>

text \<open>
  The length that the compiler knows is dropped: \<open>__snprintf_chk\<close> writes as much as it is told to, while \<open>__sprintf_chk\<close> is
  bounded by that length.
\<close>

lemma snprintf_chk_calls:
  "invoke W unchecked_rows host ''bionic___snprintf_chk'' [dest, n, flags, dest_len, fmt, va] st =
     (let (v, st') = host ''vsnprintf'' [dest, n, fmt, va] st in Some (v, st'))"
  by (simp add: invoke_def unchecked_rows_def unchecked_set_rows_def unchecked_copy_rows_def forward_def call_leaf_def c_assert_def
      arr_get_def par_value_def ret_value_def Let_def split_def)

lemma sprintf_chk_calls:
  "invoke W unchecked_rows host ''bionic___sprintf_chk'' [dest, flags, dest_len, fmt, va] st =
     (let (v, st') = host ''vsnprintf'' [dest, dest_len, fmt, va] st in Some (v, st'))"
  by (simp add: invoke_def unchecked_rows_def unchecked_set_rows_def unchecked_copy_rows_def forward_def call_leaf_def c_assert_def
      arr_get_def par_value_def ret_value_def Let_def split_def)

text \<open>A seek backwards by one byte in a 32-bit program asks musl for a seek forwards by almost 4 GiB.\<close>

lemma lseek_negative:
  "invoke W (musl_rows False) host ''bionic_lseek'' [fd, - 1, whence] st =
     (let (v, st') = host ''lseek'' [fd, 0xffffffff, whence] st in Some (ucast (ucast v :: u32), st'))"
proof -
  have f: "find (\<lambda>r. fw_name r = ''bionic_lseek'') (musl_rows False) =
      Some (Fw ''bionic_lseek'' [P_other, P_off32, P_other] ''lseek'' [Arg 0, Arg 1, Arg 2] To_off32)" by code_simp
  have "\<not> row_name ''lseek''" by code_simp
  moreover have "(ucast (ucast (- 1 :: u64) :: u32) :: u64) = 0xffffffff" by code_simp
  ultimately show ?thesis
    by (simp add: invoke_def f forward_def call_leaf_def find_row_name_None c_assert_def arr_get_def par_value_def ret_value_def Let_def split_def)
qed

end
