(* ===== verification/Pthread_Wrap.thy ===== *)
theory Pthread_Wrap
  imports C_Memory
begin

text \<open>
  The thread synchronisation objects (\<open>pthread_wrapper/libpthread.c\<close>). A bionic object is too small or too
  different to hold the host's object, so its first word becomes a pointer to a mapping with the host's
  object. Objects that the program never initialised, or initialised statically, get theirs on first use.
  The host's library and its \<^verbatim>\<open>mmap\<close> are parameters. One thread is modelled, and a waiting call is one step.
\<close>

section \<open>Objects and mappings\<close>

text \<open>A page holds one host object at its start, or something else.\<close>

datatype 'h page = Host 'h | Other

text \<open>
  \<open>bobj\<close> gives the 32-bit words of the program's object at an address, \<open>pages\<close> what is mapped at the start of a
  page.
\<close>

record 'h pworld =
  bobj :: "u64 \<Rightarrow> u32 list option"
  pages :: "u64 \<Rightarrow> 'h page option"

text \<open>The calls into the host's library that work on one object, with their other arguments.\<close>

datatype 'h hcall =
    Sem_init int u32 | Sem_destroy | Sem_post | Sem_wait | Sem_trywait | Sem_timedwait u64
  | Rwlock_init u64 | Rwlock_destroy | Rwlock_rdlock | Rwlock_unlock | Rwlock_wrlock
  | Attr_init | Attr_destroy | Getattr_np u64 | Attr_setstack u64 u64 | Attr_getstack | Attr_setstacksize u64
  | Attr_getstacksize | Attr_setschedpolicy int | Attr_getschedpolicy | Attr_setschedparam int | Attr_getschedparam
  | Attr_setdetachstate int | Attr_getdetachstate
  | Mutexattr_init | Mutexattr_destroy | Mutexattr_settype int
  | Mutex_init "'h option" | Mutex_destroy | Mutex_lock | Mutex_trylock | Mutex_unlock
  | Condattr_init | Condattr_destroy | Condattr_setclock int
  | Cond_init "'h option" | Cond_destroy | Cond_broadcast | Cond_signal

datatype mutex_kind = NORMAL | RECURSIVE | ERRORCHECK

record timespec =
  tv_sec :: int
  tv_nsec :: int

text \<open>
  The host: the address of the next mapping (\<open>-1\<close> when there is none), the object that zeroed memory
  represents, the static initialisers of a mutex, the calls (the result, the values stored through pointer
  arguments, the object), the wait for a condition, with or without an end, the creation of a thread, and the
  clocks.
\<close>

record 'h pthread_host =
  mmap_at :: "'h pworld \<Rightarrow> u64"
  hzero :: 'h
  hmutex :: "mutex_kind \<Rightarrow> 'h"
  hcall :: "'h hcall \<Rightarrow> 'h \<Rightarrow> int \<times> u64 list \<times> 'h"
  hwait :: "timespec option \<Rightarrow> 'h \<Rightarrow> 'h \<Rightarrow> int \<times> 'h \<times> 'h"
  hcreate :: "'h option \<Rightarrow> int"
  clock_realtime :: timespec
  clock_monotonic :: timespec

text \<open>The member \<open>glibc\<close> of the unions.\<close>

definition glibc_of :: "u32 list \<Rightarrow> u64" where
  "glibc_of x = ucast (x ! 0) OR push_bit 32 (ucast (x ! 1))"

definition set_glibc :: "u64 \<Rightarrow> u32 list \<Rightarrow> u32 list" where
  "set_glibc a x = ucast a # ucast (drop_bit 32 a) # drop 2 x"

text \<open>
  An object behind a pointer. \<open>None\<close>, here and below, stops the program: a failed assertion or an access to
  memory that is not there.
\<close>

definition obj :: "'h pworld \<Rightarrow> u64 \<Rightarrow> u32 list option" where
  "obj w p = (if p = 0 then None else bobj w p)"

definition put_obj :: "u64 \<Rightarrow> u32 list \<Rightarrow> 'h pworld \<Rightarrow> 'h pworld" where
  "put_obj p x w = w\<lparr>bobj := (bobj w)(p := Some x)\<rparr>"

definition put_page :: "u64 \<Rightarrow> 'h page option \<Rightarrow> 'h pworld \<Rightarrow> 'h pworld" where
  "put_page a pg w = w\<lparr>pages := (pages w)(a := pg)\<rparr>"

definition host_at :: "'h pworld \<Rightarrow> u64 \<Rightarrow> 'h option" where
  "host_at w a = (case pages w a of Some (Host h) \<Rightarrow> Some h | _ \<Rightarrow> None)"

text \<open>\<^verbatim>\<open>mincore\<close> fails for an address inside a page and when a page of the range is not mapped.\<close>

definition is_mapped :: "'h pworld \<Rightarrow> u64 \<Rightarrow> nat \<Rightarrow> bool" where
  "is_mapped w mem sz \<longleftrightarrow> mem AND 4095 = 0 \<and> (\<forall>i\<in>set [0..<(sz + 4096 - 1) div 4096]. pages w (mem + 4096 * of_nat i) \<noteq> None)"

text \<open>The size that the macro passes is that of the pointer.\<close>

definition IS_MAPPED :: "'h pworld \<Rightarrow> u32 list \<Rightarrow> bool" where
  "IS_MAPPED w x = is_mapped w (glibc_of x) 8"

text \<open>A new mapping is zeroed; the call is not checked.\<close>

definition mmap :: "'h pthread_host \<Rightarrow> 'h pworld \<Rightarrow> u64 \<times> 'h pworld" where
  "mmap H w = (let a = mmap_at H w in (a, if a = -1 then w else put_page a (Some (Host (hzero H))) w))"

definition munmap :: "u64 \<Rightarrow> 'h pworld \<Rightarrow> 'h pworld" where
  "munmap a w = put_page a None w"

text \<open>The call of the host's function on the object behind \<open>p\<close>.\<close>

definition host_op :: "'h pthread_host \<Rightarrow> 'h hcall \<Rightarrow> u64 \<Rightarrow> 'h pworld \<Rightarrow> ((int \<times> u64 list) \<times> 'h pworld) option" where
  "host_op H c p w = do {
     x \<leftarrow> obj w p;
     h \<leftarrow> host_at w (glibc_of x);
     let (r, out, h') = hcall H c h;
     Some ((r, out), put_page (glibc_of x) (Some (Host h')) w)
   }"

section \<open>The shapes of the wrappers\<close>

text \<open>A function that initialises the object: it is cleared, gets a mapping, and the host initialises it.\<close>

definition new_object :: "'h pthread_host \<Rightarrow> 'h hcall \<Rightarrow> u64 \<Rightarrow> 'h pworld \<Rightarrow> ((int \<times> u64 list) \<times> 'h pworld) option" where
  "new_object H c p w = do {
     x \<leftarrow> obj w p;
     let x = replicate (length x) 0;
     let (a, w) = mmap H w;
     host_op H c p (put_obj p (set_glibc a x) w)
   }"

text \<open>A function that destroys it.\<close>

definition destroy_object :: "'h pthread_host \<Rightarrow> 'h hcall \<Rightarrow> u64 \<Rightarrow> 'h pworld \<Rightarrow> ((int \<times> u64 list) \<times> 'h pworld) option" where
  "destroy_object H c p w = do {
     x \<leftarrow> obj w p;
     if IS_MAPPED w x then do {
       (r, w) \<leftarrow> host_op H c p w;
       Some (r, munmap (glibc_of x) w)
     } else Some ((0, []), w)
   }"

text \<open>A function that insists on an initialised object.\<close>

definition mapped_call :: "'h pthread_host \<Rightarrow> 'h hcall \<Rightarrow> u64 \<Rightarrow> 'h pworld \<Rightarrow> ((int \<times> u64 list) \<times> 'h pworld) option" where
  "mapped_call H c p w = do {
     x \<leftarrow> obj w p;
     c_assert (IS_MAPPED w x);
     host_op H c p w
   }"

text \<open>The macro \<open>INIT_IF_NOT_MAPPED\<close>.\<close>

definition INIT_IF_NOT_MAPPED :: "(u64 \<Rightarrow> 'h pworld \<Rightarrow> 'h pworld option) \<Rightarrow> u64 \<Rightarrow> 'h pworld \<Rightarrow> 'h pworld option" where
  "INIT_IF_NOT_MAPPED init p w = do { x \<leftarrow> obj w p; if IS_MAPPED w x then Some w else init p w }"

text \<open>The initialisation of an object from zeroed memory, which \<^verbatim>\<open>memset\<close> clears once more.\<close>

definition zero_init :: "'h pthread_host \<Rightarrow> u64 \<Rightarrow> 'h pworld \<Rightarrow> 'h pworld option" where
  "zero_init H p w = do {
     x \<leftarrow> obj w p;
     let (a, w) = mmap H w;
     let w = put_obj p (set_glibc a x) w;
     c_assert (pages w a \<noteq> None);
     Some (put_page a (Some (Host (hzero H))) w)
   }"

section \<open>Semaphores\<close>

definition bionic_sem_destroy where "bionic_sem_destroy H = destroy_object H Sem_destroy"
definition default_sem_init where "default_sem_init H = zero_init H"
definition bionic_sem_init where "bionic_sem_init H sem pshared value = new_object H (Sem_init pshared value) sem"

definition bionic_sem_post where
  "bionic_sem_post H sem w = do { w \<leftarrow> INIT_IF_NOT_MAPPED (default_sem_init H) sem w; host_op H Sem_post sem w }"
definition bionic_sem_wait where
  "bionic_sem_wait H sem w = do { w \<leftarrow> INIT_IF_NOT_MAPPED (default_sem_init H) sem w; host_op H Sem_wait sem w }"
definition bionic_sem_trywait where
  "bionic_sem_trywait H sem w = do { w \<leftarrow> INIT_IF_NOT_MAPPED (default_sem_init H) sem w; host_op H Sem_trywait sem w }"
definition bionic_sem_timedwait where
  "bionic_sem_timedwait H sem abs_timeout w = do {
     c_assert (sem \<noteq> 0 \<and> abs_timeout \<noteq> 0);
     w \<leftarrow> INIT_IF_NOT_MAPPED (default_sem_init H) sem w;
     host_op H (Sem_timedwait abs_timeout) sem w
   }"

section \<open>Read-write locks\<close>

definition bionic_pthread_rwlock_destroy where "bionic_pthread_rwlock_destroy H = destroy_object H Rwlock_destroy"
definition default_rwlock_init where "default_rwlock_init H = zero_init H"

text \<open>The lock is not cleared first.\<close>

definition bionic_pthread_rwlock_init where
  "bionic_pthread_rwlock_init H rwlock attr w = do {
     x \<leftarrow> obj w rwlock;
     let (a, w) = mmap H w;
     host_op H (Rwlock_init attr) rwlock (put_obj rwlock (set_glibc a x) w)
   }"

definition bionic_pthread_rwlock_rdlock where
  "bionic_pthread_rwlock_rdlock H rwlock w =
     do { w \<leftarrow> INIT_IF_NOT_MAPPED (default_rwlock_init H) rwlock w; host_op H Rwlock_rdlock rwlock w }"
definition bionic_pthread_rwlock_unlock where
  "bionic_pthread_rwlock_unlock H rwlock w =
     do { w \<leftarrow> INIT_IF_NOT_MAPPED (default_rwlock_init H) rwlock w; host_op H Rwlock_unlock rwlock w }"
definition bionic_pthread_rwlock_wrlock where
  "bionic_pthread_rwlock_wrlock H rwlock w =
     do { w \<leftarrow> INIT_IF_NOT_MAPPED (default_rwlock_init H) rwlock w; host_op H Rwlock_wrlock rwlock w }"

section \<open>Thread attributes\<close>

definition bionic_pthread_attr_destroy where "bionic_pthread_attr_destroy H = destroy_object H Attr_destroy"
definition bionic_pthread_attr_init where "bionic_pthread_attr_init H = new_object H Attr_init"

definition bionic_pthread_getattr_np where
  "bionic_pthread_getattr_np H thread attr w = do {
     c_assert (thread \<noteq> 0 \<and> attr \<noteq> 0);
     new_object H (Getattr_np thread) attr w
   }"

definition bionic_pthread_attr_settstack where
  "bionic_pthread_attr_settstack H attr stackaddr stacksize = mapped_call H (Attr_setstack stackaddr stacksize) attr"
definition bionic_pthread_attr_getstack where "bionic_pthread_attr_getstack H = mapped_call H Attr_getstack"
definition bionic_pthread_attr_setstacksize where
  "bionic_pthread_attr_setstacksize H attr stacksize = mapped_call H (Attr_setstacksize stacksize) attr"
definition bionic_pthread_attr_getstacksize where "bionic_pthread_attr_getstacksize H = mapped_call H Attr_getstacksize"
definition bionic_pthread_attr_setschedpolicy where
  "bionic_pthread_attr_setschedpolicy H attr policy = mapped_call H (Attr_setschedpolicy policy) attr"
definition bionic_pthread_attr_getschedpolicy where "bionic_pthread_attr_getschedpolicy H = mapped_call H Attr_getschedpolicy"
definition bionic_pthread_attr_setschedparam where
  "bionic_pthread_attr_setschedparam H attr param = mapped_call H (Attr_setschedparam param) attr"
definition bionic_pthread_attr_getschedparam where "bionic_pthread_attr_getschedparam H = mapped_call H Attr_getschedparam"
definition bionic_pthread_attr_setdetachstate where
  "bionic_pthread_attr_setdetachstate H attr detachstate = mapped_call H (Attr_setdetachstate detachstate) attr"
definition bionic_pthread_attr_getdetachstate where "bionic_pthread_attr_getdetachstate H = mapped_call H Attr_getdetachstate"

text \<open>An optional attribute object, and what the host gets of it.\<close>

definition attr_arg :: "u64 \<Rightarrow> 'h pworld \<Rightarrow> 'h option option" where
  "attr_arg attr w = (if attr = 0 then Some None else do {
     x \<leftarrow> obj w attr;
     h \<leftarrow> host_at w (glibc_of x);
     Some (Some h)
   })"

definition checked_attr :: "u64 \<Rightarrow> 'h pworld \<Rightarrow> unit option" where
  "checked_attr attr w = (if attr = 0 then Some () else do { x \<leftarrow> obj w attr; c_assert (IS_MAPPED w x) })"

definition bionic_pthread_create where
  "bionic_pthread_create H thread attr w = do {
     c_assert (thread \<noteq> (0 :: u64));
     checked_attr attr w;
     h \<leftarrow> attr_arg attr w;
     Some (hcreate H h)
   }"

section \<open>Mutexes\<close>

definition bionic_pthread_mutexattr_settype where
  "bionic_pthread_mutexattr_settype H attr ty = mapped_call H (Mutexattr_settype ty) attr"
definition bionic_pthread_mutexattr_destroy where "bionic_pthread_mutexattr_destroy H = destroy_object H Mutexattr_destroy"
definition bionic_pthread_mutexattr_init where "bionic_pthread_mutexattr_init H = new_object H Mutexattr_init"

text \<open>The static initialisers of bionic: the type at bit 14 of the first word, zeros behind.\<close>

definition bionic_mutex_init_map :: "(u32 list \<times> mutex_kind) list" where
  "bionic_mutex_init_map =
     [(0x0000 # replicate 9 0, NORMAL), (0x4000 # replicate 9 0, RECURSIVE), (0x8000 # replicate 9 0, ERRORCHECK)]"

definition default_pthread_mutex_init :: "'h pthread_host \<Rightarrow> u64 \<Rightarrow> 'h pworld \<Rightarrow> 'h pworld option" where
  "default_pthread_mutex_init H mutex w = do {
     x \<leftarrow> obj w mutex;
     kind \<leftarrow> map_of bionic_mutex_init_map x;
     let (a, w) = mmap H w;
     let w = put_obj mutex (set_glibc a x) w;
     c_assert (pages w a \<noteq> None);
     Some (put_page a (Some (Host (hmutex H kind))) w)
   }"

definition bionic_pthread_mutex_destroy where "bionic_pthread_mutex_destroy H = destroy_object H Mutex_destroy"

definition bionic_pthread_mutex_init where
  "bionic_pthread_mutex_init H mutex attr w = do {
     c_assert (mutex \<noteq> 0);
     checked_attr attr w;
     h \<leftarrow> attr_arg attr w;
     new_object H (Mutex_init h) mutex w
   }"

definition bionic_pthread_mutex_lock where
  "bionic_pthread_mutex_lock H mutex w =
     do { w \<leftarrow> INIT_IF_NOT_MAPPED (default_pthread_mutex_init H) mutex w; host_op H Mutex_lock mutex w }"
definition bionic_pthread_mutex_trylock where
  "bionic_pthread_mutex_trylock H mutex w =
     do { w \<leftarrow> INIT_IF_NOT_MAPPED (default_pthread_mutex_init H) mutex w; host_op H Mutex_trylock mutex w }"
definition bionic_pthread_mutex_unlock where
  "bionic_pthread_mutex_unlock H mutex w =
     do { w \<leftarrow> INIT_IF_NOT_MAPPED (default_pthread_mutex_init H) mutex w; host_op H Mutex_unlock mutex w }"

section \<open>Conditions\<close>

definition bionic_pthread_condattr_destroy where "bionic_pthread_condattr_destroy H = destroy_object H Condattr_destroy"
definition bionic_pthread_condattr_init where "bionic_pthread_condattr_init H = new_object H Condattr_init"
definition bionic_pthread_condattr_setclock where
  "bionic_pthread_condattr_setclock H attr clock_id = mapped_call H (Condattr_setclock clock_id) attr"

definition default_pthread_cond_init where "default_pthread_cond_init H = zero_init H"
definition bionic_pthread_cond_destroy where "bionic_pthread_cond_destroy H = destroy_object H Cond_destroy"

text \<open>The attributes are not checked.\<close>

definition bionic_pthread_cond_init where
  "bionic_pthread_cond_init H cond attr w = do { h \<leftarrow> attr_arg attr w; new_object H (Cond_init h) cond w }"

definition bionic_pthread_cond_broadcast where
  "bionic_pthread_cond_broadcast H cond w =
     do { w \<leftarrow> INIT_IF_NOT_MAPPED (default_pthread_cond_init H) cond w; host_op H Cond_broadcast cond w }"
definition bionic_pthread_cond_signal where
  "bionic_pthread_cond_signal H cond w =
     do { w \<leftarrow> INIT_IF_NOT_MAPPED (default_pthread_cond_init H) cond w; host_op H Cond_signal cond w }"

text \<open>Both objects are initialised if need be, and the host gets both.\<close>

definition wait_on ::
  "'h pthread_host \<Rightarrow> timespec option \<Rightarrow> u64 \<Rightarrow> u64 \<Rightarrow> 'h pworld \<Rightarrow> (int \<times> 'h pworld) option" where
  "wait_on H t cond mutex w = do {
     c_assert (cond \<noteq> 0 \<and> mutex \<noteq> 0);
     w \<leftarrow> INIT_IF_NOT_MAPPED (default_pthread_cond_init H) cond w;
     w \<leftarrow> INIT_IF_NOT_MAPPED (default_pthread_mutex_init H) mutex w;
     x \<leftarrow> obj w cond;
     y \<leftarrow> obj w mutex;
     c \<leftarrow> host_at w (glibc_of x);
     m \<leftarrow> host_at w (glibc_of y);
     let (r, c', m') = hwait H t c m;
     Some (r, put_page (glibc_of y) (Some (Host m')) (put_page (glibc_of x) (Some (Host c')) w))
   }"

definition bionic_pthread_cond_wait where "bionic_pthread_cond_wait H = wait_on H None"
definition bionic_pthread_cond_timedwait where
  "bionic_pthread_cond_timedwait H cond mutex abs_timeout = wait_on H (Some abs_timeout) cond mutex"

text \<open>The sum of two times, with one carry.\<close>

definition add_time :: "timespec \<Rightarrow> timespec \<Rightarrow> timespec" where
  "add_time tv d =
     (let s = tv_sec tv + tv_sec d; n = tv_nsec tv + tv_nsec d in
      if n \<ge> 1000000000 then \<lparr>tv_sec = s + 1, tv_nsec = n - 1000000000\<rparr> else \<lparr>tv_sec = s, tv_nsec = n\<rparr>)"

definition bionic_pthread_cond_timedwait_relative_np where
  "bionic_pthread_cond_timedwait_relative_np H cond mutex reltime =
     bionic_pthread_cond_timedwait H cond mutex (add_time (clock_realtime H) reltime)"

definition bionic_pthread_cond_timedwait_monotonic_np where
  "bionic_pthread_cond_timedwait_monotonic_np H cond mutex abstime =
     bionic_pthread_cond_timedwait H cond mutex (add_time (clock_monotonic H) abstime)"

definition bionic_pthread_cond_timedwait_monotonic where
  "bionic_pthread_cond_timedwait_monotonic H = bionic_pthread_cond_timedwait_monotonic_np H"

section \<open>What an object stands for\<close>

text \<open>
  The host object that a bionic object represents: the one it points to, or the one that its first use will
  create. \<open>From_zero\<close> are semaphores, locks and conditions.
\<close>

datatype lazy_kind = From_zero | From_mutex_map

definition initial :: "'h pthread_host \<Rightarrow> lazy_kind \<Rightarrow> u32 list \<Rightarrow> 'h option" where
  "initial H k x = (case k of
     From_zero \<Rightarrow> Some (hzero H)
   | From_mutex_map \<Rightarrow> map_option (hmutex H) (map_of bionic_mutex_init_map x))"

definition stands_for :: "'h pthread_host \<Rightarrow> lazy_kind \<Rightarrow> 'h pworld \<Rightarrow> u64 \<Rightarrow> 'h option" where
  "stands_for H k w p = do {
     x \<leftarrow> obj w p;
     if IS_MAPPED w x then host_at w (glibc_of x) else initial H k x
   }"

text \<open>The functions that accept an object that was not initialised, with the call they make.\<close>

definition lazy_ops ::
  "'h pthread_host \<Rightarrow> ((u64 \<Rightarrow> 'h pworld \<Rightarrow> ((int \<times> u64 list) \<times> 'h pworld) option) \<times> lazy_kind \<times> 'h hcall) list" where
  "lazy_ops H =
     [(bionic_sem_post H, From_zero, Sem_post), (bionic_sem_wait H, From_zero, Sem_wait),
      (bionic_sem_trywait H, From_zero, Sem_trywait),
      (bionic_pthread_rwlock_rdlock H, From_zero, Rwlock_rdlock), (bionic_pthread_rwlock_unlock H, From_zero, Rwlock_unlock),
      (bionic_pthread_rwlock_wrlock H, From_zero, Rwlock_wrlock),
      (bionic_pthread_mutex_lock H, From_mutex_map, Mutex_lock), (bionic_pthread_mutex_trylock H, From_mutex_map, Mutex_trylock),
      (bionic_pthread_mutex_unlock H, From_mutex_map, Mutex_unlock),
      (bionic_pthread_cond_broadcast H, From_zero, Cond_broadcast), (bionic_pthread_cond_signal H, From_zero, Cond_signal)]"

end
