(* ===== verification/Pthread_Lazy.thy ===== *)
theory Pthread_Lazy
  imports Pthread_Wrap
begin

text \<open>
  Lazily created objects: every wrapper that may meet an object without a host object behaves as the host's
  function on the object that the bionic object stands for, and other objects are not touched. Creating and
  destroying an object gives its mapping back.
\<close>

section \<open>Pointers and mappings\<close>

lemma glibc_of_set [simp]: "glibc_of (set_glibc a x) = a"
  unfolding glibc_of_def set_glibc_def by (rule bit_word_eqI) (auto simp: bit_simps)

lemma is_mapped_pointer: "is_mapped w a 8 \<longleftrightarrow> a AND 4095 = 0 \<and> pages w a \<noteq> None"
  by (simp add: is_mapped_def)

lemma put_fields [simp]:
  "bobj (put_page a pg w) = bobj w" "pages (put_page a pg w) = (pages w)(a := pg)"
  "bobj (put_obj p x w) = (bobj w)(p := Some x)" "pages (put_obj p x w) = pages w"
  by (simp_all add: put_page_def put_obj_def)

lemma obj_put_page [simp]: "obj (put_page a pg w) p = obj w p"
  by (simp add: obj_def)

lemma put_twice [simp]:
  "put_page a pg (put_page a pg' w) = put_page a pg w"
  "put_page a pg (put_obj p x w) = put_obj p x (put_page a pg w)"
  by (simp_all add: put_page_def put_obj_def)

text \<open>The contract of \<^verbatim>\<open>mmap\<close>: a free page.\<close>

definition mmap_free :: "'h pthread_host \<Rightarrow> 'h pworld \<Rightarrow> bool" where
  "mmap_free H w \<longleftrightarrow> mmap_at H w AND 4095 = 0 \<and> pages w (mmap_at H w) = None"

lemma mmap_ok: "mmap_free H w \<Longrightarrow> mmap H w = (mmap_at H w, put_page (mmap_at H w) (Some (Host (hzero H))) w)"
  by (auto simp: mmap_free_def mmap_def Let_def)

lemma stands_for_other:
  assumes "\<And>y. obj w q = Some y \<Longrightarrow> obj w' q = Some y \<and> pages w' (glibc_of y) = pages w (glibc_of y)"
    and "obj w q = None \<Longrightarrow> obj w' q = None"
  shows "stands_for H k w' q = stands_for H k w q"
  using assms by (cases "obj w q") (auto simp: stands_for_def IS_MAPPED_def is_mapped_pointer host_at_def)

section \<open>First use\<close>

definition init_of :: "'h pthread_host \<Rightarrow> lazy_kind \<Rightarrow> u64 \<Rightarrow> 'h pworld \<Rightarrow> 'h pworld option" where
  "init_of H k = (case k of From_zero \<Rightarrow> zero_init H | From_mutex_map \<Rightarrow> default_pthread_mutex_init H)"

lemma init_of_ok:
  assumes "mmap_free H w" "obj w p = Some x" "initial H k x = Some h"
  shows "init_of H k p w = Some (put_obj p (set_glibc (mmap_at H w) x) (put_page (mmap_at H w) (Some (Host h)) w))"
  using assms
  by (cases k) (auto simp: init_of_def zero_init_def default_pthread_mutex_init_def mmap_ok initial_def)

text \<open>After the initialisation, if there is one, the object points to the host object it stands for.\<close>

lemma init_if_not_mapped_ok:
  assumes "mmap_free H w" "stands_for H k w p = Some h"
  obtains w1 x where "INIT_IF_NOT_MAPPED (init_of H k) p w = Some w1" "obj w1 p = Some x" "IS_MAPPED w1 x"
    "pages w1 (glibc_of x) = Some (Host h)" "bobj w1 = (bobj w)(p := Some x)"
    "\<forall>a. a \<noteq> glibc_of x \<longrightarrow> pages w1 a = pages w a"
proof -
  obtain y where y: "obj w p = Some y" using assms(2) by (auto simp: stands_for_def bind_eq_Some_conv)
  then have p: "p \<noteq> 0" "bobj w p = Some y" by (auto simp: obj_def split: if_splits)
  show thesis
  proof (cases "IS_MAPPED w y")
    case True
    then have "pages w (glibc_of y) = Some (Host h)"
      using assms(2) y by (auto simp: stands_for_def host_at_def split: option.splits page.splits)
    moreover have "bobj w = (bobj w)(p := Some y)" using p by auto
    ultimately show thesis using True y that [of w y] by (simp add: INIT_IF_NOT_MAPPED_def)
  next
    case False
    then have "initial H k y = Some h" using assms(2) y by (simp add: stands_for_def)
    note init = init_of_ok [OF assms(1) y this]
    show thesis
      by (rule that [of "put_obj p (set_glibc (mmap_at H w) y) (put_page (mmap_at H w) (Some (Host h)) w)"
            "set_glibc (mmap_at H w) y"])
        (use init False y p assms(1) in
          \<open>auto simp: INIT_IF_NOT_MAPPED_def obj_def IS_MAPPED_def is_mapped_pointer mmap_free_def\<close>)
  qed
qed

lemma lazy_ops_eq:
  assumes "(op, k, c) \<in> set (lazy_ops H)"
  shows "op p w = do { w \<leftarrow> INIT_IF_NOT_MAPPED (init_of H k) p w; host_op H c p w }"
  using assms unfolding lazy_ops_def
  by (auto simp: init_of_def bionic_sem_post_def bionic_sem_wait_def bionic_sem_trywait_def default_sem_init_def
      bionic_pthread_rwlock_rdlock_def bionic_pthread_rwlock_unlock_def bionic_pthread_rwlock_wrlock_def default_rwlock_init_def
      bionic_pthread_mutex_lock_def bionic_pthread_mutex_trylock_def bionic_pthread_mutex_unlock_def
      bionic_pthread_cond_broadcast_def bionic_pthread_cond_signal_def default_pthread_cond_init_def)


text \<open>A host with counting semaphores whose mappings start at \<^verbatim>\<open>0x10000\<close>.\<close>

definition counting_host :: "nat pthread_host" where
  "counting_host = \<lparr>mmap_at = (\<lambda>w. if pages w 0x10000 = None then 0x10000 else 0x11000), hzero = 0,
     hmutex = (\<lambda>_. 0), hcall = (\<lambda>c n. case c of Sem_post \<Rightarrow> (0, [], n + 1) | _ \<Rightarrow> (0, [], n)),
     hwait = (\<lambda>t c m. (0, c, m)), hcreate = (\<lambda>_. 0),
     clock_realtime = \<lparr>tv_sec = 0, tv_nsec = 0\<rparr>, clock_monotonic = \<lparr>tv_sec = 0, tv_nsec = 0\<rparr>\<rparr>"

definition one_sem :: "nat pworld" where
  "one_sem = \<lparr>bobj = [0x100 \<mapsto> [0, 0, 0, 0], 0x200 \<mapsto> [0, 0, 0, 0]], pages = Map.empty\<rparr>"


section \<open>Creating and destroying\<close>

text \<open>A destroyed object keeps its pointer but not its mapping: the pages are those from before its creation.\<close>

lemma new_destroy_pages:
  assumes "mmap_free H w" "obj w p = Some x"
  shows "\<exists>r w1 s w2. new_object H c p w = Some (r, w1) \<and> destroy_object H d p w1 = Some (s, w2) \<and> pages w2 = pages w"
proof -
  let ?a = "mmap_at H w"
  have p: "p \<noteq> 0" using assms(2) by (auto simp: obj_def split: if_splits)
  obtain r out h' where c: "hcall H c (hzero H) = (r, out, h')" by (cases "hcall H c (hzero H)") auto
  obtain s out' h'' where d: "hcall H d h' = (s, out', h'')" by (cases "hcall H d h'") auto
  show ?thesis
    using assms p c d
    by (simp add: new_object_def mmap_ok host_op_def obj_def host_at_def destroy_object_def IS_MAPPED_def is_mapped_pointer
        munmap_def mmap_free_def fun_upd_idem)
qed

text \<open>A mutex that was destroyed has no static initialiser: its next use stops the program.\<close>

lemma destroyed_mutex_stops:
  assumes "obj w p = Some x" "\<not> IS_MAPPED w x" "map_of bionic_mutex_init_map x = None"
  shows "bionic_pthread_mutex_lock H p w = None"
  using assms by (simp add: bionic_pthread_mutex_lock_def INIT_IF_NOT_MAPPED_def default_pthread_mutex_init_def)

text \<open>A deadline is the sum of the times, in whole seconds and nanoseconds below one second.\<close>

lemma add_time_ok:
  assumes "0 \<le> tv_nsec tv" "tv_nsec tv < 1000000000" "0 \<le> tv_nsec d" "tv_nsec d < 1000000000"
  shows "tv_sec (add_time tv d) * 1000000000 + tv_nsec (add_time tv d)
      = (tv_sec tv + tv_sec d) * 1000000000 + tv_nsec tv + tv_nsec d
    \<and> 0 \<le> tv_nsec (add_time tv d) \<and> tv_nsec (add_time tv d) < 1000000000"
  using assms by (simp add: add_time_def Let_def algebra_simps)

end
