(* ===== verification/Pthread_Race.thy ===== *)
theory Pthread_Race
  imports Pthread_Lazy
begin

text \<open>
  Several threads that lock and unlock one mutex (\<open>bionic_pthread_mutex_lock\<close> and \<open>bionic_pthread_mutex_unlock\<close> of
  \<open>pthread_wrapper/libpthread.c\<close>). The functions are cut into the steps between which another thread can run; a schedule
  says which thread makes the next step.
\<close>

section \<open>Steps\<close>

datatype lock_op = Lock | Unlock

text \<open>
  Where a thread is: outside the critical section; before \<open>IS_MAPPED\<close>; before the comparison with the static
  initialisers; before \<^verbatim>\<open>mmap\<close>; before the pointer is stored; before the initialiser is copied; before the pointer
  is read for the call; in the host's function; in the critical section; stopped by the assertion.
\<close>

datatype mutex_pc = Outside | Check lock_op | Compare lock_op | Map mutex_kind lock_op | Store u64 mutex_kind lock_op
  | Copy mutex_kind lock_op | Call lock_op | In_host lock_op u64 | Inside | Aborted

text \<open>A mutex of the host is the thread that holds it.\<close>

type_synonym hmutex = "nat option"

record race =
  world :: "hmutex pworld"
  at_pc :: "nat \<Rightarrow> mutex_pc"

definition goto :: "nat \<Rightarrow> mutex_pc \<Rightarrow> race \<Rightarrow> race" where
  "goto i p s = s\<lparr>at_pc := (at_pc s)(i := p)\<rparr>"

definition goto_with :: "nat \<Rightarrow> mutex_pc \<Rightarrow> hmutex pworld \<Rightarrow> race \<Rightarrow> race" where
  "goto_with i p w s = s\<lparr>world := w, at_pc := (at_pc s)(i := p)\<rparr>"

text \<open>
  The next step of a thread. A thread outside calls lock, one inside calls unlock. A thread that finds the host's mutex taken
  stays where it is. \<open>None\<close> is an access to memory that is not there.
\<close>

definition mutex_step :: "hmutex pthread_host \<Rightarrow> u64 \<Rightarrow> nat \<Rightarrow> race \<Rightarrow> race option" where
  "mutex_step H mutex i s = (case at_pc s i of
       Outside \<Rightarrow> Some (goto i (Check Lock) s)
     | Inside \<Rightarrow> Some (goto i (Check Unlock) s)
     | Check op \<Rightarrow> do {
         x \<leftarrow> obj (world s) mutex;
         Some (goto i (if IS_MAPPED (world s) x then Call op else Compare op) s)
       }
     | Compare op \<Rightarrow> do {
         x \<leftarrow> obj (world s) mutex;
         Some (goto i (case map_of bionic_mutex_init_map x of None \<Rightarrow> Aborted | Some kind \<Rightarrow> Map kind op) s)
       }
     | Map kind op \<Rightarrow> (let (a, w) = mmap H (world s) in Some (goto_with i (Store a kind op) w s))
     | Store a kind op \<Rightarrow> do {
         x \<leftarrow> obj (world s) mutex;
         Some (goto_with i (Copy kind op) (put_obj mutex (set_glibc a x) (world s)) s)
       }
     | Copy kind op \<Rightarrow> do {
         x \<leftarrow> obj (world s) mutex;
         c_assert (pages (world s) (glibc_of x) \<noteq> None);
         Some (goto_with i (Call op) (put_page (glibc_of x) (Some (Host (hmutex H kind))) (world s)) s)
       }
     | Call op \<Rightarrow> do {
         x \<leftarrow> obj (world s) mutex;
         Some (goto i (In_host op (glibc_of x)) s)
       }
     | In_host op a \<Rightarrow> do {
         h \<leftarrow> host_at (world s) a;
         Some (case op of
             Lock \<Rightarrow> if h = None then goto_with i Inside (put_page a (Some (Host (Some i))) (world s)) s else s
           | Unlock \<Rightarrow> goto_with i Outside (put_page a (Some (Host None)) (world s)) s)
       }
     | Aborted \<Rightarrow> Some s)"

fun mutex_run :: "hmutex pthread_host \<Rightarrow> u64 \<Rightarrow> nat list \<Rightarrow> race \<Rightarrow> race option" where
  "mutex_run H mutex [] s = Some s"
| "mutex_run H mutex (i # is) s = do { s \<leftarrow> mutex_step H mutex i s; mutex_run H mutex is s }"

section \<open>A mutex that has been initialised\<close>

definition holding :: "mutex_pc \<Rightarrow> bool" where
  "holding p \<longleftrightarrow> (case p of Inside \<Rightarrow> True | Check op \<Rightarrow> op = Unlock | Call op \<Rightarrow> op = Unlock | In_host op a \<Rightarrow> op = Unlock
     | _ \<Rightarrow> False)"

text \<open>The pointer leads to a mutex of the host, which is held by the thread that is in the critical section or leaving it.\<close>

definition guarded_by :: "u64 \<Rightarrow> u32 list \<Rightarrow> race \<Rightarrow> bool" where
  "guarded_by mutex x s \<longleftrightarrow> obj (world s) mutex = Some x \<and> IS_MAPPED (world s) x \<and>
     (\<exists>h. pages (world s) (glibc_of x) = Some (Host h) \<and> (\<forall>i. holding (at_pc s i) \<longleftrightarrow> h = Some i)) \<and>
     (\<forall>i. case at_pc s i of Outside \<Rightarrow> True | Inside \<Rightarrow> True | Check op \<Rightarrow> True | Call op \<Rightarrow> True
        | In_host op a \<Rightarrow> a = glibc_of x | _ \<Rightarrow> False)"

lemma is_mapped_put: "IS_MAPPED w x \<Longrightarrow> IS_MAPPED (put_page a (Some h) w) x"
  by (auto simp: IS_MAPPED_def is_mapped_def put_page_def)

lemma goto_fields [simp]:
  "world (goto i p s) = world s" "at_pc (goto i p s) = (at_pc s)(i := p)"
  "world (goto_with i p w s) = w" "at_pc (goto_with i p w s) = (at_pc s)(i := p)"
  by (simp_all add: goto_def goto_with_def)

lemma guarded_goto:
  assumes "guarded_by mutex x s" "holding p = holding (at_pc s i)"
    and "p \<in> {Outside, Inside} \<or> (\<exists>op. p = Check op \<or> p = Call op \<or> p = In_host op (glibc_of x))"
  shows "guarded_by mutex x (goto i p s)"
  using assms unfolding guarded_by_def by (fastforce split: mutex_pc.splits)

lemma guarded_step:
  assumes "guarded_by mutex x s"
  shows "\<exists>s'. mutex_step H mutex i s = Some s' \<and> guarded_by mutex x s'"
proof -
  obtain h where x: "obj (world s) mutex = Some x" "IS_MAPPED (world s) x"
    and h: "pages (world s) (glibc_of x) = Some (Host h)" "\<And>j. holding (at_pc s j) \<longleftrightarrow> h = Some j"
    and pcs: "\<And>j. case at_pc s j of Outside \<Rightarrow> True | Inside \<Rightarrow> True | Check op \<Rightarrow> True | Call op \<Rightarrow> True
        | In_host op a \<Rightarrow> a = glibc_of x | _ \<Rightarrow> False"
    using assms unfolding guarded_by_def by blast
  show ?thesis
  proof (cases "at_pc s i")
    case (In_host op a)
    then have a: "a = glibc_of x" using pcs [of i] by simp
    then have ha: "host_at (world s) a = Some h" using h(1) by (simp add: host_at_def)
    have keep: "guarded_by mutex x (goto_with i p (put_page a (Some (Host g)) (world s)) s)"
      if "p \<in> {Outside, Inside}" "\<And>j. holding (((at_pc s)(i := p)) j) \<longleftrightarrow> g = Some j" for p g
      using that x is_mapped_put [OF x(2)] a pcs unfolding guarded_by_def
      by (auto split: mutex_pc.splits)
    show ?thesis
    proof (cases "op = Lock \<and> h \<noteq> None")
      case True
      then show ?thesis using In_host ha assms by (auto simp: mutex_step_def)
    next
      case False
      then have "holding (((at_pc s)(i := p)) j) \<longleftrightarrow> (if op = Lock then Some i else None) = Some j"
        if "p = (if op = Lock then Inside else Outside)" for p j
        using h(2) [of j] h(2) [of i] In_host that by (cases op) (auto simp: holding_def)
      with False show ?thesis using In_host ha keep by (cases op) (auto simp: mutex_step_def)
    qed
  qed (use x assms pcs [of i] guarded_goto [OF assms, of _ i] in \<open>auto simp: mutex_step_def holding_def\<close>)
qed

lemma guarded_run: "guarded_by mutex x s \<Longrightarrow> \<exists>s'. mutex_run H mutex is s = Some s' \<and> guarded_by mutex x s'"
proof (induction "is" arbitrary: s)
  case (Cons i "is")
  then show ?case using guarded_step [OF Cons(2), of H i] by fastforce
qed simp

section \<open>A mutex with a static initialiser\<close>

text \<open>A host for the examples: mappings at two addresses, and a mutex that is free when it is zeroed or initialised.\<close>

definition race_host :: "hmutex pthread_host" where
  "race_host = \<lparr>mmap_at = \<lambda>w. if pages w 0x10000 = None then 0x10000 else 0x20000, hzero = None, hmutex = \<lambda>_. None,
     hcall = \<lambda>_ h. (0, [], h), hwait = \<lambda>_ c m. (0, c, m), hcreate = \<lambda>_. 0,
     clock_realtime = \<lparr>tv_sec = 0, tv_nsec = 0\<rparr>, clock_monotonic = \<lparr>tv_sec = 0, tv_nsec = 0\<rparr>\<rparr>"

definition static_mutex :: race where
  "static_mutex = \<lparr>world = \<lparr>bobj = (\<lambda>_. None)(0x100 := Some (replicate 10 0)), pages = \<lambda>_. None\<rparr>, at_pc = \<lambda>_. Outside\<rparr>"

definition both_inside :: "race \<Rightarrow> bool" where
  "both_inside s \<longleftrightarrow> at_pc s 0 = Inside \<and> at_pc s 1 = Inside"

lemma race_inside: "map_option both_inside
    (mutex_run race_host 0x100 [0, 0, 0, 1, 1, 1, 0, 0, 0, 0, 0, 1, 1, 1, 1, 1] static_mutex) = Some True"
  by code_simp

lemma race_abort: "map_option (\<lambda>s. at_pc s 1)
    (mutex_run race_host 0x100 [0, 0, 1, 1, 0, 0, 0, 1] static_mutex) = Some Aborted"
  by code_simp

lemma race_overwritten: "map_option both_inside
    (mutex_run race_host 0x100 [0, 0, 0, 0, 0, 1, 1, 1, 1, 0, 0, 0] static_mutex) = Some True"
  by code_simp

section \<open>The steps and the functions\<close>

text \<open>Without another thread the steps of the initialisation are \<open>default_pthread_mutex_init\<close>.\<close>

lemma steps_of_init:
  assumes "default_pthread_mutex_init H mutex (world s) = Some w" "at_pc s i = Compare op"
  shows "\<exists>s'. mutex_run H mutex [i, i, i, i] s = Some s' \<and> world s' = w \<and> at_pc s' = (at_pc s)(i := Call op)"
proof -
  obtain x kind where xk: "obj (world s) mutex = Some x" "map_of bionic_mutex_init_map x = Some kind"
    using assms(1) unfolding default_pthread_mutex_init_def bind_eq_Some_conv by blast
  obtain a w1 where m: "mmap H (world s) = (a, w1)" by fastforce
  from assms(1) xk m have "pages w1 a \<noteq> None" "w = put_page a (Some (Host (hmutex H kind))) (put_obj mutex (set_glibc a x) w1)"
    by (simp_all add: default_pthread_mutex_init_def c_assert_def split: if_splits)
  note x = xk m this
  have o: "obj w1 mutex = Some x" using x(1,3) by (auto simp: mmap_def Let_def split: if_splits)
  then have "obj (put_obj mutex (set_glibc a x) w1) mutex = Some (set_glibc a x)"
    by (auto simp: obj_def put_obj_def split: if_splits)
  with x o assms(2) show ?thesis by (simp add: mutex_step_def c_assert_def)
qed

text \<open>
  C31. Threads that lock and unlock a mutex which has been initialised (and not merely statically) never are in the
  critical section together and never stop in an assertion, in whatever order their steps are made. For a mutex with the
  static initialiser neither is true when two threads use it for the first time at once: both may get a mutex of the host of
  their own and enter, and one may find the object half-way initialised and abort.
\<close>

theorem mutex_exclusion:
  assumes "obj w mutex = Some x" "IS_MAPPED w x" "host_at w (glibc_of x) = Some None"
  shows "(\<exists>s. mutex_run H mutex schedule \<lparr>world = w, at_pc = \<lambda>_. Outside\<rparr> = Some s \<and>
      (\<forall>i j. at_pc s i = Inside \<and> at_pc s j = Inside \<longrightarrow> i = j) \<and> (\<forall>i. at_pc s i \<noteq> Aborted)) \<and>
    (\<exists>sched. map_option both_inside (mutex_run race_host 0x100 sched static_mutex) = Some True) \<and>
    (\<exists>sched. map_option (\<lambda>s. at_pc s 1) (mutex_run race_host 0x100 sched static_mutex) = Some Aborted)"
proof (intro conjI)
  have "pages w (glibc_of x) = Some (Host None)"
    using assms(3) by (auto simp: host_at_def split: option.splits page.splits)
  then have "guarded_by mutex x \<lparr>world = w, at_pc = \<lambda>_. Outside\<rparr>"
    using assms(1,2) by (simp add: guarded_by_def holding_def)
  then obtain s where s: "mutex_run H mutex schedule \<lparr>world = w, at_pc = \<lambda>_. Outside\<rparr> = Some s" "guarded_by mutex x s"
    using guarded_run by blast
  obtain h where h: "\<And>i. holding (at_pc s i) \<longleftrightarrow> h = Some i" using s(2) unfolding guarded_by_def by blast
  have pcs: "case at_pc s i of Outside \<Rightarrow> True | Inside \<Rightarrow> True | Check op \<Rightarrow> True | Call op \<Rightarrow> True
      | In_host op a \<Rightarrow> a = glibc_of x | _ \<Rightarrow> False" for i
    using s(2) unfolding guarded_by_def by blast
  have "i = j" if "at_pc s i = Inside" "at_pc s j = Inside" for i j
    using h [of i] h [of j] that by (simp add: holding_def)
  moreover have "at_pc s i \<noteq> Aborted" for i using pcs [of i] by auto
  ultimately show "\<exists>s. mutex_run H mutex schedule \<lparr>world = w, at_pc = \<lambda>_. Outside\<rparr> = Some s \<and>
      (\<forall>i j. at_pc s i = Inside \<and> at_pc s j = Inside \<longrightarrow> i = j) \<and> (\<forall>i. at_pc s i \<noteq> Aborted)" using s(1) by blast
qed (use race_inside race_abort in blast)+

theorem mutex_exclusion_witness:
  "\<exists>s. mutex_run race_host 0x100 [0, 1, 0, 1, 0, 1, 0, 1]
      \<lparr>world = \<lparr>bobj = [0x100 \<mapsto> set_glibc 0x10000 (replicate 10 0)], pages = [0x10000 \<mapsto> Host None]\<rparr>, at_pc = \<lambda>_. Outside\<rparr> = Some s \<and>
    \<not> both_inside s"
proof -
  let ?w = "\<lparr>bobj = [0x100 \<mapsto> set_glibc 0x10000 (replicate 10 0)], pages = [0x10000 \<mapsto> Host None]\<rparr> :: hmutex pworld"
  have "obj ?w 0x100 = Some (set_glibc 0x10000 (replicate 10 0))" by (simp add: obj_def)
  then show ?thesis
    using mutex_exclusion [where w = ?w and mutex = "0x100" and H = race_host and schedule = "[0, 1, 0, 1, 0, 1, 0, 1]"]
    by (fastforce simp: IS_MAPPED_def is_mapped_pointer host_at_def both_inside_def)
qed

end
