(* ===== verification/Pthread_Cleanup.thy ===== *)
theory Pthread_Cleanup
  imports Pthread_Wrap
begin

text \<open>
  The cleanup handlers of a thread (\<open>pthread_wrapper/libpthread.c\<close>). The program's record holds a pointer to a mapping
  for the host's record, the handler and its argument. The host keeps a list of its records, the newest first; glibc
  finds the handler by a jump back into \<open>bionic___pthread_cleanup_push\<close>, musl keeps it in its record. The jump itself is
  the host's work on a cancellation and is not modelled.
\<close>

datatype libc_flavour = Glibc | Musl

section \<open>The code\<close>

text \<open>The record as words: the pointer to the mapping, the handler and its argument.\<close>

definition word_of_pair :: "u32 list \<Rightarrow> nat \<Rightarrow> u64" where
  "word_of_pair x i = ucast (x ! i) OR push_bit 32 (ucast (x ! Suc i))"

definition cleanup_words :: "u64 \<Rightarrow> u64 \<Rightarrow> u64 \<Rightarrow> u32 list" where
  "cleanup_words buf routine arg = [ucast buf, ucast (drop_bit 32 buf), ucast routine, ucast (drop_bit 32 routine),
     ucast arg, ucast (drop_bit 32 arg)]"

text \<open>
  The state: objects and mappings, the host's list (the mapping and, on musl, the handler and argument), and the calls of
  handlers so far.
\<close>

record 'h cleanup_state =
  cl_world :: "'h pworld"
  cl_list :: "(u64 \<times> u64 \<times> u64) list"
  cl_ran :: "(u64 \<times> u64) list"

definition bionic___pthread_cleanup_push ::
  "'h pthread_host \<Rightarrow> u64 \<Rightarrow> u64 \<Rightarrow> u64 \<Rightarrow> 'h cleanup_state \<Rightarrow> 'h cleanup_state option" where
  "bionic___pthread_cleanup_push H c routine arg st = do {
     c_assert (c \<noteq> 0 \<and> routine \<noteq> 0);
     x \<leftarrow> obj (cl_world st) c;
     let (buf, w) = mmap H (cl_world st);
     c_assert (buf \<noteq> -1);
     Some (st\<lparr>cl_world := put_obj c (cleanup_words buf routine arg) w, cl_list := (buf, routine, arg) # cl_list st\<rparr>)
   }"

text \<open>
  The host's list goes back to what it was before the record was added. glibc runs the handler of the program's record,
  musl the one of its own.
\<close>

definition bionic___pthread_cleanup_pop ::
  "libc_flavour \<Rightarrow> u64 \<Rightarrow> bool \<Rightarrow> 'h cleanup_state \<Rightarrow> 'h cleanup_state option" where
  "bionic___pthread_cleanup_pop fl c execute st = do {
     x \<leftarrow> obj (cl_world st) c;
     c_assert (fl = Glibc \<longrightarrow> IS_MAPPED (cl_world st) x);
     let buf = glibc_of x;
     (rec, rest) \<leftarrow> (case dropWhile (\<lambda>e. fst e \<noteq> buf) (cl_list st) of [] \<Rightarrow> None | e # es \<Rightarrow> Some (snd e, es));
     let run = (if fl = Glibc then (word_of_pair x 2, word_of_pair x 4) else rec);
     Some (st\<lparr>cl_world := munmap buf (cl_world st), cl_list := rest, cl_ran := cl_ran st @ (if execute then [run] else [])\<rparr>)
   }"

section \<open>Pushing and popping\<close>

lemma join_halves: "(ucast (ucast a :: u32) :: u64) OR push_bit 32 (ucast (ucast (drop_bit 32 a) :: u32)) = (a :: u64)"
  by (rule bit_word_eqI) (auto simp: bit_simps)

lemma cleanup_words_fields:
  "glibc_of (cleanup_words b r a) = b" "word_of_pair (cleanup_words b r a) 2 = r" "word_of_pair (cleanup_words b r a) 4 = a"
  by (simp_all add: glibc_of_def word_of_pair_def cleanup_words_def join_halves)

lemma obj_put_obj: "c \<noteq> 0 \<Longrightarrow> obj (put_obj c x w) c = Some x"
  by (simp add: obj_def put_obj_def)

lemma is_mapped_page:
  assumes "buf AND 4095 = 0" "pages w buf \<noteq> None" shows "is_mapped w buf 8"
  using assms by (simp add: is_mapped_def upt_rec)

text \<open>
  On either host, a handler that is pushed and popped again runs once, with its argument, when the program asks for it, and
  not otherwise; the list of handlers and the mappings are what they were before.
\<close>

lemma cleanup_push_pop:
  assumes "c \<noteq> 0" "routine \<noteq> 0" "obj (cl_world st) c \<noteq> None"
    and "mmap_at H (cl_world st) = buf" "buf \<noteq> -1" "buf AND 4095 = 0" "pages (cl_world st) buf = None"
  shows "\<exists>st' st''. bionic___pthread_cleanup_push H c routine arg st = Some st' \<and>
     bionic___pthread_cleanup_pop fl c execute st' = Some st'' \<and>
     cl_list st'' = cl_list st \<and> pages (cl_world st'') = pages (cl_world st) \<and>
     cl_ran st'' = cl_ran st @ (if execute then [(routine, arg)] else [])"
proof -
  let ?w = "put_obj c (cleanup_words buf routine arg) (put_page buf (Some (Host (hzero H))) (cl_world st))"
  let ?st' = "st\<lparr>cl_world := ?w, cl_list := (buf, routine, arg) # cl_list st\<rparr>"
  have push: "bionic___pthread_cleanup_push H c routine arg st = Some ?st'"
    using assms by (auto simp: bionic___pthread_cleanup_push_def mmap_def c_assert_def Let_def)
  have "IS_MAPPED ?w (cleanup_words buf routine arg)"
    using assms(6) unfolding IS_MAPPED_def cleanup_words_fields by (intro is_mapped_page) (simp_all add: put_obj_def put_page_def)
  then have "bionic___pthread_cleanup_pop fl c execute ?st' =
      Some (?st'\<lparr>cl_world := munmap buf ?w, cl_list := cl_list st, cl_ran := cl_ran st @ (if execute then [(routine, arg)] else [])\<rparr>)"
    using assms(1) by (simp add: bionic___pthread_cleanup_pop_def obj_put_obj c_assert_def cleanup_words_fields Let_def)
  moreover have "pages (munmap buf ?w) = pages (cl_world st)"
    using assms(7) by (auto simp: munmap_def put_page_def put_obj_def)
  ultimately show ?thesis using push by fastforce
qed

end
