(* ===== verification/Pthread_Layout.thy ===== *)
theory Pthread_Layout
  imports Bionic_Prelude
begin

text \<open>
  The objects of \<open>pthread_wrapper/libpthread.c\<close> as a program for Android lays them out: unions of the fields of bionic and of a
  pointer to the host's object. The layout is computed as a C compiler does for the two widths.
\<close>

section \<open>Layout of C types\<close>

datatype ctype = C_char | C_int | C_long | C_size_t | C_ptr | C_array ctype nat

fun c_size :: "bool \<Rightarrow> ctype \<Rightarrow> nat" where
  "c_size lp64 C_char = 1"
| "c_size lp64 C_int = 4"
| "c_size lp64 C_long = (if lp64 then 8 else 4)"
| "c_size lp64 C_size_t = (if lp64 then 8 else 4)"
| "c_size lp64 C_ptr = (if lp64 then 8 else 4)"
| "c_size lp64 (C_array t n) = n * c_size lp64 t"

fun c_align :: "bool \<Rightarrow> ctype \<Rightarrow> nat" where
  "c_align lp64 (C_array t n) = c_align lp64 t"
| "c_align lp64 t = c_size lp64 t"

definition round_up :: "nat \<Rightarrow> nat \<Rightarrow> nat" where
  "round_up a n = (n + (a - 1)) div a * a"

text \<open>The offsets of the fields, and the first byte behind the last.\<close>

fun fields_from :: "bool \<Rightarrow> nat \<Rightarrow> ctype list \<Rightarrow> nat list \<times> nat" where
  "fields_from lp64 at [] = ([], at)"
| "fields_from lp64 at (t # ts) =
     (let off = round_up (c_align lp64 t) at; (offs, e) = fields_from lp64 (off + c_size lp64 t) ts in (off # offs, e))"

definition struct_align :: "bool \<Rightarrow> ctype list \<Rightarrow> nat" where
  "struct_align lp64 ts = foldr max (map (c_align lp64) ts) 1"

definition struct_size :: "bool \<Rightarrow> ctype list \<Rightarrow> nat" where
  "struct_size lp64 ts = round_up (struct_align lp64 ts) (snd (fields_from lp64 0 ts))"

text \<open>A union is the list of its members, each a structure.\<close>

definition union_size :: "bool \<Rightarrow> ctype list list \<Rightarrow> nat" where
  "union_size lp64 ms = round_up (foldr max (map (struct_align lp64) ms) 1) (foldr max (map (struct_size lp64) ms) 0)"

section \<open>The objects\<close>

definition bionic_sem_t :: "bool \<Rightarrow> ctype list list" where
  "bionic_sem_t lp64 = [C_int # (if lp64 then [C_array C_int 3] else []), [C_ptr]]"

definition bionic_attr_t :: "bool \<Rightarrow> ctype list list" where
  "bionic_attr_t lp64 = [[C_int, C_ptr, C_size_t, C_size_t, C_int, C_int] @ (if lp64 then [C_array C_char 16] else []), [C_ptr]]"

definition bionic_mutex_t :: "bool \<Rightarrow> ctype list list" where
  "bionic_mutex_t lp64 = [[C_array C_int (if lp64 then 10 else 1)], [C_ptr]]"

definition bionic_mutexattr_t :: "bool \<Rightarrow> ctype list list" where
  "bionic_mutexattr_t lp64 = [[C_long], [C_ptr]]"

definition bionic_rwlock_t :: "bool \<Rightarrow> ctype list list" where
  "bionic_rwlock_t lp64 = [[C_array C_int (if lp64 then 14 else 10)], [C_ptr]]"

definition bionic_cond_t :: "bool \<Rightarrow> ctype list list" where
  "bionic_cond_t lp64 = [[C_array C_int (if lp64 then 12 else 1)], [C_ptr]]"

definition bionic_condattr_t :: "bool \<Rightarrow> ctype list list" where
  "bionic_condattr_t lp64 = [[C_long], [C_ptr]]"

lemmas pthread_objects = bionic_sem_t_def bionic_attr_t_def bionic_mutex_t_def bionic_mutexattr_t_def bionic_rwlock_t_def
  bionic_cond_t_def bionic_condattr_t_def

definition all_objects :: "bool \<Rightarrow> ctype list list list" where
  "all_objects lp64 = map (\<lambda>u. u lp64) [bionic_sem_t, bionic_attr_t, bionic_mutex_t, bionic_mutexattr_t, bionic_rwlock_t,
     bionic_cond_t, bionic_condattr_t]"

text \<open>The types that both sides share; the file does not compile on a host where their sizes differ.\<close>

definition same_sizes :: "bool \<Rightarrow> (string \<Rightarrow> nat) \<Rightarrow> bool" where
  "same_sizes lp64 host \<longleftrightarrow> c_size lp64 C_int = host ''pthread_key_t'' \<and> c_size lp64 C_int = host ''pthread_once_t'' \<and>
     c_size lp64 C_long = host ''pthread_t'' \<and> 8 = host ''pthread_rwlockattr_t''"

text \<open>The handler on the stack: the union of two pointers, the routine and its argument.\<close>

definition bionic_pthread_cleanup_t :: "ctype list" where
  "bionic_pthread_cleanup_t = [C_ptr, C_ptr, C_ptr]"

section \<open>What the layout gives\<close>

lemma object_sizes:
  "map (union_size True) (all_objects True) = [16, 56, 40, 8, 56, 48, 8]"
  "map (union_size False) (all_objects False) = [4, 24, 4, 4, 40, 4, 4]"
  by (simp_all add: all_objects_def pthread_objects union_size_def struct_size_def struct_align_def round_up_def)

text \<open>
  The pointer of the wrapper fits into every object of the program, so the wrapper never writes behind one; it takes all of the
  32-bit mutex and condition.
\<close>

lemma pointer_fits: "list_all (\<lambda>u. c_size lp64 C_ptr \<le> union_size lp64 u) (all_objects lp64)"
  by (cases lp64)
    (simp_all add: all_objects_def pthread_objects union_size_def struct_size_def struct_align_def round_up_def)

text \<open>The fields of the attributes and of the handler have the offsets of bionic.\<close>

lemma field_offsets:
  "fst (fields_from True 0 (hd (bionic_attr_t True))) = [0, 8, 16, 24, 32, 36, 40]"
  "fst (fields_from False 0 (hd (bionic_attr_t False))) = [0, 4, 8, 12, 16, 20]"
  "fst (fields_from lp64 0 bionic_pthread_cleanup_t) = [0, c_size lp64 C_ptr, 2 * c_size lp64 C_ptr]"
  by (simp_all add: bionic_attr_t_def bionic_pthread_cleanup_t_def round_up_def)

text \<open>No field overlaps the one before, and every field is aligned.\<close>

lemma round_up_ge: "0 < a \<Longrightarrow> n \<le> round_up a n"
  using div_mult_mod_eq [of "n + (a - 1)" a] mod_less_divisor [of a "n + (a - 1)"] unfolding round_up_def by linarith

lemma round_up_dvd: "a dvd round_up a n"
  by (simp add: round_up_def)

lemma c_align_pos: "0 < c_align lp64 t"
  by (induction t) simp_all

lemma fields_apart:
  "fields_from lp64 at ts = (offs, e) \<Longrightarrow> length offs = length ts \<and>
     (\<forall>i < length ts. at \<le> offs ! i \<and> c_align lp64 (ts ! i) dvd offs ! i \<and>
        (if Suc i < length ts then offs ! i + c_size lp64 (ts ! i) \<le> offs ! Suc i else e = offs ! i + c_size lp64 (ts ! i)))"
proof (induction ts arbitrary: at offs)
  case (Cons t ts)
  define off where "off = round_up (c_align lp64 t) at"
  obtain offs' where o: "fields_from lp64 (off + c_size lp64 t) ts = (offs', e)" "offs = off # offs'"
    using Cons(2) by (auto simp: off_def Let_def split: prod.splits)
  have off: "at \<le> off" "c_align lp64 t dvd off"
    using round_up_ge [OF c_align_pos] round_up_dvd by (simp_all add: off_def)
  note IH = Cons(1) [OF o(1)]
  have last: "e = off + c_size lp64 t" if "ts = []" using o(1) that by simp
  have following: "off + c_size lp64 t \<le> offs' ! 0" if "ts \<noteq> []" using IH that by auto
  show ?case
  proof (intro conjI allI impI)
    fix i assume "i < length (t # ts)"
    then show "at \<le> offs ! i" using IH off(1) o(2) by (cases i) auto
  next
    fix i assume "i < length (t # ts)"
    then show "c_align lp64 ((t # ts) ! i) dvd offs ! i" using IH off(2) o(2) by (cases i) auto
  next
    fix i assume "i < length (t # ts)"
    then show "if Suc i < length (t # ts) then offs ! i + c_size lp64 ((t # ts) ! i) \<le> offs ! Suc i
        else e = offs ! i + c_size lp64 ((t # ts) ! i)"
      using IH last following o(2) by (cases i) auto
  qed (use IH o(2) in simp)
qed simp

end
