(* ===== verification/Cxa_Guard.thy ===== *)
theory Cxa_Guard
  imports Bionic_Prelude
begin

text \<open>
  Construction of static objects (\<open>libstdc++_standalone/__cxa_guard.cpp\<close>): any number of threads call \<open>__cxa_guard_acquire\<close> on one
  guard; one of them constructs the object and calls \<open>__cxa_guard_release\<close>, or \<open>__cxa_guard_abort\<close> when the constructor
  throws, and the others wait on a futex. Every access to the guard and every system call is one step, and the
  steps of the threads interleave.
\<close>

section \<open>The code\<close>

definition CONSTRUCTION_NOT_YET_STARTED :: u32 where "CONSTRUCTION_NOT_YET_STARTED = 0"
definition CONSTRUCTION_COMPLETE :: u32 where "CONSTRUCTION_COMPLETE = 1"
definition CONSTRUCTION_UNDERWAY_WITHOUT_WAITER :: u32 where "CONSTRUCTION_UNDERWAY_WITHOUT_WAITER = 0x100"
definition CONSTRUCTION_UNDERWAY_WITH_WAITER :: u32 where "CONSTRUCTION_UNDERWAY_WITH_WAITER = 0x200"

lemmas guard_values = CONSTRUCTION_NOT_YET_STARTED_def CONSTRUCTION_COMPLETE_def
  CONSTRUCTION_UNDERWAY_WITHOUT_WAITER_def CONSTRUCTION_UNDERWAY_WITH_WAITER_def

text \<open>
  Where a thread is: outside; before an \<open>atomic_load\<close>; at the head of the loop with \<open>old_value\<close>; before the wait; asleep
  in it; in the constructor; before the call that wakes the others (\<open>True\<close> in the release, \<open>False\<close> in the abort);
  behind the construction.
\<close>

datatype pc = Idle | Load | Loop u32 | Wait | Asleep | Constructing | Wake bool | Passed

text \<open>
  The weak compare-and-exchange: whether it succeeded, the new word, and the new \<open>old_value\<close>. It may fail for no reason.
\<close>

definition compare_exchange_weak :: "bool \<Rightarrow> u32 \<Rightarrow> u32 \<Rightarrow> u32 \<Rightarrow> bool \<times> u32 \<times> u32" where
  "compare_exchange_weak spurious word old_value desired =
     (if word = old_value \<and> \<not> spurious then (True, desired, old_value) else (False, word, word))"

text \<open>One round of the loop of \<open>__cxa_guard_acquire\<close>, up to the wait.\<close>

definition acquire_round :: "bool \<Rightarrow> u32 \<Rightarrow> u32 \<Rightarrow> pc \<times> u32" where
  "acquire_round spurious old_value word =
     (if old_value = CONSTRUCTION_COMPLETE then (Passed, word)
      else if old_value = CONSTRUCTION_NOT_YET_STARTED then
        case compare_exchange_weak spurious word old_value CONSTRUCTION_UNDERWAY_WITHOUT_WAITER of
          (ok, word, old_value) \<Rightarrow> (if ok then Constructing else Loop old_value, word)
      else if old_value = CONSTRUCTION_UNDERWAY_WITHOUT_WAITER then
        case compare_exchange_weak spurious word old_value CONSTRUCTION_UNDERWAY_WITH_WAITER of
          (ok, word, old_value) \<Rightarrow> (if ok then Wait else Loop old_value, word)
      else (Wait, word))"

text \<open>\<open>__futex_wait_ex\<close>: the kernel compares the word and puts the thread to sleep in one step.\<close>

definition guard_wait :: "u32 \<Rightarrow> pc" where
  "guard_wait word = (if word = CONSTRUCTION_UNDERWAY_WITH_WAITER then Asleep else Load)"

text \<open>The exchange in the two functions that end a construction: where the thread is then, and the new word.\<close>

definition cxa_guard_release :: "u32 \<Rightarrow> pc \<times> u32" where
  "cxa_guard_release old_value =
     (if old_value = CONSTRUCTION_UNDERWAY_WITH_WAITER then Wake True else Passed, CONSTRUCTION_COMPLETE)"

definition cxa_guard_abort :: "u32 \<Rightarrow> pc \<times> u32" where
  "cxa_guard_abort old_value =
     (if old_value = CONSTRUCTION_UNDERWAY_WITH_WAITER then Wake False else Idle, CONSTRUCTION_NOT_YET_STARTED)"

text \<open>\<open>__futex_wake_ex\<close> with \<^verbatim>\<open>INT_MAX\<close>: all sleepers go on.\<close>

definition woken :: "pc \<Rightarrow> pc" where
  "woken p = (if p = Asleep then Load else p)"

section \<open>Threads\<close>

record guard_state =
  gword :: u32
  pcs :: "nat \<Rightarrow> pc"

text \<open>
  What can be seen from outside: \<open>__cxa_guard_acquire\<close> is called and returns 1 or 0, and the two calls that end a
  construction; and that a signal ends a wait. The number is that of the thread.
\<close>

datatype event = Tau | Call nat | Interrupt nat | Acquire nat | Release nat | Abort nat | Pass nat

definition round_event :: "nat \<Rightarrow> pc \<Rightarrow> event" where
  "round_event i p = (if p = Constructing then Acquire i else if p = Passed then Pass i else Tau)"

definition move :: "nat \<Rightarrow> pc \<Rightarrow> guard_state \<Rightarrow> guard_state" where
  "move i p s = s\<lparr>pcs := (pcs s)(i := p)\<rparr>"

inductive guard_step :: "guard_state \<Rightarrow> event \<Rightarrow> guard_state \<Rightarrow> bool" where
  call: "pcs s i = Idle \<or> pcs s i = Passed \<Longrightarrow> guard_step s (Call i) (move i Load s)"
| load: "pcs s i = Load \<Longrightarrow> guard_step s Tau (move i (Loop (gword s)) s)"
| round: "pcs s i = Loop old \<Longrightarrow> acquire_round spurious old (gword s) = (p, w) \<Longrightarrow>
    guard_step s (round_event i p) (move i p (s\<lparr>gword := w\<rparr>))"
| sleep: "pcs s i = Wait \<Longrightarrow> guard_step s Tau (move i (guard_wait (gword s)) s)"
| interrupted: "pcs s i = Asleep \<Longrightarrow> guard_step s (Interrupt i) (move i Load s)"
| release: "pcs s i = Constructing \<Longrightarrow> cxa_guard_release (gword s) = (p, w) \<Longrightarrow>
    guard_step s (Release i) (move i p (s\<lparr>gword := w\<rparr>))"
| abort: "pcs s i = Constructing \<Longrightarrow> cxa_guard_abort (gword s) = (p, w) \<Longrightarrow>
    guard_step s (Abort i) (move i p (s\<lparr>gword := w\<rparr>))"
| wake: "pcs s i = Wake complete \<Longrightarrow>
    guard_step s Tau (move i (if complete then Passed else Idle) (s\<lparr>pcs := woken \<circ> pcs s\<rparr>))"

inductive guard_run :: "guard_state \<Rightarrow> event list \<Rightarrow> guard_state \<Rightarrow> bool" where
  none: "guard_run s [] s"
| snoc: "guard_run s es s' \<Longrightarrow> guard_step s' e s'' \<Longrightarrow> guard_run s (es @ [e]) s''"

definition guard_init :: guard_state where
  "guard_init = \<lparr>gword = CONSTRUCTION_NOT_YET_STARTED, pcs = \<lambda>_. Idle\<rparr>"

section \<open>One construction at a time, and one that completes\<close>

text \<open>The object as its users see it.\<close>

datatype once = Fresh | Building nat | Built

fun once_step :: "once \<Rightarrow> event \<Rightarrow> once option" where
  "once_step a Tau = Some a"
| "once_step a (Call i) = Some a"
| "once_step a (Interrupt i) = Some a"
| "once_step Fresh (Acquire i) = Some (Building i)"
| "once_step (Building i) (Release j) = (if i = j then Some Built else None)"
| "once_step (Building i) (Abort j) = (if i = j then Some Fresh else None)"
| "once_step Built (Pass i) = Some Built"
| "once_step a e = None"

fun once_run :: "once \<Rightarrow> event list \<Rightarrow> once option" where
  "once_run a [] = Some a"
| "once_run a (e # es) = do { a \<leftarrow> once_step a e; once_run a es }"

text \<open>The values of the guard in each state of the object, and who may be where.\<close>

fun guard_words :: "once \<Rightarrow> u32 set" where
  "guard_words Fresh = {CONSTRUCTION_NOT_YET_STARTED}"
| "guard_words (Building i) = {CONSTRUCTION_UNDERWAY_WITHOUT_WAITER, CONSTRUCTION_UNDERWAY_WITH_WAITER}"
| "guard_words Built = {CONSTRUCTION_COMPLETE}"

definition sleepers_ok :: "guard_state \<Rightarrow> bool" where
  "sleepers_ok s \<longleftrightarrow> (\<forall>i. pcs s i = Asleep \<longrightarrow> gword s = CONSTRUCTION_UNDERWAY_WITH_WAITER \<or> (\<exists>j c. pcs s j = Wake c))"

definition behind :: "pc \<Rightarrow> bool" where
  "behind p \<longleftrightarrow> p = Passed \<or> p = Wake True \<or> p = Loop CONSTRUCTION_COMPLETE"

definition represents :: "guard_state \<Rightarrow> once \<Rightarrow> bool" where
  "represents s a \<longleftrightarrow> gword s \<in> guard_words a \<and> (\<forall>i. pcs s i = Constructing \<longleftrightarrow> a = Building i) \<and>
     (\<forall>i. behind (pcs s i) \<longrightarrow> a = Built) \<and> sleepers_ok s"

lemma move_fields [simp]: "gword (move i p s) = gword s" "pcs (move i p s) = (pcs s)(i := p)"
  by (simp_all add: move_def)

lemma represents_init: "represents guard_init Fresh"
  by (simp add: represents_def guard_init_def sleepers_ok_def behind_def)

text \<open>A thread that moves keeps a promise to the sleepers as long as it does not take it back without waking them.\<close>

lemma sleepers_move:
  assumes "sleepers_ok s" "\<forall>c. pcs s i \<noteq> Wake c" "p = Asleep \<longrightarrow> w = CONSTRUCTION_UNDERWAY_WITH_WAITER"
    and "gword s = CONSTRUCTION_UNDERWAY_WITH_WAITER \<longrightarrow> w = gword s \<or> (\<exists>c. p = Wake c)"
  shows "sleepers_ok (move i p (s\<lparr>gword := w\<rparr>))"
  unfolding sleepers_ok_def
proof (intro allI impI)
  fix j assume j: "pcs (move i p (s\<lparr>gword := w\<rparr>)) j = Asleep"
  show "gword (move i p (s\<lparr>gword := w\<rparr>)) = CONSTRUCTION_UNDERWAY_WITH_WAITER \<or>
      (\<exists>k c. pcs (move i p (s\<lparr>gword := w\<rparr>)) k = Wake c)"
  proof (cases "i = j")
    case True
    then show ?thesis using j assms(3) by simp
  next
    case False
    with j have "pcs s j = Asleep" by simp
    with assms(1) consider "gword s = CONSTRUCTION_UNDERWAY_WITH_WAITER" | k c where "pcs s k = Wake c"
      by (auto simp: sleepers_ok_def)
    then show ?thesis
    proof cases
      case 1
      then show ?thesis using assms(4) by auto
    next
      case 2
      then have "k \<noteq> i" using assms(2) by auto
      with 2 show ?thesis by auto
    qed
  qed
qed

lemma sleepers_wake: "p \<noteq> Asleep \<Longrightarrow> sleepers_ok (move i p (s\<lparr>pcs := woken \<circ> pcs s\<rparr>))"
  by (simp add: sleepers_ok_def woken_def)

text \<open>The ways a round can go.\<close>

lemma acquire_round_cases:
  assumes "acquire_round spurious old word = (p, w)"
  obtains (complete) "old = CONSTRUCTION_COMPLETE" "p = Passed" "w = word"
  | (won) "word = CONSTRUCTION_NOT_YET_STARTED" "p = Constructing" "w = CONSTRUCTION_UNDERWAY_WITHOUT_WAITER"
  | (waiter) "word = CONSTRUCTION_UNDERWAY_WITHOUT_WAITER" "p = Wait" "w = CONSTRUCTION_UNDERWAY_WITH_WAITER"
  | (failed) "p = Loop word" "w = word"
  | (busy) "p = Wait" "w = word"
proof -
  have "(old = CONSTRUCTION_COMPLETE \<and> p = Passed \<and> w = word) \<or>
      (word = CONSTRUCTION_NOT_YET_STARTED \<and> p = Constructing \<and> w = CONSTRUCTION_UNDERWAY_WITHOUT_WAITER) \<or>
      (word = CONSTRUCTION_UNDERWAY_WITHOUT_WAITER \<and> p = Wait \<and> w = CONSTRUCTION_UNDERWAY_WITH_WAITER) \<or>
      (p = Loop word \<and> w = word) \<or> (p = Wait \<and> w = word)"
    using assms unfolding acquire_round_def compare_exchange_weak_def by (simp split: if_splits) blast+
  then show thesis using that by blast
qed

text \<open>Moves that do not touch the guard, and moves that do.\<close>

lemma represents_still:
  assumes "represents s a" "pcs s i \<noteq> Constructing" "\<forall>c. pcs s i \<noteq> Wake c" "p \<noteq> Constructing"
    and "behind p \<longrightarrow> a = Built" "p = Asleep \<longrightarrow> gword s = CONSTRUCTION_UNDERWAY_WITH_WAITER"
  shows "represents (move i p s) a"
proof -
  have "sleepers_ok s" using assms(1) by (simp add: represents_def)
  then have "sleepers_ok (move i p s)" using sleepers_move [of s i p "gword s"] assms(3,6) by simp
  then show ?thesis using assms(1,2,4,5) by (simp add: represents_def) metis
qed

lemma represents_word:
  assumes "represents s a" "w \<in> guard_words b" "p = Constructing \<longleftrightarrow> b = Building i"
    and "\<And>j. j \<noteq> i \<Longrightarrow> a = Building j \<longleftrightarrow> b = Building j" "a = Built \<longrightarrow> b = Built" "behind p \<longrightarrow> b = Built"
    and "sleepers_ok (move i p (s\<lparr>gword := w\<rparr>))"
  shows "represents (move i p (s\<lparr>gword := w\<rparr>)) b"
  using assms by (auto simp: represents_def)

lemma guard_step_refines:
  assumes "guard_step s e s'" "represents s a"
  shows "\<exists>b. once_step a e = Some b \<and> represents s' b"
  using assms
proof (induction rule: guard_step.induct)
  case (call s i)
  then show ?case by (auto intro!: represents_still simp: behind_def)
next
  case (load s i)
  have "behind (Loop (gword s)) \<longrightarrow> a = Built"
    using load(2) by (cases a) (auto simp: represents_def behind_def guard_values)
  then show ?case using load by (auto intro!: represents_still)
next
  case (round s i old spurious p w)
  have w: "gword s \<in> guard_words a" and sl: "sleepers_ok s" using round(3) by (simp_all add: represents_def)
  from round(2) show ?case
  proof (cases rule: acquire_round_cases)
    case complete
    then have "a = Built" using round(1,3) by (auto simp: represents_def behind_def)
    then show ?thesis using complete round by (auto simp: round_event_def behind_def intro!: represents_still)
  next
    case won
    then have "a = Fresh" using w by (cases a) (auto simp: guard_values)
    then show ?thesis using won round sl
      by (auto simp: round_event_def behind_def guard_values intro!: represents_word sleepers_move)
  next
    case waiter
    then obtain k where a: "a = Building k" using w by (cases a) (auto simp: guard_values)
    moreover have "k \<noteq> i"
    proof
      assume "k = i"
      with a have "pcs s i = Constructing" using round(3) by (simp add: represents_def)
      with round(1) show False by simp
    qed
    ultimately show ?thesis using waiter round sl
      by (auto simp: round_event_def behind_def guard_values intro!: represents_word sleepers_move)
  next
    case failed
    have "behind (Loop (gword s)) \<longrightarrow> a = Built" using w by (cases a) (auto simp: behind_def guard_values)
    then show ?thesis using failed round by (auto simp: round_event_def intro!: represents_still)
  next
    case busy
    then show ?thesis using round by (auto simp: round_event_def behind_def intro!: represents_still)
  qed
next
  case (sleep s i)
  then show ?case by (auto simp: guard_wait_def behind_def intro!: represents_still)
next
  case (interrupted s i)
  then show ?case by (auto simp: behind_def intro!: represents_still)
next
  case (release s i p w)
  then have a: "a = Building i" and sl: "sleepers_ok s" by (auto simp: represents_def)
  from release a sl show ?case
    by (auto simp: cxa_guard_release_def behind_def guard_values intro!: represents_word sleepers_move split: if_splits)
next
  case (abort s i p w)
  then have a: "a = Building i" and sl: "sleepers_ok s" by (auto simp: represents_def)
  from abort a sl show ?case
    by (auto simp: cxa_guard_abort_def behind_def guard_values intro!: represents_word sleepers_move split: if_splits)
next
  case (wake s i c)
  have "a \<noteq> Building i \<or> pcs s i = Constructing" using wake(2) unfolding represents_def by blast
  then have "a \<noteq> Building i" using wake(1) by simp
  moreover have "behind (if c then Passed else Idle) \<longrightarrow> a = Built" using wake by (auto simp: represents_def behind_def)
  moreover have "behind (woken q) = behind q" "woken q = Constructing \<longleftrightarrow> q = Constructing" for q
    by (auto simp: woken_def behind_def)
  ultimately show ?case using wake sleepers_wake [of "if c then Passed else Idle" i s]
    by (auto simp: represents_def)
qed

lemma once_run_append: "once_run a (es @ fs) = do { b \<leftarrow> once_run a es; once_run b fs }"
  by (induction es arbitrary: a) (simp_all split: bind_splits)

lemma guard_run_refines:
  "guard_run s es s' \<Longrightarrow> represents s a \<Longrightarrow> \<exists>b. once_run a es = Some b \<and> represents s' b"
proof (induction rule: guard_run.induct)
  case (snoc s es s' e s'')
  then obtain b where "once_run a es = Some b" "represents s' b" by blast
  with guard_step_refines [OF snoc(2)] show ?case by (fastforce simp: once_run_append)
qed simp

text \<open>Everything a run from the first state shows of the guard and of the threads.\<close>

lemma guard_run_represents:
  assumes "guard_run guard_init es s"
  obtains a where "once_run Fresh es = Some a" "represents s a"
  using guard_run_refines [OF assms represents_init] by blast

text \<open>
  C32. The calls of any number of threads on one guard, interleaved step by step, refine an object that is built
  once: in the order of their effects, the constructor is entered by one thread at a time, only the thread that entered
  it ends the construction, after an abort another thread may enter, after a release nobody does, and a caller is told
  that the object is there only after the release. The guard says which of the three it is.
\<close>
theorem cxa_guard_refines:
  assumes "guard_run guard_init es s"
  shows "\<exists>a. once_run Fresh es = Some a \<and>
    (case a of Fresh \<Rightarrow> gword s = CONSTRUCTION_NOT_YET_STARTED \<and> (\<forall>j. pcs s j \<noteq> Constructing \<and> pcs s j \<noteq> Passed)
     | Building i \<Rightarrow> {j. pcs s j = Constructing} = {i} \<and> (\<forall>j. pcs s j \<noteq> Passed) \<and>
         gword s \<in> {CONSTRUCTION_UNDERWAY_WITHOUT_WAITER, CONSTRUCTION_UNDERWAY_WITH_WAITER}
     | Built \<Rightarrow> gword s = CONSTRUCTION_COMPLETE \<and> (\<forall>j. pcs s j \<noteq> Constructing))"
proof -
  obtain a where a: "once_run Fresh es = Some a" "represents s a" by (rule guard_run_represents [OF assms])
  then have "behind (pcs s j) \<longrightarrow> a = Built" for j unfolding represents_def by blast
  then have "pcs s j = Passed \<longrightarrow> a = Built" for j by (auto simp: behind_def)
  with a show ?thesis by (cases a) (auto simp: represents_def)
qed

text \<open>A run for the witnesses: a thread comes, finds the object not built and enters the constructor.\<close>

definition entered :: guard_state where
  "entered = move 0 Constructing ((move 0 (Loop 0) (move 0 Load guard_init))\<lparr>gword := 0x100\<rparr>)"

lemma entered_run: "guard_run guard_init [Call 0, Tau, Acquire 0] entered"
proof -
  let ?s1 = "move 0 Load guard_init"
  let ?s2 = "move 0 (Loop 0) ?s1"
  have "guard_step guard_init (Call 0) ?s1" by (rule guard_step.call) (simp add: guard_init_def)
  then have 1: "guard_run guard_init [Call 0] ?s1" using guard_run.snoc [OF guard_run.none] by fastforce
  have "guard_step ?s1 Tau ?s2" using guard_step.load [of ?s1 0] by (simp add: guard_init_def guard_values)
  then have 2: "guard_run guard_init [Call 0, Tau] ?s2" using guard_run.snoc [OF 1] by fastforce
  have "guard_step ?s2 (round_event 0 Constructing) entered"
    unfolding entered_def by (rule guard_step.round [where spurious = False and old = "0"])
      (simp_all add: guard_init_def acquire_round_def compare_exchange_weak_def guard_values)
  then show ?thesis using guard_run.snoc [OF 2] by (fastforce simp: round_event_def)
qed

theorem cxa_guard_refines_witness:
  "\<exists>a. once_run Fresh [Call 0, Tau, Acquire 0] = Some a \<and> a = Building 0 \<and> {j. pcs entered j = Constructing} = {0}"
  using cxa_guard_refines [OF entered_run] by auto

section \<open>The guard word\<close>

lemma once_run_built:
  "once_run a es = Some b \<Longrightarrow> b = Built \<longleftrightarrow> a = Built \<or> (\<exists>i. Release i \<in> set es)"
proof (induction es arbitrary: a)
  case (Cons e es)
  then show ?case by (cases "(a, e)" rule: once_step.cases) (auto split: if_splits)
qed simp

lemma first_bytes [simp]:
  "CONSTRUCTION_NOT_YET_STARTED AND 0xFF = 0" "CONSTRUCTION_COMPLETE AND 0xFF = 1"
  "CONSTRUCTION_UNDERWAY_WITHOUT_WAITER AND 0xFF = 0" "CONSTRUCTION_UNDERWAY_WITH_WAITER AND 0xFF = 0"
  by (simp_all add: guard_values)

lemma guard_step_word:
  assumes "guard_step s e s'" "represents s a"
  shows "case e of Release i \<Rightarrow> gword s' = CONSTRUCTION_COMPLETE | Abort i \<Rightarrow> gword s' = CONSTRUCTION_NOT_YET_STARTED
    | _ \<Rightarrow> gword s' AND 0xFF = gword s AND 0xFF"
  using assms
proof (induction rule: guard_step.induct)
  case (round s i old spurious p w)
  from round(2) have "w AND 0xFF = gword s AND 0xFF"
    by (cases rule: acquire_round_cases) simp_all
  then show ?case by (simp add: round_event_def)
qed (auto simp: cxa_guard_release_def cxa_guard_abort_def)

text \<open>
  C34. The guard word never has another value than the four of the code, and meets what the two C++ ABIs ask of it:
  the first byte changes in no step of \<open>__cxa_guard_acquire\<close> and is non-zero exactly when the object has been released,
  the lowest bit is set after \<open>__cxa_guard_release\<close>, and the two lowest bits are clear after \<open>__cxa_guard_abort\<close>.
\<close>
theorem cxa_guard_word:
  assumes "guard_run guard_init es s"
  shows "gword s \<in> {CONSTRUCTION_NOT_YET_STARTED, CONSTRUCTION_COMPLETE,
        CONSTRUCTION_UNDERWAY_WITHOUT_WAITER, CONSTRUCTION_UNDERWAY_WITH_WAITER} \<and>
    (gword s AND 0xFF \<noteq> 0 \<longleftrightarrow> (\<exists>i. Release i \<in> set es)) \<and>
    (\<forall>i s'. guard_step s (Release i) s' \<longrightarrow> gword s' AND 1 = 1) \<and>
    (\<forall>i s'. guard_step s (Abort i) s' \<longrightarrow> gword s' AND 3 = 0) \<and>
    (\<forall>e s'. guard_step s e s' \<longrightarrow> (\<forall>i. e \<noteq> Release i) \<longrightarrow> gword s' AND 0xFF = gword s AND 0xFF)"
proof -
  obtain a where a: "once_run Fresh es = Some a" and s: "represents s a" by (rule guard_run_represents [OF assms])
  have w: "gword s \<in> guard_words a" using s by (simp add: represents_def)
  note step = guard_step_word [OF _ s]
  have "gword s AND 0xFF \<noteq> 0 \<longleftrightarrow> a = Built" using w by (cases a) auto
  then have "gword s AND 0xFF \<noteq> 0 \<longleftrightarrow> (\<exists>i. Release i \<in> set es)" using once_run_built [OF a] by simp
  moreover have "gword s' AND 0xFF = gword s AND 0xFF" if "guard_step s e s'" "\<forall>i. e \<noteq> Release i" for e s'
  proof (cases "\<exists>i. e = Abort i")
    case True
    with guard_step_refines [OF that(1) s] have "a \<noteq> Built" by auto
    with w have "gword s AND 0xFF = 0" by (cases a) auto
    with True step [OF that(1)] show ?thesis by auto
  qed (use step [OF that(1)] that(2) in \<open>simp split: event.splits\<close>)
  ultimately show ?thesis using w step by (cases a) (fastforce simp: guard_values)+
qed

theorem cxa_guard_word_witness: "gword entered \<in> {0, 1, 0x100, 0x200} \<and> gword entered AND 0xFF = 0"
  using cxa_guard_word [OF entered_run] by (auto simp: guard_values)

section \<open>Nobody waits for ever\<close>

text \<open>
  How far a thread is from leaving while nobody constructs: \<open>T\<close> holds the threads that are not outside. Steps that are
  neither a new call, nor a signal, nor an abort are the threads' own progress.
\<close>

definition settled :: "pc \<Rightarrow> bool" where
  "settled p \<longleftrightarrow> p = Idle \<or> p = Passed"

definition own :: "event \<Rightarrow> bool" where
  "own e \<longleftrightarrow> (case e of Call i \<Rightarrow> False | Interrupt i \<Rightarrow> False | Abort i \<Rightarrow> False | _ \<Rightarrow> True)"

fun rank :: "u32 \<Rightarrow> pc \<Rightarrow> nat" where
  "rank w (Loop old) = (if old = w then 1
     else if old = CONSTRUCTION_NOT_YET_STARTED \<or> old = CONSTRUCTION_UNDERWAY_WITHOUT_WAITER then 2 else 4)"
| "rank w Load = 2"
| "rank w Wait = 3"
| "rank w Asleep = 3"
| "rank w (Wake c) = 1"
| "rank w p = 0"

definition distance :: "nat set \<Rightarrow> guard_state \<Rightarrow> nat" where
  "distance T s = (\<Sum>i\<in>T. rank (gword s) (pcs s i))"

definition inside :: "nat set \<Rightarrow> guard_state \<Rightarrow> bool" where
  "inside T s \<longleftrightarrow> finite T \<and> (\<forall>i. \<not> settled (pcs s i) \<longrightarrow> i \<in> T)"

lemma distance_less:
  assumes "inside T s" "i \<in> T" "gword s' = gword s" "rank (gword s) (pcs s' i) < rank (gword s) (pcs s i)"
    and "\<And>j. rank (gword s) (pcs s' j) \<le> rank (gword s) (pcs s j)"
  shows "distance T s' < distance T s"
  unfolding distance_def assms(3) using assms(1,2,4,5) by (intro sum_strict_mono_ex1) (auto simp: inside_def)

lemma inside_move: "inside T s \<Longrightarrow> i \<in> T \<Longrightarrow> inside T (move i p (s\<lparr>gword := w\<rparr>))"
  by (simp add: inside_def)

lemma distance_move:
  assumes "inside T s" "\<not> settled (pcs s i)" "rank (gword s) p < rank (gword s) (pcs s i)"
  shows "distance T (move i p s) < distance T s" "inside T (move i p s)"
proof -
  have i: "i \<in> T" using assms by (simp add: inside_def)
  show "distance T (move i p s) < distance T s"
    by (rule distance_less [OF assms(1) i]) (use assms(3) in \<open>auto simp: less_imp_le\<close>)
  show "inside T (move i p s)" using inside_move [OF assms(1) i, of p "gword s"] by simp
qed

text \<open>While nobody constructs, a thread inside can take a step that brings it nearer, or enter the constructor.\<close>

lemma wake_nearer:
  assumes "inside T s" "pcs s i = Wake c"
  shows "\<exists>s'. guard_step s Tau s' \<and> inside T s' \<and> distance T s' < distance T s"
proof (intro exI conjI)
  let ?s = "move i (if c then Passed else Idle) (s\<lparr>pcs := woken \<circ> pcs s\<rparr>)"
  have i: "i \<in> T" using assms by (auto simp: inside_def settled_def)
  show "guard_step s Tau ?s" by (rule guard_step.wake) (rule assms(2))
  show "inside T ?s" using assms(1) i by (auto simp: inside_def woken_def settled_def split: if_splits)
  show "distance T ?s < distance T s"
    by (rule distance_less [OF assms(1) i]) (auto simp: woken_def assms(2))
qed

lemma loop_nearer:
  assumes "inside T s" "pcs s i = Loop old" "old = CONSTRUCTION_COMPLETE \<or> old \<noteq> gword s"
    and "gword s = CONSTRUCTION_NOT_YET_STARTED \<or> gword s = CONSTRUCTION_COMPLETE"
  shows "\<exists>e s'. own e \<and> guard_step s e s' \<and> inside T s' \<and> distance T s' < distance T s"
proof -
  obtain p w where r: "acquire_round False old (gword s) = (p, w)" by fastforce
  have w: "w = gword s" and p: "rank (gword s) p < rank (gword s) (Loop old)" and c: "p \<noteq> Constructing"
    using r assms(3,4) by (auto simp: acquire_round_def compare_exchange_weak_def guard_values split: if_splits)
  have "guard_step s (round_event i p) (move i p s)" using guard_step.round [OF assms(2) r] w by simp
  moreover have "own (round_event i p)" using c by (simp add: own_def round_event_def)
  ultimately show ?thesis using distance_move [OF assms(1), of i p] p assms(2) by (auto simp: settled_def)
qed

lemma step_nearer:
  assumes s: "represents s a" "\<forall>i. a \<noteq> Building i" and T: "inside T s" and i: "\<not> settled (pcs s i)"
  shows "\<exists>e s'. own e \<and> guard_step s e s' \<and> inside T s' \<and> (distance T s' < distance T s \<or> (\<exists>k. e = Acquire k))"
proof (cases "\<exists>k c. pcs s k = Wake c")
  case True
  moreover have "own Tau" by (simp add: own_def)
  ultimately show ?thesis using wake_nearer [OF T] by metis
next
  case False
  have w: "gword s = CONSTRUCTION_NOT_YET_STARTED \<or> gword s = CONSTRUCTION_COMPLETE"
    using s by (cases a) (auto simp: represents_def)
  then have "gword s \<noteq> CONSTRUCTION_UNDERWAY_WITH_WAITER" by (auto simp: guard_values)
  then have "pcs s i \<noteq> Asleep" using s(1) False unfolding represents_def sleepers_ok_def by blast
  moreover have "pcs s i \<noteq> Constructing" using s unfolding represents_def by blast
  ultimately consider "pcs s i = Load" | "pcs s i = Wait" | old where "pcs s i = Loop old"
    using False i by (cases "pcs s i") (auto simp: settled_def)
  then show ?thesis
  proof cases
    case 1
    then show ?thesis using distance_move [OF T i, of "Loop (gword s)"] guard_step.load [OF 1]
      by (auto simp: own_def intro!: exI [of _ Tau])
  next
    case 2
    moreover have "guard_wait (gword s) = Load" using w by (auto simp: guard_wait_def guard_values)
    ultimately show ?thesis using distance_move [OF T i, of Load] guard_step.sleep [OF 2]
      by (auto simp: own_def intro!: exI [of _ Tau])
  next
    case (3 old)
    show ?thesis
    proof (cases "old = CONSTRUCTION_COMPLETE \<or> old \<noteq> gword s")
      case True
      then show ?thesis using loop_nearer [OF T 3 _ w] by blast
    next
      case False
      with w have o: "old = CONSTRUCTION_NOT_YET_STARTED" "gword s = old" by auto
      let ?w = CONSTRUCTION_UNDERWAY_WITHOUT_WAITER
      have "acquire_round False old (gword s) = (Constructing, ?w)"
        using o by (simp add: acquire_round_def compare_exchange_weak_def guard_values)
      from guard_step.round [OF 3 this] have "guard_step s (Acquire i) (move i Constructing (s\<lparr>gword := ?w\<rparr>))"
        by (simp add: round_event_def)
      moreover have "i \<in> T" using T i by (simp add: inside_def)
      ultimately show ?thesis using inside_move [OF T, of i Constructing ?w]
        by (auto simp: own_def intro!: exI [of _ "Acquire i"])
    qed
  qed
qed

lemma guard_run_trans: "guard_run s' fs s'' \<Longrightarrow> guard_run s es s' \<Longrightarrow> guard_run s (es @ fs) s''"
proof (induction rule: guard_run.induct)
  case (snoc s' fs t e t')
  then show ?case using guard_run.snoc [of s "es @ fs" t e t'] by simp
qed simp

lemma guard_run_cons: "guard_step s e s' \<Longrightarrow> guard_run s' es s'' \<Longrightarrow> guard_run s (e # es) s''"
  using guard_run_trans [of s' es s'' s "[e]"] guard_run.snoc [OF guard_run.none] by fastforce

text \<open>The threads inside a state that a run reaches are finitely many.\<close>

lemma guard_step_inside: "guard_step s e s' \<Longrightarrow> inside T s \<Longrightarrow> \<exists>i. inside (insert i T) s'"
  by (induction rule: guard_step.induct) (force simp: inside_def woken_def settled_def)+

lemma guard_run_inside: "guard_run s es s' \<Longrightarrow> inside T s \<Longrightarrow> \<exists>U. inside U s'"
  by (induction rule: guard_run.induct) (blast dest: guard_step_inside)+

text \<open>Nobody constructs: the threads run until all are outside, or one of them is in the constructor.\<close>

lemma run_nearer:
  assumes "represents s a" "inside T s"
  shows "\<exists>fs s' b. guard_run s fs s' \<and> list_all own fs \<and> inside T s' \<and> once_run a fs = Some b \<and> represents s' b \<and>
    ((\<forall>i. settled (pcs s' i)) \<or> (\<exists>i. b = Building i))"
  using assms
proof (induction "distance T s" arbitrary: s a rule: less_induct)
  case less
  show ?case
  proof (cases "(\<forall>i. settled (pcs s i)) \<or> (\<exists>i. a = Building i)")
    case True
    then show ?thesis using less(2,3) guard_run.none by (intro exI [of _ "[]"]) auto
  next
    case False
    then obtain e s1 where e: "own e" "guard_step s e s1" "inside T s1"
      "distance T s1 < distance T s \<or> (\<exists>k. e = Acquire k)"
      using step_nearer [OF less(2) _ less(3)] by blast
    obtain b where b: "once_step a e = Some b" "represents s1 b"
      using guard_step_refines [OF e(2) less(2)] by blast
    show ?thesis
    proof (cases "\<exists>i. b = Building i")
      case True
      then show ?thesis using e b guard_run_cons [OF e(2) guard_run.none]
        by (intro exI [of _ "[e]"]) auto
    next
      case no: False
      then have "\<not> (\<exists>k. e = Acquire k)" using b by (cases a) auto
      with less(1) [OF _ b(2) e(3)] e(4) obtain fs s' c where
        "guard_run s1 fs s'" "list_all own fs" "inside T s'" "once_run b fs = Some c" "represents s' c"
        "(\<forall>i. settled (pcs s' i)) \<or> (\<exists>i. c = Building i)" by blast
      then show ?thesis using guard_run_cons [OF e(2)] e(1) b(1) by (intro exI [of _ "e # fs"]) auto
    qed
  qed
qed

text \<open>The thread in the constructor releases, and then everybody gets behind the construction.\<close>

lemma once_built_stays: "once_run Built fs = Some b \<Longrightarrow> b = Built"
  using once_run_built by blast

lemma run_from_building:
  assumes "represents s (Building i)" "inside T s"
  shows "\<exists>fs s'. guard_run s fs s' \<and> list_all own fs \<and> (\<forall>i. settled (pcs s' i))"
proof -
  obtain p w where r: "cxa_guard_release (gword s) = (p, w)" by fastforce
  let ?s = "move i p (s\<lparr>gword := w\<rparr>)"
  have i: "pcs s i = Constructing" using assms(1) unfolding represents_def by blast
  have step: "guard_step s (Release i) ?s" by (rule guard_step.release [OF i r])
  have rep: "represents ?s Built" using guard_step_refines [OF step assms(1)] by auto
  have "i \<in> T" using assms(2) i by (auto simp: inside_def settled_def)
  then have "inside T ?s" by (rule inside_move [OF assms(2)])
  from run_nearer [OF rep this] obtain fs s' b where fs: "guard_run ?s fs s'" "list_all own fs"
    "once_run Built fs = Some b" "(\<forall>i. settled (pcs s' i)) \<or> (\<exists>i. b = Building i)" by blast
  then have "\<forall>i. settled (pcs s' i)" using once_built_stays [OF fs(3)] by auto
  moreover have "list_all own (Release i # fs)" using fs(2) by (simp add: own_def)
  ultimately show ?thesis using guard_run_cons [OF step fs(1)] by blast
qed

text \<open>
  C33. No wake-up is lost and nobody waits for ever. In every state that a run reaches, a thread asleep in the futex is
  covered: the guard says that somebody waits and a thread is in the constructor, or a thread is about to wake all
  sleepers. And from every such state the threads inside can all get out by their own steps: no new call, no signal that
  interrupts a wait and no abort is needed.
\<close>
theorem cxa_guard_nobody_stuck:
  assumes "guard_run guard_init es s"
  shows "(\<forall>i. pcs s i = Asleep \<longrightarrow> (gword s = CONSTRUCTION_UNDERWAY_WITH_WAITER \<and> (\<exists>j. pcs s j = Constructing)) \<or>
      (\<exists>j c. pcs s j = Wake c)) \<and>
    (\<exists>fs s'. guard_run s fs s' \<and> list_all own fs \<and> (\<forall>i. pcs s' i = Idle \<or> pcs s' i = Passed))"
proof
  obtain a where a: "represents s a" using guard_run_represents [OF assms] by blast
  show "\<forall>i. pcs s i = Asleep \<longrightarrow> (gword s = CONSTRUCTION_UNDERWAY_WITH_WAITER \<and> (\<exists>j. pcs s j = Constructing)) \<or>
      (\<exists>j c. pcs s j = Wake c)"
  proof (cases "gword s = CONSTRUCTION_UNDERWAY_WITH_WAITER")
    case True
    then obtain j where "a = Building j" using a by (cases a) (auto simp: represents_def guard_values)
    then have "pcs s j = Constructing" using a unfolding represents_def by blast
    with True show ?thesis by blast
  qed (use a in \<open>unfold represents_def sleepers_ok_def, blast\<close>)
  have "inside {} guard_init" by (simp add: inside_def guard_init_def settled_def)
  from guard_run_inside [OF assms this] obtain T where T: "inside T s" by blast
  from run_nearer [OF a T] obtain fs s' b where fs: "guard_run s fs s'" "list_all own fs" "inside T s'"
    "represents s' b" "(\<forall>i. settled (pcs s' i)) \<or> (\<exists>i. b = Building i)" by blast
  have "\<exists>gs s''. guard_run s' gs s'' \<and> list_all own gs \<and> (\<forall>i. settled (pcs s'' i))"
  proof (cases "\<forall>i. settled (pcs s' i)")
    case True
    moreover have "list_all own []" by simp
    ultimately show ?thesis using guard_run.none [of s'] by blast
  qed (use fs(5) run_from_building [OF _ fs(3)] fs(4) in blast)
  then obtain gs s'' where gs: "guard_run s' gs s''" "list_all own gs" "\<forall>i. settled (pcs s'' i)" by blast
  have "list_all own (fs @ gs)" using fs(2) gs(2) by simp
  then show "\<exists>fs s'. guard_run s fs s' \<and> list_all own fs \<and> (\<forall>i. pcs s' i = Idle \<or> pcs s' i = Passed)"
    using guard_run_trans [OF gs(1) fs(1)] gs(3) unfolding settled_def by blast
qed

theorem cxa_guard_nobody_stuck_witness:
  "\<exists>fs s'. guard_run entered fs s' \<and> list_all own fs \<and> (\<forall>i. pcs s' i = Idle \<or> pcs s' i = Passed)"
  using cxa_guard_nobody_stuck [OF entered_run] by blast

end
