(* ===== verification/Cxx_Runtime.thy ===== *)
theory Cxx_Runtime
  imports Bionic_Prelude
begin

text \<open>
  The rest of the C++ run-time support: the futex system call (\<open>include/bionic_futex.h\<close>), the allocation operators
  (\<open>new.cpp\<close>) and the pure virtual call (\<open>__cxa_pure_virtual.cpp\<close>). The kernel and the allocator of the host are parameters.
\<close>

section \<open>The futex system call\<close>

datatype futex_op = FUTEX_WAIT | FUTEX_WAKE | FUTEX_WAKE_PRIVATE | FUTEX_WAIT_BITSET | FUTEX_WAIT_BITSET_PRIVATE
  | FUTEX_UNLOCK_PI | FUTEX_UNLOCK_PI_PRIVATE

definition FUTEX_BITSET_MATCH_ANY :: u32 where "FUTEX_BITSET_MATCH_ANY = 0xFFFFFFFF"

text \<open>
  \<^verbatim>\<open>syscall\<close> of the host returns the result and the new \<^verbatim>\<open>errno\<close>; its arguments are the address, the operation, the
  value, the time limit and the bit set.
\<close>

type_synonym futex_syscall = "u64 \<Rightarrow> futex_op \<Rightarrow> int \<Rightarrow> u64 \<Rightarrow> u32 \<Rightarrow> int \<Rightarrow> int \<times> int"

definition futex_call :: "futex_syscall \<Rightarrow> u64 \<Rightarrow> futex_op \<Rightarrow> int \<Rightarrow> u64 \<Rightarrow> u32 \<Rightarrow> int \<Rightarrow> int \<times> int" where
  "futex_call sys ftx op val timeout bitset saved_errno =
     (let (result, errno) = sys ftx op val timeout bitset saved_errno
      in if result = -1 then (- errno, saved_errno) else (result, errno))"

definition futex_wake :: "futex_syscall \<Rightarrow> u64 \<Rightarrow> int \<Rightarrow> int \<Rightarrow> int \<times> int" where
  "futex_wake sys ftx count = futex_call sys ftx FUTEX_WAKE count 0 0"

definition futex_wake_ex :: "futex_syscall \<Rightarrow> u64 \<Rightarrow> bool \<Rightarrow> int \<Rightarrow> int \<Rightarrow> int \<times> int" where
  "futex_wake_ex sys ftx shared count =
     futex_call sys ftx (if shared then FUTEX_WAKE else FUTEX_WAKE_PRIVATE) count 0 0"

definition futex_wait :: "futex_syscall \<Rightarrow> u64 \<Rightarrow> int \<Rightarrow> u64 \<Rightarrow> int \<Rightarrow> int \<times> int" where
  "futex_wait sys ftx val timeout = futex_call sys ftx FUTEX_WAIT val timeout 0"

definition futex_wait_ex :: "futex_syscall \<Rightarrow> u64 \<Rightarrow> bool \<Rightarrow> int \<Rightarrow> int \<Rightarrow> int \<times> int" where
  "futex_wait_ex sys ftx shared val =
     futex_call sys ftx (if shared then FUTEX_WAIT_BITSET else FUTEX_WAIT_BITSET_PRIVATE) val 0 FUTEX_BITSET_MATCH_ANY"

definition futex_pi_unlock :: "futex_syscall \<Rightarrow> u64 \<Rightarrow> bool \<Rightarrow> int \<Rightarrow> int \<times> int" where
  "futex_pi_unlock sys ftx shared =
     futex_call sys ftx (if shared then FUTEX_UNLOCK_PI else FUTEX_UNLOCK_PI_PRIVATE) 0 0 0"

lemmas futex_functions = futex_wake_def futex_wake_ex_def futex_wait_def futex_wait_ex_def futex_pi_unlock_def

text \<open>A system call that follows the convention touches \<^verbatim>\<open>errno\<close> only when it fails, and then with a positive number.\<close>

definition errno_convention :: "futex_syscall \<Rightarrow> bool" where
  "errno_convention sys \<longleftrightarrow> (\<forall>ftx op val timeout bitset e r e'. sys ftx op val timeout bitset e = (r, e') \<longrightarrow>
     (if r = -1 then 0 < e' else 0 \<le> r \<and> e' = e))"

text \<open>Then the callers never see another \<^verbatim>\<open>errno\<close>, and the sign of the result tells whether the call failed.\<close>

lemma futex_call_errno:
  assumes "errno_convention sys"
  shows "snd (futex_call sys ftx op val timeout bitset e) = e"
    and "fst (futex_call sys ftx op val timeout bitset e) < 0 \<longleftrightarrow> fst (sys ftx op val timeout bitset e) = -1"
proof -
  obtain r e' where s: "sys ftx op val timeout bitset e = (r, e')" by fastforce
  with assms have "if r = -1 then 0 < e' else 0 \<le> r \<and> e' = e" unfolding errno_convention_def by blast
  with s show "snd (futex_call sys ftx op val timeout bitset e) = e"
    and "fst (futex_call sys ftx op val timeout bitset e) < 0 \<longleftrightarrow> fst (sys ftx op val timeout bitset e) = -1"
    by (auto simp: futex_call_def split: if_splits)
qed

lemma futex_functions_errno:
  assumes "errno_convention sys"
  shows "snd (futex_wake sys ftx n e) = e" "snd (futex_wake_ex sys ftx shared n e) = e"
    "snd (futex_wait sys ftx n timeout e) = e" "snd (futex_wait_ex sys ftx shared n e) = e"
    "snd (futex_pi_unlock sys ftx shared e) = e"
  by (simp_all add: futex_functions futex_call_errno [OF assms])

section \<open>Allocation\<close>

text \<open>The blocks in use, and what was printed. An operator returns a value, or ends the program with a status.\<close>

record cxx_state =
  blocks :: "u64 \<rightharpoonup> u64"
  printed :: "string list"

datatype 'a ended = Returns 'a cxx_state | Exits int cxx_state

text \<open>\<^verbatim>\<open>malloc\<close> answers with an address for the state and the size, or with 0; \<^verbatim>\<open>free\<close> ignores a null pointer.\<close>

type_synonym allocator = "(u64 \<rightharpoonup> u64) \<Rightarrow> u64 \<Rightarrow> u64"

definition malloc :: "allocator \<Rightarrow> u64 \<Rightarrow> cxx_state \<Rightarrow> u64 \<times> cxx_state" where
  "malloc answer sz s = (let p = answer (blocks s) sz in (p, if p = 0 then s else s\<lparr>blocks := (blocks s)(p \<mapsto> sz)\<rparr>))"

definition free :: "u64 \<Rightarrow> cxx_state \<Rightarrow> cxx_state" where
  "free p s = (if p = 0 then s else s\<lparr>blocks := (blocks s)(p := None)\<rparr>)"

text \<open>The two messages differ, and the second has no newline; the number is printed by a parameter.\<close>

definition operator_new :: "(u64 \<Rightarrow> string) \<Rightarrow> allocator \<Rightarrow> u64 \<Rightarrow> cxx_state \<Rightarrow> u64 ended" where
  "operator_new shown answer sz s = (case malloc answer sz s of (p, s) \<Rightarrow>
     if p = 0 then Exits 1 (s\<lparr>printed := printed s @
       [''binoic libstdc++: new failed to allocate '' @ shown sz @ '' bytes'' @ [CHR 0x0A]]\<rparr>)
     else Returns p s)"

definition operator_new_array :: "(u64 \<Rightarrow> string) \<Rightarrow> allocator \<Rightarrow> u64 \<Rightarrow> cxx_state \<Rightarrow> u64 ended" where
  "operator_new_array shown answer sz s = (case malloc answer sz s of (p, s) \<Rightarrow>
     if p = 0 then Exits 1 (s\<lparr>printed := printed s @
       [''binoic libstdc++: new[] failed to allocate '' @ shown sz @ '' bytes'']\<rparr>)
     else Returns p s)"

definition operator_delete :: "u64 \<Rightarrow> cxx_state \<Rightarrow> cxx_state" where
  "operator_delete ptr s = free ptr s"

definition operator_delete_array :: "u64 \<Rightarrow> cxx_state \<Rightarrow> cxx_state" where
  "operator_delete_array ptr s = free ptr s"

definition operator_new_nothrow :: "allocator \<Rightarrow> u64 \<Rightarrow> cxx_state \<Rightarrow> u64 \<times> cxx_state" where
  "operator_new_nothrow answer sz s = malloc answer sz s"

definition operator_new_array_nothrow :: "allocator \<Rightarrow> u64 \<Rightarrow> cxx_state \<Rightarrow> u64 \<times> cxx_state" where
  "operator_new_array_nothrow answer sz s = malloc answer sz s"

definition operator_delete_nothrow :: "u64 \<Rightarrow> cxx_state \<Rightarrow> cxx_state" where
  "operator_delete_nothrow ptr s = free ptr s"

definition operator_delete_array_nothrow :: "u64 \<Rightarrow> cxx_state \<Rightarrow> cxx_state" where
  "operator_delete_array_nothrow ptr s = free ptr s"

definition cxa_pure_virtual :: "cxx_state \<Rightarrow> unit ended" where
  "cxa_pure_virtual s = Exits 1 (s\<lparr>printed := printed s @
     [''binoic libstdc++: Pure virtual function called. '' @
      ''Are you calling virtual methods from a destructor?'' @ [CHR 0x0A]]\<rparr>)"

text \<open>
  The four pairs of operators share one contract: on an allocator that answers with a block not in use, an object that is
  created and deleted leaves the blocks as they were, and the blocks of others are not touched.
\<close>

definition fresh_blocks :: "allocator \<Rightarrow> bool" where
  "fresh_blocks answer \<longleftrightarrow> (\<forall>m sz. answer m sz \<noteq> 0 \<longrightarrow> m (answer m sz) = None)"

locale new_delete =
  fixes answer :: allocator
    and new_op :: "u64 \<Rightarrow> cxx_state \<Rightarrow> (u64 \<times> cxx_state) option"
    and delete_op :: "u64 \<Rightarrow> cxx_state \<Rightarrow> cxx_state"
  assumes new_malloc: "new_op sz s = Some (p, s') \<Longrightarrow> malloc answer sz s = (p, s')"
    and delete_free: "delete_op p s = free p s"
begin

lemma new_keeps:
  assumes "fresh_blocks answer" "new_op sz s = Some (p, s')" "blocks s q = Some n"
  shows "blocks s' q = Some n" and "p \<noteq> 0 \<Longrightarrow> q \<noteq> p"
proof -
  have "answer (blocks s) sz \<noteq> 0 \<longrightarrow> q \<noteq> answer (blocks s) sz"
  proof (intro impI notI)
    assume "answer (blocks s) sz \<noteq> 0" and q: "q = answer (blocks s) sz"
    then have "blocks s (answer (blocks s) sz) = None" using assms(1) unfolding fresh_blocks_def by blast
    with q assms(3) show False by simp
  qed
  then show "blocks s' q = Some n" and "p \<noteq> 0 \<Longrightarrow> q \<noteq> p"
    using new_malloc [OF assms(2)] assms(3) by (auto simp: malloc_def Let_def split: if_splits)
qed

lemma new_block: "new_op sz s = Some (p, s') \<Longrightarrow> p \<noteq> 0 \<Longrightarrow> blocks s' p = Some sz"
  using new_malloc [of sz s p s'] by (auto simp: malloc_def Let_def split: if_splits)

lemma new_then_delete: "fresh_blocks answer \<Longrightarrow> new_op sz s = Some (p, s') \<Longrightarrow> delete_op p s' = s"
  using new_malloc [of sz s p s']
  by (auto simp: malloc_def delete_free free_def fresh_blocks_def Let_def fun_upd_idem split: if_splits)

end

definition returned :: "'a ended \<Rightarrow> ('a \<times> cxx_state) option" where
  "returned r = (case r of Returns p s \<Rightarrow> Some (p, s) | Exits _ _ \<Rightarrow> None)"

interpretation plain: new_delete answer "\<lambda>sz s. returned (operator_new shown answer sz s)" operator_delete for answer shown
  by unfold_locales (auto simp: returned_def operator_new_def operator_delete_def split: ended.splits prod.splits if_splits)

interpretation plain_array: new_delete answer "\<lambda>sz s. returned (operator_new_array shown answer sz s)" operator_delete_array
  for answer shown
  by unfold_locales
    (auto simp: returned_def operator_new_array_def operator_delete_array_def split: ended.splits prod.splits if_splits)

interpretation nothrow: new_delete answer "\<lambda>sz s. Some (operator_new_nothrow answer sz s)" operator_delete_nothrow for answer
  by unfold_locales (simp_all add: operator_new_nothrow_def operator_delete_nothrow_def)

interpretation nothrow_array: new_delete answer "\<lambda>sz s. Some (operator_new_array_nothrow answer sz s)"
  operator_delete_array_nothrow for answer
  by unfold_locales (simp_all add: operator_new_array_nothrow_def operator_delete_array_nothrow_def)

text \<open>
  The operators that may not fail: they return a non-null block of the size asked for, or end the program with status 1
  and one more message when the allocator has none.
\<close>

lemma operator_new_ends:
  assumes "fresh_blocks answer"
  shows "case operator_new shown answer sz s of
      Returns p s' \<Rightarrow> p \<noteq> 0 \<and> blocks s' p = Some sz \<and> blocks s p = None \<and> operator_delete p s' = s
    | Exits status s' \<Rightarrow> status = 1 \<and> answer (blocks s) sz = 0 \<and> blocks s' = blocks s \<and>
        length (printed s') = Suc (length (printed s))"
  using assms by (auto simp: operator_new_def operator_delete_def malloc_def free_def fresh_blocks_def Let_def fun_upd_idem)

lemma operator_new_array_ends:
  assumes "fresh_blocks answer"
  shows "case operator_new_array shown answer sz s of
      Returns p s' \<Rightarrow> p \<noteq> 0 \<and> blocks s' p = Some sz \<and> blocks s p = None \<and> operator_delete_array p s' = s
    | Exits status s' \<Rightarrow> status = 1 \<and> answer (blocks s) sz = 0 \<and> blocks s' = blocks s \<and>
        length (printed s') = Suc (length (printed s))"
  using assms
  by (auto simp: operator_new_array_def operator_delete_array_def malloc_def free_def fresh_blocks_def Let_def fun_upd_idem)

end
