(* ===== verification/Libc_Math.thy ===== *)
theory Libc_Math
  imports Libc_Wrap
begin

text \<open>
  The floating point tests of \<open>libc/libc-math.c\<close> and \<open>libc/libc.c\<close> on the bit patterns of IEEE 754, and the functions of
  \<open>libc/libc.c\<close> that end the program.
\<close>

section \<open>Floating point numbers\<close>

text \<open>
  A format has \<open>e\<close> bits of exponent and \<open>f\<close> bits of fraction. The magnitude of a finite number counts the least positive
  number of the format.
\<close>

record fp_format =
  ebits :: nat
  fbits :: nat

definition fp_float :: fp_format where "fp_float = \<lparr>ebits = 8, fbits = 23\<rparr>"
definition fp_double :: fp_format where "fp_double = \<lparr>ebits = 11, fbits = 52\<rparr>"
definition fp_quad :: fp_format where "fp_quad = \<lparr>ebits = 15, fbits = 112\<rparr>"

lemmas fp_formats = fp_float_def fp_double_def fp_quad_def

datatype fp = NaN | Infinity bool | Finite bool nat

definition fp_exponent :: "fp_format \<Rightarrow> nat \<Rightarrow> nat" where
  "fp_exponent F b = b div 2 ^ fbits F mod 2 ^ ebits F"

definition fp_fraction :: "fp_format \<Rightarrow> nat \<Rightarrow> nat" where
  "fp_fraction F b = b mod 2 ^ fbits F"

definition fp_negative :: "fp_format \<Rightarrow> nat \<Rightarrow> bool" where
  "fp_negative F b \<longleftrightarrow> odd (b div 2 ^ (fbits F + ebits F))"

definition fp_decode :: "fp_format \<Rightarrow> nat \<Rightarrow> fp" where
  "fp_decode F b =
     (let x = fp_exponent F b; m = fp_fraction F b
      in if x = 2 ^ ebits F - 1 then (if m = 0 then Infinity (fp_negative F b) else NaN)
         else Finite (fp_negative F b) (if x = 0 then m else (2 ^ fbits F + m) * 2 ^ (x - 1)))"

text \<open>The classification of C, with the numbers that the caller gives to the classes.\<close>

definition builtin_fpclassify :: "u32 \<Rightarrow> u32 \<Rightarrow> u32 \<Rightarrow> u32 \<Rightarrow> u32 \<Rightarrow> fp_format \<Rightarrow> nat \<Rightarrow> u32" where
  "builtin_fpclassify nan infn normal subnormal zero F b =
     (case fp_decode F b of NaN \<Rightarrow> nan | Infinity _ \<Rightarrow> infn
      | Finite _ m \<Rightarrow> if 2 ^ fbits F \<le> m then normal else if m = 0 then zero else subnormal)"

definition c_isnan :: "fp_format \<Rightarrow> nat \<Rightarrow> bool" where
  "c_isnan F b \<longleftrightarrow> fp_decode F b = NaN"

definition c_isfinite :: "fp_format \<Rightarrow> nat \<Rightarrow> bool" where
  "c_isfinite F b \<longleftrightarrow> (case fp_decode F b of Finite _ _ \<Rightarrow> True | _ \<Rightarrow> False)"

section \<open>The functions\<close>

definition BIT :: "nat \<Rightarrow> u32" where "BIT x = push_bit x 1"

definition BIONIC_FP_INFINITE :: u32 where "BIONIC_FP_INFINITE = BIT 0"
definition BIONIC_FP_NAN :: u32 where "BIONIC_FP_NAN = BIT 1"
definition BIONIC_FP_NORMAL :: u32 where "BIONIC_FP_NORMAL = BIT 2"
definition BIONIC_FP_SUBNORMAL :: u32 where "BIONIC_FP_SUBNORMAL = BIT 3"
definition BIONIC_FP_ZERO :: u32 where "BIONIC_FP_ZERO = BIT 4"

lemmas bionic_fp_numbers = BIONIC_FP_INFINITE_def BIONIC_FP_NAN_def BIONIC_FP_NORMAL_def BIONIC_FP_SUBNORMAL_def
  BIONIC_FP_ZERO_def BIT_def

definition bionic_fpclassify :: "fp_format \<Rightarrow> nat \<Rightarrow> u32" where
  "bionic_fpclassify = builtin_fpclassify BIONIC_FP_NAN BIONIC_FP_INFINITE BIONIC_FP_NORMAL BIONIC_FP_SUBNORMAL BIONIC_FP_ZERO"

definition bionic_isnan :: "u64 \<Rightarrow> bool" where
  "bionic_isnan val = c_isnan fp_double (unat val)"

definition bionic___fpclassifyf :: "u32 \<Rightarrow> u32" where
  "bionic___fpclassifyf f = bionic_fpclassify fp_float (unat f)"

definition bionic___fpclassifyd :: "u64 \<Rightarrow> u32" where
  "bionic___fpclassifyd d = bionic_fpclassify fp_double (unat d)"

text \<open>The format of a \<^verbatim>\<open>long double\<close> is that of aarch64.\<close>

definition bionic___fpclassifyl :: "128 word \<Rightarrow> u32" where
  "bionic___fpclassifyl e = bionic_fpclassify fp_quad (unat e)"

definition bionic___isfinitef :: "u32 \<Rightarrow> bool" where
  "bionic___isfinitef f = c_isfinite fp_float (unat f)"

definition bionic___isfinite :: "u32 \<Rightarrow> bool" where
  "bionic___isfinite f = c_isfinite fp_float (unat f)"

text \<open>
  A program calls \<open>__isfinite\<close> with a \<^verbatim>\<open>double\<close>. The wrapper is declared with a \<^verbatim>\<open>float\<close>, which it finds in the low half of
  the same register or of the same place on the stack.
\<close>

definition call_isfinite :: "u64 \<Rightarrow> bool" where
  "call_isfinite d = bionic___isfinite (ucast d)"

section \<open>Classes\<close>

lemma fp_bounds: "fp_exponent F b < 2 ^ ebits F" "fp_fraction F b < 2 ^ fbits F"
  by (simp_all add: fp_exponent_def fp_fraction_def)

text \<open>The class by fields, as a table of the standard gives it.\<close>

lemma fpclassify_fields:
  assumes "1 < ebits F"
  shows "bionic_fpclassify F b =
    (if fp_exponent F b = 2 ^ ebits F - 1 then if fp_fraction F b = 0 then BIONIC_FP_INFINITE else BIONIC_FP_NAN
     else if fp_exponent F b = 0 then if fp_fraction F b = 0 then BIONIC_FP_ZERO else BIONIC_FP_SUBNORMAL
     else BIONIC_FP_NORMAL)"
proof -
  have "fp_fraction F b < 2 ^ fbits F" by (rule fp_bounds)
  moreover have "2 ^ fbits F \<le> (2 ^ fbits F + fp_fraction F b) * 2 ^ n" for n
  proof -
    have "2 ^ fbits F * 1 \<le> (2 ^ fbits F + fp_fraction F b) * (2 :: nat) ^ n" by (intro mult_le_mono) simp_all
    then show ?thesis by (simp only: mult_1_right)
  qed
  ultimately show ?thesis
    by (simp add: bionic_fpclassify_def builtin_fpclassify_def fp_decode_def Let_def)
qed

text \<open>The five classes are different single bits, and the tests agree with them.\<close>

lemma fp_numbers: "distinct [BIONIC_FP_INFINITE, BIONIC_FP_NAN, BIONIC_FP_NORMAL, BIONIC_FP_SUBNORMAL, BIONIC_FP_ZERO]"
  by (simp add: bionic_fp_numbers)

lemma tests_agree:
  "c_isnan F b \<longleftrightarrow> bionic_fpclassify F b = BIONIC_FP_NAN"
  "c_isfinite F b \<longleftrightarrow> bionic_fpclassify F b \<notin> {BIONIC_FP_NAN, BIONIC_FP_INFINITE}"
  using fp_numbers
  by (auto simp: c_isnan_def c_isfinite_def bionic_fpclassify_def builtin_fpclassify_def split: fp.splits)

text \<open>The normal numbers are those from \<open>2 ^ fbits\<close> times the least positive number on; the others are smaller.\<close>

lemma class_of_magnitude:
  assumes "fp_decode F b = Finite s m"
  shows "bionic_fpclassify F b = BIONIC_FP_ZERO \<longleftrightarrow> m = 0"
    and "bionic_fpclassify F b = BIONIC_FP_SUBNORMAL \<longleftrightarrow> 0 < m \<and> m < 2 ^ fbits F"
    and "bionic_fpclassify F b = BIONIC_FP_NORMAL \<longleftrightarrow> 2 ^ fbits F \<le> m"
  using assms fp_numbers by (auto simp: bionic_fpclassify_def builtin_fpclassify_def)

section \<open>\<open>__isfinite\<close> of a double\<close>

lemma c_isfinite_exponent: "c_isfinite F b \<longleftrightarrow> fp_exponent F b \<noteq> 2 ^ ebits F - 1"
  by (simp add: c_isfinite_def fp_decode_def Let_def)

text \<open>The answer depends on eight bits in the middle of the fraction, and not on the exponent.\<close>

lemma call_isfinite_bits: "call_isfinite d \<longleftrightarrow> unat d div 2 ^ 23 mod 2 ^ 8 \<noteq> 255"
proof -
  have "unat (ucast d :: u32) = unat d mod 2 ^ 32"
    by (simp add: unsigned_ucast_eq take_bit_eq_mod min_def)
  moreover have "n mod 2 ^ 32 div 2 ^ 23 mod 2 ^ 8 = n div 2 ^ 23 mod 2 ^ 8" for n :: nat
    unfolding take_bit_eq_mod [symmetric] drop_bit_eq_div [symmetric] by (simp add: drop_bit_take_bit)
  ultimately show ?thesis
    by (simp add: call_isfinite_def bionic___isfinite_def c_isfinite_exponent fp_exponent_def fp_float_def)
qed

lemma call_isfinite_wrong:
  "call_isfinite 0x7FF0000000000000" "\<not> c_isfinite fp_double (unat (0x7FF0000000000000 :: u64))"
  "call_isfinite 0x7FF8000000000000" "\<not> c_isfinite fp_double (unat (0x7FF8000000000000 :: u64))"
  "\<not> call_isfinite 0x3FF000007F800000" "c_isfinite fp_double (unat (0x3FF000007F800000 :: u64))"
  by (simp_all add: call_isfinite_bits c_isfinite_exponent fp_exponent_def fp_double_def)

section \<open>The end of the program\<close>

text \<open>What is printed on the error stream, and that the program aborts; the line number is printed by a parameter.\<close>

definition bionic___assert2 :: "(int \<Rightarrow> string) \<Rightarrow> string \<Rightarrow> int \<Rightarrow> string \<Rightarrow> string \<Rightarrow> string \<times> unit outcome" where
  "bionic___assert2 shown file line func failed_expression =
     (file @ '':'' @ shown line @ '': '' @ func @ '': assertion '' @ [CHR 0x22] @ failed_expression @ [CHR 0x22] @
      '' failed'' @ [CHR 0x0A], Aborts)"

definition bionic___stack_chk_guard :: u64 where "bionic___stack_chk_guard = 4"

definition bionic___stack_chk_fail :: "unit outcome" where
  "bionic___stack_chk_fail = Aborts"

end
