(* ===== verification/Verbose_Log.thy ===== *)
theory Verbose_Log
  imports Bionic_Prelude
begin

text \<open>
  Tracing: the messages of \<open>wrapper/wrapper.c\<close>, the macros of \<open>linker/linker_debug.h\<close> that use them, and the wrappers of
  \<open>libc/libc-verbose.h\<close>, which print their arguments and call the host. The system logger, \<^verbatim>\<open>vsnprintf\<close> and the functions of
  the host are parameters; a string is an address in the host's state.
\<close>

section \<open>Messages\<close>

definition ANDROID_LOG_VERBOSE :: int where "ANDROID_LOG_VERBOSE = 2"

text \<open>
  What \<^verbatim>\<open>dlsym\<close> finds, the text that \<^verbatim>\<open>vsnprintf\<close> makes of a format and its arguments, the number of the thread, and
  the logger of the system with its result.
\<close>

record 'h log_host =
  has_logger :: bool
  expand :: "'h \<Rightarrow> string \<Rightarrow> u64 list \<Rightarrow> string"
  self :: u64
  android_log_vprint :: "int \<Rightarrow> string \<Rightarrow> string \<Rightarrow> int"

datatype logger = System_logger | Fallback

text \<open>The static variables, the lines on the standard error stream, and what the system's logger was given.\<close>

record log_state =
  cached_logger :: "logger option"
  log_buf :: string
  stderr_lines :: "(u64 \<times> string) list"
  system_log :: "(int \<times> string \<times> string) list"

definition sizeof_log_buf :: nat where "sizeof_log_buf = 1024"

definition fallback_verbose_log :: "'h log_host \<Rightarrow> 'h \<Rightarrow> int \<Rightarrow> string \<Rightarrow> string \<Rightarrow> u64 list \<Rightarrow> log_state \<Rightarrow> int \<times> log_state" where
  "fallback_verbose_log H h prio tag fmt ap st =
     (let text = expand H h fmt ap;
          buf = take (sizeof_log_buf - 1) text
      in (int (length text), st\<lparr>log_buf := buf, stderr_lines := stderr_lines st @ [(self H, buf)]\<rparr>))"

definition android_log_vprintf :: "'h log_host \<Rightarrow> 'h \<Rightarrow> int \<Rightarrow> string \<Rightarrow> string \<Rightarrow> u64 list \<Rightarrow> log_state \<Rightarrow> int \<times> log_state" where
  "android_log_vprintf H h prio tag fmt ap st =
     (let logger = (case cached_logger st of
            None \<Rightarrow> if has_logger H then System_logger else Fallback
          | Some l \<Rightarrow> l);
          st = st\<lparr>cached_logger := Some logger\<rparr>
      in case logger of
           System_logger \<Rightarrow> (let text = expand H h fmt ap
             in (android_log_vprint H prio tag text, st\<lparr>system_log := system_log st @ [(prio, tag, text)]\<rparr>))
         | Fallback \<Rightarrow> fallback_verbose_log H h prio tag fmt ap st)"

definition android_log_printf :: "'h log_host \<Rightarrow> 'h \<Rightarrow> int \<Rightarrow> string \<Rightarrow> string \<Rightarrow> u64 list \<Rightarrow> log_state \<Rightarrow> int \<times> log_state" where
  "android_log_printf H h prio tag fmt ap st = android_log_vprintf H h prio tag fmt ap st"

definition verbose_log :: "'h log_host \<Rightarrow> 'h \<Rightarrow> string \<Rightarrow> u64 list \<Rightarrow> log_state \<Rightarrow> log_state" where
  "verbose_log H h fmt ap st = snd (android_log_vprintf H h ANDROID_LOG_VERBOSE ''[bionic_translation]'' fmt ap st)"

text \<open>\<open>verbose\<close> is nothing unless the file is compiled for it.\<close>

definition verbose :: "bool \<Rightarrow> 'h log_host \<Rightarrow> 'h \<Rightarrow> string \<Rightarrow> u64 list \<Rightarrow> log_state \<Rightarrow> log_state" where
  "verbose VERBOSE_FUNCTIONS H h fmt ap st = (if VERBOSE_FUNCTIONS then verbose_log H h fmt ap st else st)"

text \<open>The messages of the linker: their level becomes a priority of the system's logger.\<close>

definition PRINTVF :: "bool \<Rightarrow> 'h log_host \<Rightarrow> 'h \<Rightarrow> int \<Rightarrow> string \<Rightarrow> u64 list \<Rightarrow> log_state \<Rightarrow> log_state" where
  "PRINTVF LINKER_DEBUG H h v fmt ap st =
     (if LINKER_DEBUG then snd (android_log_printf H h (5 - v) ''[bionic_linker]'' fmt ap st) else st)"

definition PRINT :: "bool \<Rightarrow> 'h log_host \<Rightarrow> 'h \<Rightarrow> string \<Rightarrow> u64 list \<Rightarrow> log_state \<Rightarrow> log_state" where
  "PRINT dbg H h = PRINTVF dbg H h 3"

definition INFO :: "bool \<Rightarrow> 'h log_host \<Rightarrow> 'h \<Rightarrow> string \<Rightarrow> u64 list \<Rightarrow> log_state \<Rightarrow> log_state" where
  "INFO dbg H h = PRINTVF dbg H h 3"

definition TRACE :: "bool \<Rightarrow> 'h log_host \<Rightarrow> 'h \<Rightarrow> string \<Rightarrow> u64 list \<Rightarrow> log_state \<Rightarrow> log_state" where
  "TRACE dbg H h = PRINTVF dbg H h 3"

definition DEBUG :: "bool \<Rightarrow> 'h log_host \<Rightarrow> 'h \<Rightarrow> string \<Rightarrow> u64 list \<Rightarrow> log_state \<Rightarrow> log_state" where
  "DEBUG dbg H h = PRINTVF dbg H h 2"

lemmas linker_messages = PRINT_def INFO_def TRACE_def DEBUG_def PRINTVF_def

text \<open>What has been logged, wherever it went: with the system's logger priority, tag and text, else the thread and the text.\<close>

definition logged :: "log_state \<Rightarrow> (int \<times> string \<times> string) list \<times> (u64 \<times> string) list" where
  "logged st = (system_log st, stderr_lines st)"

definition logger_of :: "'h log_host \<Rightarrow> log_state \<Rightarrow> logger" where
  "logger_of H st = (case cached_logger st of Some l \<Rightarrow> l | None \<Rightarrow> if has_logger H then System_logger else Fallback)"

text \<open>
  A message goes to one place, and where the first one went all others go, even when a logger appears later. On the
  error stream it is cut to 1023 characters, but the length that is returned is that of the whole text.
\<close>

lemma android_log_vprintf_logs:
  assumes "android_log_vprintf H h prio tag fmt ap st = (ret, st')"
  shows "case logger_of H st of
      System_logger \<Rightarrow> logged st' = (system_log st @ [(prio, tag, expand H h fmt ap)], stderr_lines st)
    | Fallback \<Rightarrow> logged st' = (system_log st, stderr_lines st @ [(self H, take 1023 (expand H h fmt ap))]) \<and>
        ret = int (length (expand H h fmt ap))"
    and "cached_logger st' = Some (logger_of H st)" "logger_of H' st' = logger_of H st"
proof -
  have e: "logger_of H st = (case cached_logger st of None \<Rightarrow> if has_logger H then System_logger else Fallback | Some l \<Rightarrow> l)"
    by (cases "cached_logger st") (simp_all add: logger_of_def)
  note a = assms [unfolded android_log_vprintf_def Let_def e [symmetric] fallback_verbose_log_def]
  show "case logger_of H st of
      System_logger \<Rightarrow> logged st' = (system_log st @ [(prio, tag, expand H h fmt ap)], stderr_lines st)
    | Fallback \<Rightarrow> logged st' = (system_log st, stderr_lines st @ [(self H, take 1023 (expand H h fmt ap))]) \<and>
        ret = int (length (expand H h fmt ap))"
    using a by (cases "logger_of H st") (auto simp: logged_def sizeof_log_buf_def)
  show "cached_logger st' = Some (logger_of H st)"
    using a by (cases "logger_of H st") auto
  then show "logger_of H' st' = logger_of H st" by (simp add: logger_of_def)
qed

lemma linker_priorities:
  assumes "logger_of H st = System_logger"
  shows "system_log (INFO True H h fmt ap st) = system_log st @ [(2, ''[bionic_linker]'', expand H h fmt ap)]"
    and "system_log (DEBUG True H h fmt ap st) = system_log st @ [(3, ''[bionic_linker]'', expand H h fmt ap)]"
    and "INFO False H h fmt ap st = st" "DEBUG False H h fmt ap st = st"
  using android_log_vprintf_logs(1) [of H h _ _ fmt ap st] assms
  by (simp_all add: linker_messages android_log_printf_def logged_def prod_eq_iff)

section \<open>Tracing wrappers\<close>

text \<open>
  A wrapper: its name, the number of its parameters (a \<^verbatim>\<open>va_list\<close> of the further arguments is the last), the message and
  what it shows, the function of the host and its arguments, and whether the message comes before or after the call.
\<close>

datatype shown = Par nat | Result string "nat list"

datatype moment = Before | After

datatype tracer = Tr (tr_name: string) (tr_params: nat) (tr_fmt: string) (tr_shown: "shown list")
  (tr_host: string) (tr_args: "nat list") (tr_moment: moment)

type_synonym 'h calls = "string \<Rightarrow> u64 list \<Rightarrow> 'h \<Rightarrow> u64 \<times> 'h"

definition params :: "u64 list \<Rightarrow> nat list \<Rightarrow> u64 list option" where
  "params vs ns = those (map (arr_get vs) ns)"

fun show_all :: "'h calls \<Rightarrow> u64 list \<Rightarrow> shown list \<Rightarrow> 'h \<Rightarrow> (u64 list \<times> 'h) option" where
  "show_all F vs [] h = Some ([], h)"
| "show_all F vs (Par i # xs) h = do { v \<leftarrow> arr_get vs i; (ws, h) \<leftarrow> show_all F vs xs h; Some (v # ws, h) }"
| "show_all F vs (Result f ns # xs) h = do {
     args \<leftarrow> params vs ns;
     let (v, h) = F f args h;
     (ws, h) \<leftarrow> show_all F vs xs h;
     Some (v # ws, h)
   }"

definition trace_message :: "'h log_host \<Rightarrow> 'h calls \<Rightarrow> tracer \<Rightarrow> u64 list \<Rightarrow> 'h \<times> log_state \<Rightarrow> ('h \<times> log_state) option" where
  "trace_message H F t vs st = do {
     (ws, h) \<leftarrow> show_all F vs (tr_shown t) (fst st);
     Some (h, verbose True H h (tr_fmt t) ws (snd st))
   }"

definition traced :: "'h log_host \<Rightarrow> 'h calls \<Rightarrow> tracer \<Rightarrow> u64 list \<Rightarrow> 'h \<times> log_state \<Rightarrow> (u64 \<times> 'h \<times> log_state) option" where
  "traced H F t vs st = do {
     c_assert (length vs = tr_params t);
     st \<leftarrow> (if tr_moment t = Before then trace_message H F t vs st else Some st);
     args \<leftarrow> params vs (tr_args t);
     let (v, h) = F (tr_host t) args (fst st);
     st \<leftarrow> (if tr_moment t = After then trace_message H F t vs (h, snd st) else Some (h, snd st));
     Some (v, st)
   }"

definition verbose_rows :: "tracer list" where
  "verbose_rows = [
    Tr ''bionic_chdir'' 1 ''%s'' [Par 0] ''chdir'' [0] Before,
    Tr ''bionic_rename'' 2 ''%s -> %s'' [Par 0, Par 1] ''rename'' [0, 1] Before,
    Tr ''bionic_access'' 2 ''%s (%d)'' [Par 0, Par 1] ''access'' [0, 1] Before,
    Tr ''bionic_fopen'' 2 ''%s %s'' [Par 0, Par 1] ''fopen'' [0, 1] Before,
    Tr ''bionic_mkdir'' 2 ''%s -> %u'' [Par 0, Par 1] ''mkdir'' [0, 1] Before,
    Tr ''bionic_opendir'' 1 ''%s'' [Par 0] ''opendir'' [0] Before,
    Tr ''bionic_sprintf'' 3 ''%s == %s'' [Par 1, Par 0] ''vsprintf'' [0, 1, 2] After,
    Tr ''bionic_snprintf'' 4 ''%s (%zu) == %s'' [Par 2, Par 1, Par 0] ''vsnprintf'' [0, 1, 2, 3] After,
    Tr ''bionic_strlen'' 1 ''%s (%zu)'' [Par 0, Result ''strlen'' [0]] ''strlen'' [0] Before,
    Tr ''bionic_strchr'' 2 ''%s %c'' [Par 0, Par 1] ''strchr'' [0, 1] Before,
    Tr ''bionic_strcpy'' 2 ''%s'' [Par 1] ''strcpy'' [0, 1] Before,
    Tr ''bionic_strncpy'' 3 ''%s (%zu)'' [Par 1, Par 2] ''strncpy'' [0, 1, 2] Before,
    Tr ''bionic_strdup'' 1 ''%s'' [Par 0] ''strdup'' [0] Before,
    Tr ''bionic_strstr'' 2 ''%s, %s'' [Par 0, Par 1] ''strstr'' [0, 1] Before,
    Tr ''bionic_strcmp'' 2 ''%s == %s'' [Par 0, Par 1] ''strcmp'' [0, 1] Before,
    Tr ''bionic_strncmp'' 3 ''%s == %s (%zu)'' [Par 0, Par 1, Par 2] ''strncmp'' [0, 1, 2] Before,
    Tr ''bionic_readlink'' 3 ''%s'' [Par 0] ''readlink'' [0, 1, 2] Before,
    Tr ''bionic_unlink'' 1 ''%s'' [Par 0] ''unlink'' [0] Before,
    Tr ''bionic_getenv'' 1 ''%s'' [Par 0] ''getenv'' [0] Before]"

text \<open>All of them pass their parameters on in order, to the function of the same name or to its form with a \<^verbatim>\<open>va_list\<close>.\<close>

definition tracer_ok :: "tracer \<Rightarrow> bool" where
  "tracer_ok t \<longleftrightarrow> tr_args t = [0..<tr_params t] \<and>
     (tr_name t = ''bionic_'' @ tr_host t \<or> ''v'' @ drop 7 (tr_name t) = tr_host t \<and> tr_moment t = After) \<and>
     list_all (\<lambda>x. case x of Par i \<Rightarrow> i < tr_params t | Result f ns \<Rightarrow> f = ''strlen'' \<and> ns = [0] \<and> tr_params t = 1) (tr_shown t)"

lemma verbose_rows_ok: "list_all tracer_ok verbose_rows"
  by code_simp

lemma params_all: "params vs [0..<length vs] = Some vs"
proof -
  have "those (map (arr_get vs) ns) = Some (map ((!) vs) ns)" if "\<forall>i\<in>set ns. i < length vs" for ns
    using that by (induction ns) (auto simp: arr_get_def)
  then show ?thesis by (simp add: params_def map_nth)
qed

lemma show_all_pure:
  assumes "\<And>vs h. snd (F ''strlen'' vs h) = h" "length vs = n"
    and "list_all (\<lambda>x. case x of Par i \<Rightarrow> i < n | Result f ns \<Rightarrow> f = ''strlen'' \<and> ns = [0] \<and> n = 1) xs"
  shows "\<exists>ws. show_all F vs xs h = Some (ws, h) \<and> length ws = length xs"
  using assms(3)
proof (induction xs)
  case (Cons x xs)
  then obtain ws where ws: "show_all F vs xs h = Some (ws, h)" "length ws = length xs" by auto
  show ?case
  proof (cases x)
    case (Par i)
    then show ?thesis using Cons(2) ws assms(2) by (simp add: arr_get_def)
  next
    case (Result f ns)
    then have "f = ''strlen''" "ns = [0]" "length vs = 1" using Cons(2) assms(2) by simp_all
    then have "params vs ns = Some vs" using params_all [of vs] by simp
    moreover have "snd (F f vs h) = h" using assms(1) \<open>f = ''strlen''\<close> by simp
    ultimately show ?thesis using Result ws by (auto simp: Let_def split_def)
  qed
qed simp

text \<open>
  A traced function has the result and the effect of the host's function on the same arguments, and writes one message.
  Only that \<^verbatim>\<open>strlen\<close> changes nothing is asked of the host.
\<close>

lemma traced_is_host:
  assumes "t \<in> set verbose_rows" "length vs = tr_params t" "\<And>vs h. snd (F ''strlen'' vs h) = h"
    and "F (tr_host t) vs h = (v, h')"
  shows "\<exists>log' ws. traced H F t vs (h, log) = Some (v, h', log') \<and> length ws = length (tr_shown t) \<and>
    log' = verbose_log H (if tr_moment t = Before then h else h') (tr_fmt t) ws log"
proof -
  have ok: "tracer_ok t" using verbose_rows_ok assms(1) by (auto simp: list_all_iff)
  then have args: "params vs (tr_args t) = Some vs" using params_all [of vs] assms(2) by (simp add: tracer_ok_def)
  have "\<exists>ws. show_all F vs (tr_shown t) k = Some (ws, k) \<and> length ws = length (tr_shown t)" for k
    using show_all_pure [where F = F, OF assms(3) assms(2)] ok by (simp add: tracer_ok_def)
  then obtain ws where ws: "show_all F vs (tr_shown t) k = Some (ws k, k)" "length (ws k) = length (tr_shown t)" for k
    by metis
  show ?thesis
    by (cases "tr_moment t")
      (auto simp: traced_def trace_message_def args ws assms(2,4) verbose_def c_assert_def intro!: exI [of _ "ws _"])
qed

end
