(* ===== verification/Late_Hooks.thy ===== *)
theory Late_Hooks
  imports Bionic_Prelude
begin

text \<open>
  \<open>apkenv_wrap_function\<close> of \<open>linker/linker.c\<close> as it is compiled with \<^verbatim>\<open>APKENV_LATEHOOKS\<close> for 32-bit ARM: the first
  instructions of a function of a library are overwritten with a jump to its hook. To say what that does, the
  instructions that are written are given the meaning that the ARM architecture manual gives them.
\<close>

section \<open>The patch\<close>

type_synonym code_memory = "u32 \<Rightarrow> u8"

definition get16 :: "code_memory \<Rightarrow> u32 \<Rightarrow> u16" where
  "get16 m a = ucast (m a) OR push_bit 8 (ucast (m (a + 1)))"

definition put16 :: "u32 \<Rightarrow> u16 \<Rightarrow> code_memory \<Rightarrow> code_memory" where
  "put16 a w m = m(a := ucast w, a + 1 := ucast (drop_bit 8 w))"

definition get32 :: "code_memory \<Rightarrow> u32 \<Rightarrow> u32" where
  "get32 m a = ucast (get16 m a) OR push_bit 16 (ucast (get16 m (a + 2)))"

definition put32 :: "u32 \<Rightarrow> u32 \<Rightarrow> code_memory \<Rightarrow> code_memory" where
  "put32 a w m = put16 (a + 2) (ucast (drop_bit 16 w)) (put16 a (ucast w) m)"

text \<open>\<open>hooked\<close> stands for \<open>apkenv_get_hooked_symbol\<close>; \<open>wrapper_create\<close> returns the function it is given.\<close>

definition arm_patch :: "u32 \<Rightarrow> u32 \<Rightarrow> code_memory \<Rightarrow> code_memory" where
  "arm_patch sym_addr wrp m = put32 (sym_addr + 4) wrp (put32 sym_addr 0xe51ff004 m)"

fun put16s :: "u32 \<Rightarrow> u16 list \<Rightarrow> code_memory \<Rightarrow> code_memory" where
  "put16s a [] m = m"
| "put16s a (w # ws) m = put16s (a + 2) ws (put16 a w m)"

definition thumb_code :: "u32 \<Rightarrow> u16 list" where
  "thumb_code wrp = [0xB401, 0xF8DF, 0x0008, 0x4684, 0xBC01, 0x4760, ucast (wrp AND 0xFFFF), ucast (drop_bit 16 wrp)]"

definition apkenv_wrap_function :: "(string \<Rightarrow> u32) \<Rightarrow> u32 \<Rightarrow> string \<Rightarrow> bool \<Rightarrow> code_memory \<Rightarrow> code_memory" where
  "apkenv_wrap_function hooked sym_addr sym_name is_thumb m =
     (let hook = hooked sym_name
      in if hook \<noteq> 0 then
           (if \<not> is_thumb then arm_patch sym_addr hook m
            else put16s (sym_addr - 1) (thumb_code hook) m)
         else m)"

section \<open>The instructions\<close>

record cpu =
  reg0 :: u32
  ip :: u32
  sp :: u32
  pc :: u32
  thumb :: bool
  memo :: code_memory

text \<open>A jump to an address whose lowest bit tells the instruction set.\<close>

definition jump :: "u32 \<Rightarrow> cpu \<Rightarrow> cpu" where
  "jump a c = c\<lparr>pc := a AND NOT 1, thumb := odd a\<rparr>"

text \<open>The program counter that a load relative to it uses is rounded down to a multiple of four.\<close>

definition align4 :: "u32 \<Rightarrow> u32" where
  "align4 a = a - take_bit 2 a"

definition arm_step :: "cpu \<Rightarrow> cpu option" where
  "arm_step c = (if get32 (memo c) (pc c) = 0xe51ff004 then Some (jump (get32 (memo c) (pc c + 8 - 4)) c) else None)"

definition thumb_step :: "cpu \<Rightarrow> cpu option" where
  "thumb_step c =
     (let i = get16 (memo c) (pc c)
      in if i = 0xB401 then Some (c\<lparr>sp := sp c - 4, memo := put32 (sp c - 4) (reg0 c) (memo c), pc := pc c + 2\<rparr>)
         else if i = 0xF8DF \<and> get16 (memo c) (pc c + 2) = 0x0008 then
           Some (c\<lparr>reg0 := get32 (memo c) (align4 (pc c + 4) + 8), pc := pc c + 4\<rparr>)
         else if i = 0x4684 then Some (c\<lparr>ip := reg0 c, pc := pc c + 2\<rparr>)
         else if i = 0xBC01 then Some (c\<lparr>reg0 := get32 (memo c) (sp c), sp := sp c + 4, pc := pc c + 2\<rparr>)
         else if i = 0x4760 then Some (jump (ip c) c)
         else None)"

definition cpu_step :: "cpu \<Rightarrow> cpu option" where
  "cpu_step c = (if thumb c then thumb_step c else arm_step c)"

fun cpu_steps :: "nat \<Rightarrow> cpu \<Rightarrow> cpu option" where
  "cpu_steps 0 c = Some c"
| "cpu_steps (Suc n) c = do { c \<leftarrow> cpu_step c; cpu_steps n c }"

section \<open>Memory\<close>

lemma below: "(\<forall>i<4. P i) \<longleftrightarrow> P 0 \<and> P 1 \<and> P 2 \<and> P (3 :: nat)" "(\<forall>i<2. P i) \<longleftrightarrow> P 0 \<and> P (1 :: nat)"
proof -
  have "i < 4 \<longleftrightarrow> i = 0 \<or> i = 1 \<or> i = 2 \<or> i = 3" "i < 2 \<longleftrightarrow> i = 0 \<or> i = 1" for i :: nat by auto
  then show "(\<forall>i<4. P i) \<longleftrightarrow> P 0 \<and> P 1 \<and> P 2 \<and> P (3 :: nat)" "(\<forall>i<2. P i) \<longleftrightarrow> P 0 \<and> P (1 :: nat)" by auto
qed

lemma halves: "ucast (ucast w :: u8) OR push_bit 8 (ucast (ucast (drop_bit 8 w) :: u8)) = (w :: u16)"
  by (rule bit_word_eqI) (auto simp: bit_simps)

lemma words: "ucast (ucast w :: u16) OR push_bit 16 (ucast (ucast (drop_bit 16 w) :: u16)) = (w :: u32)"
  by (rule bit_word_eqI) (auto simp: bit_simps)

lemma get16_put16 [simp]: "get16 (put16 a w m) a = w"
  by (simp add: get16_def put16_def halves)

lemma get16_put16_other: "b \<noteq> a \<Longrightarrow> b + 1 \<noteq> a \<Longrightarrow> b \<noteq> a + 1 \<Longrightarrow> get16 (put16 a w m) b = get16 m b"
  by (simp add: get16_def put16_def)

lemma get32_put32 [simp]: "get32 (put32 a w m) a = w"
  by (simp add: get32_def put32_def get16_put16_other words)

lemma get16_put32_other:
  "(\<forall>i<2. \<forall>j<4. b + of_nat i \<noteq> a + of_nat j) \<Longrightarrow> get16 (put32 a w m) b = get16 m b"
  by (simp add: get16_def put32_def put16_def below add.assoc)

lemma get32_put32_other:
  "(\<forall>i<4. \<forall>j<4. b + of_nat i \<noteq> a + of_nat j) \<Longrightarrow> get32 (put32 a w m) b = get32 m b"
  by (simp add: get32_def get16_def put32_def put16_def below add.assoc)

section \<open>A call of the patched function\<close>

text \<open>The ARM form: one instruction, and the processor is at the hook with all registers as they were.\<close>

lemma arm_trampoline:
  assumes "hooked name = hook" "hook \<noteq> 0" "\<not> thumb c" "pc c = sym_addr"
    and "memo c = apkenv_wrap_function hooked sym_addr name False m"
  shows "cpu_steps 1 c = Some (jump hook c)"
proof -
  have m: "memo c = put32 (sym_addr + 4) hook (put32 sym_addr 0xe51ff004 m)"
    using assms(1,2,5) by (simp add: apkenv_wrap_function_def arm_patch_def)
  have "get32 (memo c) sym_addr = 0xe51ff004"
    unfolding m by (subst get32_put32_other) (simp_all add: below add.assoc)
  moreover have "get32 (memo c) (sym_addr + 4) = hook" by (simp add: m)
  ultimately show ?thesis by (simp add: cpu_step_def assms(3,4) arm_step_def add.commute)
qed

text \<open>The Thumb form pushes \<open>r0\<close>, so the word below the stack pointer must not lie in the patch.\<close>

definition apart :: "u32 \<Rightarrow> u32 \<Rightarrow> bool" where
  "apart a s \<longleftrightarrow> (\<forall>i<18. \<forall>j<4. a + of_nat i \<noteq> s + of_nat j)"

lemma apart_get16:
  assumes "apart a s" "k < 17" shows "get16 (put32 s w m) (a + of_nat k) = get16 m (a + of_nat k)"
proof (rule get16_put32_other, intro allI impI)
  fix i j :: nat assume "i < 2" "j < 4"
  then have "k + i < 18" using assms(2) by simp
  with \<open>j < 4\<close> assms(1) have "a + of_nat (k + i) \<noteq> s + of_nat j" unfolding apart_def by blast
  then show "a + of_nat k + of_nat i \<noteq> s + of_nat j" by (simp add: add.assoc)
qed

lemma lower_half_word: "ucast (w AND 0xFFFF :: u32) = (ucast w :: u16)"
proof -
  have "(0xFFFF :: u32) = mask 16" by (simp add: mask_eq_exp_minus_1)
  then show ?thesis by (simp add: bit_eq_iff bit_simps)
qed

lemma thumb_code_at:
  "get16 (put16s a (thumb_code w) m) a = 0xB401" "get16 (put16s a (thumb_code w) m) (a + 2) = 0xF8DF"
  "get16 (put16s a (thumb_code w) m) (a + 4) = 0x0008" "get16 (put16s a (thumb_code w) m) (a + 6) = 0x4684"
  "get16 (put16s a (thumb_code w) m) (a + 8) = 0xBC01" "get16 (put16s a (thumb_code w) m) (a + 10) = 0x4760"
  "get16 (put16s a (thumb_code w) m) (a + 12) = ucast w" "get16 (put16s a (thumb_code w) m) (a + 14) = ucast (drop_bit 16 w)"
  "get16 (put16s a (thumb_code w) m) (a + 16) = get16 m (a + 16)"
  by (simp_all add: thumb_code_def get16_put16_other add.assoc lower_half_word)

lemma take_bit_add_word: "take_bit 2 (a + b :: u32) = take_bit 2 (take_bit 2 a + b)"
proof -
  have "uint (take_bit 2 (a + b)) = take_bit 2 (uint a + uint b)"
    by (simp add: unsigned_take_bit_eq uint_word_ariths take_bit_eq_mod [symmetric])
      (simp add: take_bit_eq_mod mod_mod_cancel)
  moreover have "uint (take_bit 2 (take_bit 2 a + b)) = take_bit 2 (take_bit 2 (uint a) + uint b)"
    by (simp add: unsigned_take_bit_eq uint_word_ariths take_bit_eq_mod [symmetric])
      (simp add: take_bit_eq_mod mod_mod_cancel)
  moreover have "take_bit 2 (take_bit 2 (uint a) + uint b) = take_bit 2 (uint a + uint b)"
    by (simp add: take_bit_eq_mod mod_simps)
  ultimately have "uint (take_bit 2 (a + b)) = uint (take_bit 2 (take_bit 2 a + b))" by simp
  then show ?thesis by (rule unsigned_word_eqI)
qed

text \<open>
  The five instructions: the load takes the two half-words at \<open>lit\<close>, which is twelve or fourteen bytes behind the start
  of the function, depending on how the function is aligned.
\<close>

lemma thumb_run:
  assumes "thumb c" "apart (pc c) (sp c - 4)" "memo c = put16s (pc c) (thumb_code hook) m"
    and "take_bit 2 (pc c) = 0 \<and> lit = pc c + 12 \<or> take_bit 2 (pc c) = 2 \<and> lit = pc c + 14"
  shows "cpu_steps 5 c = Some (jump (get32 (memo c) lit) (c\<lparr>ip := get32 (memo c) lit, memo := put32 (sp c - 4) (reg0 c) (memo c)\<rparr>))"
proof -
  define a where "a = pc c"
  define st where "st = sp c - 4"
  define m' where "m' = put32 st (reg0 c) (memo c)"
  have k: "get16 m' (a + of_nat k) = get16 (memo c) (a + of_nat k)" if "k < 17" for k
    using apart_get16 [OF assms(2) that] by (simp add: m'_def a_def st_def)
  note at = thumb_code_at [of "pc c" hook m, folded assms(3) a_def]
  have code: "get16 (memo c) a = 0xB401" "get16 m' (a + 2) = 0xF8DF" "get16 m' (a + 4) = 0x0008" "get16 m' (a + 6) = 0x4684"
    "get16 m' (a + 8) = 0xBC01" "get16 m' (a + 10) = 0x4760"
    using at k [of 2] k [of 4] k [of 6] k [of 8] k [of 10] by simp_all
  have data: "get32 m' lit = get32 (memo c) lit"
    using assms(4) k [of 12] k [of 14] k [of 16] by (auto simp: get32_def a_def add.assoc)
  have lit: "align4 (a + 2 + 4) + 8 = lit"
  proof -
    have "take_bit 2 (a + 6) = take_bit 2 (take_bit 2 a + 6)" by (rule take_bit_add_word)
    then show ?thesis using assms(4) by (auto simp: align4_def a_def add.commute)
  qed
  let ?l = "get32 (memo c) lit"
  let ?c1 = "c\<lparr>sp := st, memo := m', pc := a + 2\<rparr>"
  have "cpu_step c = Some ?c1"
    using assms(1) code(1) by (simp add: cpu_step_def thumb_step_def a_def st_def m'_def)
  moreover have "cpu_step ?c1 = Some (?c1\<lparr>reg0 := ?l, pc := a + 6\<rparr>)"
    using assms(1) code(2,3) lit data by (simp add: cpu_step_def thumb_step_def add.assoc)
  moreover have "cpu_step (?c1\<lparr>reg0 := ?l, pc := a + 6\<rparr>) = Some (?c1\<lparr>reg0 := ?l, ip := ?l, pc := a + 8\<rparr>)"
    using assms(1) code(4) by (simp add: cpu_step_def thumb_step_def add.assoc)
  moreover have "cpu_step (?c1\<lparr>reg0 := ?l, ip := ?l, pc := a + 8\<rparr>) = Some (c\<lparr>memo := m', ip := ?l, pc := a + 10\<rparr>)"
    using assms(1) code(5) by (simp add: cpu_step_def thumb_step_def add.assoc m'_def st_def)
  moreover have "cpu_step (c\<lparr>memo := m', ip := ?l, pc := a + 10\<rparr>) = Some (jump ?l (c\<lparr>ip := ?l, memo := m'\<rparr>))"
    using assms(1) code(6) by (simp add: cpu_step_def thumb_step_def jump_def)
  ultimately show ?thesis by (simp add: eval_nat_numeral m'_def st_def)
qed

text \<open>
  A Thumb function that starts at a multiple of four is redirected: the hook is entered with all registers but \<open>ip\<close> as
  they were, the stack pointer included.
\<close>

lemma thumb_trampoline:
  assumes "hooked name = hook" "hook \<noteq> 0" "thumb c" "pc c = sym_addr - 1" "apart (pc c) (sp c - 4)"
    and "memo c = apkenv_wrap_function hooked sym_addr name True m" "take_bit 2 (pc c) = 0"
  shows "cpu_steps 5 c = Some (jump hook (c\<lparr>ip := hook, memo := put32 (sp c - 4) (reg0 c) (memo c)\<rparr>))"
proof -
  have m: "memo c = put16s (pc c) (thumb_code hook) m"
    using assms(1,2,4,6) by (simp add: apkenv_wrap_function_def)
  have "get32 (memo c) (pc c + 12) = hook"
    using thumb_code_at [of "pc c" hook m, folded m] by (simp add: get32_def add.assoc words)
  with thumb_run [OF assms(3,5) m, of "pc c + 12"] assms(7) show ?thesis by simp
qed

text \<open>
  A Thumb function need not be aligned so. At an address that is two more than a multiple of four the processor reads the
  upper half of the hook's address as the lower half of the target, and two bytes behind the patch as the upper one.
\<close>

lemma thumb_trampoline_unaligned:
  assumes "hooked name = hook" "hook \<noteq> 0" "thumb c" "pc c = sym_addr - 1" "apart (pc c) (sp c - 4)"
    and "memo c = apkenv_wrap_function hooked sym_addr name True m" "take_bit 2 (pc c) = 2"
    and "target = drop_bit 16 hook OR push_bit 16 (ucast (get16 m (pc c + 16)))"
  shows "cpu_steps 5 c = Some (jump target (c\<lparr>ip := target, memo := put32 (sp c - 4) (reg0 c) (memo c)\<rparr>))"
proof -
  have m: "memo c = put16s (pc c) (thumb_code hook) m"
    using assms(1,2,4,6) by (simp add: apkenv_wrap_function_def)
  have "ucast (ucast (drop_bit 16 hook) :: u16) = drop_bit 16 hook"
    by (rule bit_word_eqI) (auto simp: bit_simps dest: bit_imp_le_length)
  then have "get32 (memo c) (pc c + 14) = target"
    using thumb_code_at [of "pc c" hook m, folded m] assms(8) by (simp add: get32_def add.assoc)
  with thumb_run [OF assms(3,5) m, of "pc c + 14"] assms(7) show ?thesis by simp
qed

end
