(* ===== verification/Spec2Isabelle.thy ===== *)
theory Spec2Isabelle
  imports Linker_Environ Libdl_Table Load_Extents Elf_Rel32 Stub_Func Stdio_Null Sha1_Correct Libc_Wrap_Correct Libc_Start
    Libc_Tables Open_Wrap Forwarders_Correct Pthread_Race Pthread_Cleanup Pthread_Layout
    Cxa_Guard Cxx_Runtime Libc_Math Verbose_Log Late_Hooks
begin

text \<open>
  Verification of \<open>bionic_translation\<close>: a dynamic linker and a set of wrapper libraries that run programs built for
  Android's C library (bionic) on a Linux system with glibc or musl.

  \<^bold>\<open>The program.\<close> An application calls \<open>dlopen\<close> and its relatives (\<open>linker/dlfcn.c\<close>). They call the linker
  (\<open>linker/linker.c\<close>), which finds a library file, maps its segments, reads its dynamic section, loads what it needs,
  relocates it, runs its constructors and enters it into a registry of \<open>soinfo\<close> structures and into the list that debuggers
  read. The linker reads its search path and a table of overrides (\<open>linker/config.c\<close>) at the start, and can clear the environment
  (\<open>linker/linker_environ.c\<close>). A symbol that a library refers to is bound to a wrapper \<open>bionic_\<close>\<^emph>\<open>name\<close> of the host when there is
  one. The wrappers are in \<open>libc/\<close> (strings with checks, files, signals, directories, the start and end of a program, SHA-1,
  tables) and in \<open>pthread_wrapper/\<close> (semaphores, locks, conditions, attributes, cleanup handlers). \<open>libstdc++_standalone/\<close> holds
  what compiled C++ calls: the guards of static objects, the allocation operators.

  \<^bold>\<open>Conventions.\<close> A run of a piece of C is a value of an option type: \<open>None\<close> is a crash, a failed assertion, or a loop without end.
  Errors that the code reports are values (\<open>dl_error\<close>, sums, return codes). Pointers, sizes and offsets are words with
  wrap-around; memory is a byte for each address and a protection for each page, so that an access to a page that
  is not mapped, or not writable, is a crash.

  \<^bold>\<open>Theories and code.\<close>
  \<^item> \<open>Bionic_Prelude\<close>: arrays with bounds, C strings, automation. \<open>C_Memory\<close>: loads, stores, mappings, protections.
  \<^item> \<open>Strlcpy\<close>: \<open>linker/strlcpy.c\<close>. \<open>Linker_Environ\<close>: \<open>linker/linker_environ.c\<close>, the block of pointers behind the arguments.
  \<^item> \<open>Linker_State\<close>: \<open>struct soinfo\<close> (\<open>linker/linker.h\<close>) and the static variables of the linker as the record \<open>linker\<close>;
    a pointer to a library is a \<open>soref\<close>, the built-in object or a slot of the pool.
  \<^item> \<open>Soinfo_Pool\<close>: \<open>apkenv_alloc_info\<close>, \<open>apkenv_free_info\<close>, the test of a handle.
  \<^item> \<open>Elf_Lookup\<close>: both hash functions, both hash tables, the lookup scopes, addresses back to symbols, \<open>dl_iterate_phdr\<close>.
  \<^item> \<open>Gdb_Map\<close>: the link maps and \<open>_r_debug\<close>.
  \<^item> \<open>Elf_Load\<close>, \<open>Load_Extents\<close>: search, header checks, extents, reservation, segments.
  \<^item> \<open>Elf_Reloc\<close>: RELA tables on x86_64 and aarch64, RELR. \<open>Elf_Rel32\<close>: REL tables on ARM and i386. \<open>Stub_Func\<close>: the copied stub
    for functions that cannot be linked.
  \<^item> \<open>Link\<close>: constructors, destructors, \<open>apkenv_link_image\<close>, \<open>apkenv_find_library\<close>, \<open>apkenv_unload_library\<close>; their properties are in
    \<open>Link_Invariants\<close>, \<open>Constructors\<close> and \<open>Unload\<close>. \<open>Stdio_Null\<close>: \<open>apkenv_nullify_closed_stdio\<close>. \<open>Late_Hooks\<close>: \<open>apkenv_wrap_function\<close> as it is
    compiled with \<^verbatim>\<open>APKENV_LATEHOOKS\<close>, and the instructions it writes.
  \<^item> \<open>Config\<close>, \<open>Library_Path\<close>: the override table, its files, and \<open>dl_parse_library_path\<close>.
  \<^item> \<open>Dlfcn\<close>, \<open>Libdl_Table\<close>: \<open>linker/dlfcn.c\<close> and the symbol table of the built-in \<open>libdl.so\<close>.
  \<^item> \<open>Libc_Wrap\<close>, \<open>Libc_Wrap_Correct\<close>, \<open>Libc_Start\<close>, \<open>Libc_Tables\<close>: \<open>libc/libc.c\<close>, \<open>libc-chk.c\<close>, \<open>libc-misc.c\<close>, \<open>libc-sysconf.h\<close>, \<open>libc-ctype.h\<close>, and
    \<open>main_executable/bionic_compat.c\<close>. \<open>Open_Wrap\<close>: \<open>libc/libc-antiantidebug.c\<close>. \<open>Libc_Sha1\<close>, \<open>Sha1_Correct\<close>: \<open>libc/libc-sha1.c\<close>.
  \<^item> \<open>Forwarders\<close>, \<open>Forwarders_Correct\<close>: the functions of \<open>libc-musl.c\<close>, \<open>libc-stdio.c\<close>, \<open>libc-chk.c\<close> and \<open>libc.c\<close> whose body is one
    call, as rows of a table that one definition interprets.
  \<^item> \<open>Libc_Math\<close>: \<open>libc/libc-math.c\<close>, the floating point tests of \<open>libc.c\<close> on bit patterns, and its functions that abort.
  \<^item> \<open>Verbose_Log\<close>: the logger of \<open>wrapper/wrapper.c\<close>, the tracing wrappers of \<open>libc/libc-verbose.h\<close> as rows of a table, and
    the printing macros of \<open>linker/linker_debug.h\<close>.
  \<^item> \<open>Pthread_Wrap\<close>, \<open>Pthread_Lazy\<close>, \<open>Pthread_Cleanup\<close>, \<open>Pthread_Layout\<close>: \<open>pthread_wrapper/libpthread.c\<close>. \<open>Pthread_Race\<close> cuts
    the lock and the unlock of a mutex into steps, of which a schedule of several threads makes a run.
  \<^item> \<open>Cxa_Guard\<close>: \<open>libstdc++_standalone/__cxa_guard.cpp\<close>, a step relation in which the threads interleave; a step is one access to
    the guard or one system call. \<open>Cxx_Runtime\<close>: \<open>new.cpp\<close>, \<open>__cxa_pure_virtual.cpp\<close>, \<open>include/bionic_futex.h\<close>.

  \<^bold>\<open>What is shown.\<close>
  \<^item> Registry: in every reachable state the loaded libraries and the free slots are disjoint lists that make up the slots handed
    out; allocation, release, loading (with all recursion) and unloading keep this, and loaded libraries keep their
    order.
  \<^item> Lookup: on a well-formed table the search ends and finds exactly the exported symbol of that name; a relocation binds to the
    first exporter of its scope; an address maps back to its library and symbol.
  \<^item> Relocation: the value each type stores and that nothing else changes, on four machines; the compressed table is
    its decoded list.
  \<^item> Linking: constructors run once and behind those of what a library needs, destructors backwards; after success the
    relocated data is read-only; the nesting of loads is bounded; error paths.
  \<^item> Interface: what \<open>dlopen\<close>, \<open>dlsym\<close> and \<open>dlclose\<close> return and keep; the built-in library exports its six functions.
  \<^item> Input: the search path, the environment and the configuration files are read as written.
  \<^item> Wrappers: SHA-1 equals the standard's definition; string searches stay in bounds; pthread objects stand for the host's; forwarded calls
    reach the same function with the same arguments; the standard streams are open.
  \<^item> Threads: the calls on a guard refine an object that is built once; its word keeps the values that the two ABIs ask for;
    no wake-up is lost, and from every reachable state all threads can leave. An initialised mutex excludes, one with a
    static initialiser does not when it is used first by two threads at once.
  Where the code departs from what it means to do, the theorem says what it does, and the statement names the case.

  \<^bold>\<open>Interfaces.\<close> Each is a locale with its laws, interpreted on the definitions of the code: \<open>symbol_table\<close> (the two hash tables and
  their choice), \<open>slot_pool\<close> (the registry), \<open>library_finder\<close> and \<open>finder_pair\<close> (linking over the function that finds libraries),
  \<open>unloader\<close> (unloading over its own recursion), \<open>env_store\<close> (the environment), \<open>restartable\<close> (system calls that a signal may interrupt),
  \<open>new_delete\<close> (the four pairs of allocation operators).

  \<^bold>\<open>Bounds.\<close> \<open>apkenv_find_library\<close> has a bound on the nesting of loads: each level takes a slot of the pool, so any bound above
  \<open>SO_MAX\<close> gives the same result (\<open>Link_Invariants\<close>). \<open>apkenv_unload_library\<close> and the walk of the constructors have a bound of the same kind; the
  theorem about constructors shows that a bound above the depth of the dependencies is enough. Loops that may not end
  (lists, strings, retries) are \<open>partial_function\<close>s, and the properties show that they return. All other loops are total.

  \<^bold>\<open>Parameters.\<close> The host: its \<open>open\<close>, \<open>read\<close>, \<open>mmap\<close>, \<open>realpath\<close>, \<open>dlopen\<close>, \<open>dlsym\<close>, \<open>getenv\<close>, the functions of libraries (record \<open>os\<close>), its
  signals, pthread objects, files and descriptors. Hypotheses about them are named where they are used: \<open>mmap\<close> gives
  free pages, a signal does not interrupt for ever, the files of a library are well formed. In \<open>Elf_Rel32\<close> the search of
  the libraries is an argument too, since \<open>Elf_Lookup\<close> reads the 64-bit layout of a symbol.

  \<^bold>\<open>Not modelled.\<close> The messages that the linker prints on its way (the macros are, their calls are not): no effect on its state. The
  locks around the interface, and more than one thread, but for \<open>Cxa_Guard\<close> and \<open>Pthread_Race\<close>, where memory is
  sequentially consistent. The ARM unwind table, which needs another build, and the cache that the late hooks flush. The format
  of \<^verbatim>\<open>long double\<close> other than that of aarch64. \<open>bionic_tls.h\<close>, \<open>rt.c\<close>: declarations and an empty function. The jump of glibc into a
  cleanup handler. The build files and the launcher in \<open>src/src\<close>: other languages.
\<close>

end
